(* ===== verification/Prelude.thy ===== *)
theory Prelude
  imports Main "HOL-Library.Word"
begin

text \<open>
  What every component shares: the names of the machine types, errors as values,
  the byte-level view of little-endian integers, and generic lemmas on words and lists.
  \<^item> \<open>byte\<close>, \<open>u16\<close>, \<open>u32\<close>, \<open>u64\<close> are words of the width the C++ code uses; \<open>size_t\<close>
    positions and lengths of buffers held in memory are \<open>nat\<close>.
  \<^item> \<open>'a result\<close> is what a function \<open>bool f(..., T& out, std::string& error)\<close> returns:
    \<open>Inl\<close> the error text, \<open>Inr\<close> the value stored in \<open>out\<close>.
  \<^item> \<open>le_bytes\<close> and \<open>le_word\<close> are the little-endian layout that \<open>memcpy\<close> of an integer has
    on the little-endian hosts the code runs on.
\<close>

unbundle bit_operations_syntax

type_synonym byte = "8 word"
type_synonym u16 = "16 word"
type_synonym u32 = "32 word"
type_synonym u64 = "64 word"
type_synonym 'a result = "string + 'a"

named_theorems codec_simps \<open>decoder equations over an encoder's output\<close>
named_theorems width_simps \<open>byte lengths of encoded values\<close>

subsection \<open>Errors as values\<close>

text \<open>Running \<open>f\<close> on the value of \<open>m\<close>, or returning early with \<open>m\<close>'s error.\<close>

definition sbind :: "'e + 'a \<Rightarrow> ('a \<Rightarrow> 'e + 'b) \<Rightarrow> 'e + 'b" where
  "sbind m f = (case m of Inl e \<Rightarrow> Inl e | Inr x \<Rightarrow> f x)"

lemma sbind_simps [simp]:
  "sbind (Inl e) f = Inl e"
  "sbind (Inr x) f = f x"
  by (simp_all add: sbind_def)

lemma sbind_eq_Inr: "sbind m f = Inr y \<longleftrightarrow> (\<exists>x. m = Inr x \<and> f x = Inr y)"
  by (cases m) auto

lemma sbind_assoc: "sbind (sbind m f) g = sbind m (\<lambda>x. sbind (f x) g)"
  by (cases m) auto

text \<open>A loop whose body may return early with an error.\<close>

fun sfold :: "('s \<Rightarrow> 'a \<Rightarrow> 'e + 's) \<Rightarrow> 's \<Rightarrow> 'a list \<Rightarrow> 'e + 's" where
  "sfold f s [] = Inr s"
| "sfold f s (x # xs) = sbind (f s x) (\<lambda>s'. sfold f s' xs)"

lemma sfold_append: "sfold f s (xs @ ys) = sbind (sfold f s xs) (\<lambda>s'. sfold f s' ys)"
  by (induction xs arbitrary: s) (auto simp: sbind_assoc)

lemma sfold_invariant:
  assumes "sfold f s xs = Inr s'" and "P s"
    and "\<And>s x t. x \<in> set xs \<Longrightarrow> P s \<Longrightarrow> f s x = Inr t \<Longrightarrow> P t"
  shows "P s'"
  using assms
proof (induction xs arbitrary: s)
  case (Cons x xs)
  then obtain t where "f s x = Inr t" "sfold f t xs = Inr s'"
    by (auto simp: sbind_eq_Inr)
  moreover from this Cons.prems have "P t" by auto
  ultimately show ?case using Cons.IH [of t] Cons.prems(3) by auto
qed auto

text \<open>The value of an optional, or the error to return when there is none.\<close>

definition need :: "string \<Rightarrow> 'a option \<Rightarrow> 'a result" where
  "need error x = (case x of None \<Rightarrow> Inl error | Some v \<Rightarrow> Inr v)"

lemma need_simps [simp]: "need e (Some v) = Inr v" "need e None = Inl e"
  by (simp_all add: need_def)

lemma need_eq_Inr: "need e x = Inr v \<longleftrightarrow> x = Some v"
  by (cases x) auto

text \<open>\<open>std::find_if\<close> followed by a change of the element found: \<open>None\<close> when there is none.\<close>

fun update_first :: "('a \<Rightarrow> bool) \<Rightarrow> ('a \<Rightarrow> 'e + 'a) \<Rightarrow> 'a list \<Rightarrow> 'e + 'a list option" where
  "update_first P f [] = Inr None"
| "update_first P f (x # xs) =
     (if P x then sbind (f x) (\<lambda>y. Inr (Some (y # xs)))
      else sbind (update_first P f xs) (\<lambda>r. Inr (map_option (Cons x) r)))"

lemma update_first_None: "update_first P f xs = Inr None \<longleftrightarrow> (\<forall>x \<in> set xs. \<not> P x)"
  by (induction xs) (auto simp: sbind_eq_Inr)

lemma update_first_at:
  "\<forall>a \<in> set as. \<not> P a \<Longrightarrow> P x \<Longrightarrow>
     update_first P f (as @ x # bs) = sbind (f x) (\<lambda>y. Inr (Some (as @ y # bs)))"
  by (induction as) (simp_all add: sbind_assoc)

lemma update_first_SomeE:
  assumes "update_first P f xs = Inr (Some zs)"
  obtains as x bs y where "xs = as @ x # bs" "\<forall>a \<in> set as. \<not> P a" "P x" "f x = Inr y" "zs = as @ y # bs"
proof (cases "\<exists>x \<in> set xs. P x")
  case True
  then obtain as x bs where xs: "xs = as @ x # bs" "P x" "\<forall>a \<in> set as. \<not> P a"
    using split_list_first_prop [of xs P] by blast
  with assms obtain y where "f x = Inr y" "zs = as @ y # bs"
    by (auto simp: update_first_at sbind_eq_Inr)
  with xs show ?thesis by (intro that)
next
  case False
  then have "update_first P f xs = Inr None" by (simp add: update_first_None)
  with assms show ?thesis by simp
qed

lemma Inr_projr: "\<not> isl x \<Longrightarrow> x = Inr (projr x)"
  by (cases x) simp_all

text \<open>The bytes of a \<open>std::string\<close> and back.\<close>

definition bytes_of :: "string \<Rightarrow> byte list" where
  "bytes_of s = map (\<lambda>c. of_nat (of_char c)) s"

definition text_of :: "byte list \<Rightarrow> string" where
  "text_of bs = map (\<lambda>b. char_of (unat b)) bs"

lemma length_bytes_of [simp]: "length (bytes_of s) = length s"
  by (simp add: bytes_of_def)

lemma text_of_bytes_of [simp]: "text_of (bytes_of s) = s"
proof -
  have "char_of (unat (of_nat (of_char c) :: byte)) = c" for c :: char
  proof -
    have "(of_char c :: nat) < 256" by (rule nat_of_char_less_256)
    then show ?thesis by (simp add: unat_of_nat)
  qed
  then show ?thesis by (simp add: text_of_def bytes_of_def comp_def)
qed

text \<open>\<open>std::to_string\<close> of an unsigned integer.\<close>

fun to_string :: "nat \<Rightarrow> string" where
  "to_string n =
     (if n < 10 then [char_of (48 + n)] else to_string (n div 10) @ [char_of (48 + n mod 10)])"

declare to_string.simps [simp del]

subsection \<open>Words\<close>

lemma unat_shr: "unat (drop_bit n w) = unat w div 2 ^ n"
  by (simp add: unat_drop_bit_eq drop_bit_nat_def)

lemma unat_and_mask: "unat (w AND mask n) = unat w mod 2 ^ n"
  by (simp add: unsigned_take_bit_eq flip: take_bit_eq_mask) (simp add: take_bit_nat_def)

lemma shr_less: "0 < n \<Longrightarrow> 2 ^ n \<le> unat w \<Longrightarrow> unat (drop_bit n w) < unat w"
  by (metis div_less_dividend less_le_trans one_less_numeral_iff one_less_power semiring_norm(76)
      unat_shr zero_less_numeral zero_less_power)

lemma unat_of_nat_small: "n < 2 ^ LENGTH('a) \<Longrightarrow> unat (of_nat n :: 'a::len word) = n"
  by (simp add: unat_of_nat)

lemma take_bit_small: "unat w < 2 ^ n \<Longrightarrow> take_bit n w = w"
  by (rule word_unat_eq_iff [THEN iffD2]) (simp add: unsigned_take_bit_eq take_bit_nat_eq_self)

lemma bit_above_unat: "unat w < 2 ^ n \<Longrightarrow> n \<le> k \<Longrightarrow> \<not> bit w k"
  using take_bit_small [of w n] bit_take_bit_iff [of n w k] by auto

text \<open>The low \<open>n\<close> bits of a word and the word shifted right by \<open>n\<close> give the word back.\<close>

lemma or_push_drop:
  fixes a b :: "'a::len word"
  assumes "\<And>k. k < LENGTH('a) \<Longrightarrow> bit a k \<longleftrightarrow> k < n \<and> bit b k"
  shows "a OR push_bit n (drop_bit n b) = b"
proof (rule bit_word_eqI)
  fix k assume "k < LENGTH('a)"
  with assms show "bit (a OR push_bit n (drop_bit n b)) k = bit b k"
    by (cases "k < n") (auto simp: bit_simps)
qed

subsection \<open>Little-endian integers\<close>

fun le_bytes :: "nat \<Rightarrow> 'a::len word \<Rightarrow> byte list" where
  "le_bytes 0 v = []"
| "le_bytes (Suc n) v = ucast v # le_bytes n (drop_bit 8 v)"

fun le_word :: "byte list \<Rightarrow> 'a::len word" where
  "le_word [] = 0"
| "le_word (b # bs) = ucast b OR push_bit 8 (le_word bs)"

lemma length_le_bytes [simp, width_simps]: "length (le_bytes n v) = n"
  by (induction n arbitrary: v) auto

lemma nth_le_bytes: "i < n \<Longrightarrow> le_bytes n v ! i = ucast (drop_bit (8 * i) v)"
  by (induction n arbitrary: v i) (auto simp: nth_Cons ac_simps split: nat.splits)

text \<open>The form the code writes: byte \<open>i\<close> is the value shifted right by \<open>8 * i\<close>.\<close>

lemma le_bytes_eq_map: "le_bytes n v = map (\<lambda>i. ucast (drop_bit (8 * i) v)) [0..<n]"
  by (rule nth_equalityI) (auto simp: nth_le_bytes)

lemma bit_le_word:
  "bit (le_word bs :: 'a::len word) k \<longleftrightarrow>
     k < LENGTH('a) \<and> k div 8 < length bs \<and> bit (bs ! (k div 8)) (k mod 8)"
proof (induction bs arbitrary: k)
  case (Cons b bs)
  show ?case
  proof (cases "k < 8")
    case True
    then show ?thesis by (auto simp: bit_simps)
  next
    case False
    then have "k div 8 = Suc ((k - 8) div 8)" "(k - 8) mod 8 = k mod 8"
      by (simp_all add: le_div_geq le_mod_geq)
    with False show ?thesis
      using bit_imp_le_length [of b k] by (auto simp: bit_simps Cons)
  qed
qed simp

lemma bit_le_bytes:
  assumes "k div 8 < n"
  shows "bit (le_bytes n v ! (k div 8)) (k mod 8) \<longleftrightarrow> bit v k"
  using assms by (simp add: nth_le_bytes bit_simps)

text \<open>Reading back \<open>n\<close> bytes of \<open>v\<close> into an integer of any width keeps its low \<open>8 * n\<close> bits.\<close>

lemma le_word_le_bytes:
  "(le_word (le_bytes n (v :: 'a::len word)) :: 'b::len word) = ucast (take_bit (8 * n) v)"
proof (rule bit_word_eqI)
  fix k assume "k < LENGTH('b)"
  then show "bit (le_word (le_bytes n v) :: 'b word) k = bit (ucast (take_bit (8 * n) v) :: 'b word) k"
    using bit_le_bytes [of k n v]
    by (auto simp: bit_le_word bit_simps)
qed

lemma le_word_le_bytes_full [simp, codec_simps]:
  fixes v :: "'a::len word"
  shows "LENGTH('a) \<le> 8 * n \<Longrightarrow> (le_word (le_bytes n v) :: 'b::len word) = ucast v"
  by (simp add: le_word_le_bytes take_bit_word_eq_self)

subsection \<open>Words as numbers, and lists of equal-width parts\<close>

lemma length_concat_fixed: "(\<And>x. x \<in> set xs \<Longrightarrow> length (f x) = w) \<Longrightarrow> length (concat (map f xs)) = length xs * w"
  by (induction xs) auto

lemma nth_concat_fixed:
  "(\<And>x. x \<in> set xs \<Longrightarrow> length (f x) = w) \<Longrightarrow> i < length xs \<Longrightarrow>
   take w (drop (i * w) (concat (map f xs))) = f (xs ! i)"
proof (induction xs arbitrary: i)
  case (Cons x xs)
  then show ?case by (cases i) auto
qed simp

lemma unat_inject [simp]: "unat x = unat y \<longleftrightarrow> x = y"
  by (simp add: word_unat_eq_iff)

lemma unat_u64 [simp]: "unat (v :: u64) < 2 ^ 64"
  using unsigned_less [of v] by simp

lemma unat_plus_u64: "unat a + unat b < 2 ^ 64 \<Longrightarrow> unat (a + b :: u64) = unat a + unat b"
  by (simp add: unat_word_ariths)

lemma unat_max_minus: "unat (- 1 - v :: 'a::len word) = 2 ^ LENGTH('a) - 1 - unat v"
proof -
  have "unat (- 1 - v) = unat (- 1 :: 'a word) - unat v"
    by (rule unat_sub) simp
  then show ?thesis by (simp add: unsigned_minus_1_eq_mask mask_eq_exp_minus_1)
qed

lemma le_max_minus: "(a :: 'a::len word) > - 1 - b \<longleftrightarrow> 2 ^ LENGTH('a) \<le> unat a + unat b"
proof -
  have "unat b < 2 ^ LENGTH('a)" by simp
  then show ?thesis unfolding word_less_nat_alt unat_max_minus by arith
qed

lemma unat_plus_1: "(a :: 'a::len word) < - 1 \<Longrightarrow> unat (a + 1) = unat a + 1"
  by (metis Suc_eq_plus1 unatSuc add.commute add_eq_0_iff less_irrefl)

lemma ucast_ucast_small:
  assumes "unat (d :: 'a::len word) < 2 ^ LENGTH('b)"
  shows "ucast (ucast d :: 'b::len word) = d"
proof (rule bit_word_eqI)
  fix k show "bit (ucast (ucast d :: 'b word) :: 'a word) k = bit d k"
    using bit_above_unat [OF assms, of k] bit_imp_le_length [of d k]
    by (cases "k < LENGTH('b)") (auto simp: bit_simps)
qed

lemma unat_push_or:
  fixes a b :: "'a::len word"
  assumes b: "unat b < 2 ^ n" and fits: "unat a * 2 ^ n + unat b < 2 ^ LENGTH('a)"
  shows "unat (push_bit n a OR b) = unat a * 2 ^ n + unat b"
proof -
  have "push_bit n a OR b = push_bit n a + b"
  proof (rule disjunctive_add_eq_or [symmetric])
    show "push_bit n a AND b = 0"
    proof (rule bit_word_eqI)
      fix k show "bit (push_bit n a AND b) k = bit (0 :: 'a word) k"
        using bit_above_unat [OF b, of k] by (auto simp: bit_simps)
    qed
  qed
  moreover have "unat (push_bit n a) = unat a * 2 ^ n"
    using fits by (simp add: unsigned_push_bit_eq take_bit_nat_def push_bit_nat_def)
  ultimately show ?thesis using fits by (simp add: unat_word_ariths)
qed

lemma dropWhile_greater:
  fixes f :: "'a::linorder \<Rightarrow> 'b::linorder"
  assumes "mono f" and "sorted_wrt (<) (i # is)" and "j \<in> set (dropWhile (\<lambda>j. f j = f i) is)"
  shows "f i < f j"
  using assms(2,3)
proof (induction "is")
  case (Cons k "is")
  show ?case
  proof (cases "f k = f i")
    case True
    with Cons show ?thesis by simp
  next
    case False
    with Cons.prems have "k \<le> j" "i \<le> k" by (auto simp: less_imp_le)
    with assms(1) have "f k \<le> f j" "f i \<le> f k" by (auto dest: monoD)
    with False show ?thesis by simp
  qed
qed simp

lemma mono_unat_div: "mono (\<lambda>i. unat i div n)"
  by (rule monoI) (simp add: word_le_nat_alt div_le_mono)

lemma unat_ucast_up: "LENGTH('a) \<le> LENGTH('b) \<Longrightarrow> unat (ucast (w :: 'a::len word) :: 'b::len word) = unat w"
proof -
  assume "LENGTH('a) \<le> LENGTH('b)"
  then have "unat w < 2 ^ LENGTH('b)"
    by (meson less_le_trans one_le_numeral power_increasing unsigned_less)
  then show ?thesis by (simp add: unsigned_ucast_eq take_bit_nat_eq_self)
qed

lemma unat_u32: "unat (v :: u32) < 2 ^ 32"
  using unsigned_less [of v] by simp

lemma map_of_rev: "distinct (map fst xs) \<Longrightarrow> map_of (rev xs) = map_of xs"
proof (induction xs)
  case (Cons x xs)
  then have "map_of xs (fst x) = None" by (simp add: map_of_eq_None_iff)
  with Cons show ?case
    by (auto simp: map_of_append map_add_def fun_eq_iff split: option.splits)
qed simp

lemma distinct_concat_disjoint:
  "distinct (concat (map f xs)) \<Longrightarrow> x \<in> set xs \<Longrightarrow> y \<in> set xs \<Longrightarrow> x \<noteq> y \<Longrightarrow> set (f x) \<inter> set (f y) = {}"
proof (induction xs)
  case (Cons a xs)
  then have "set (f a) \<inter> (\<Union>z \<in> set xs. set (f z)) = {}" by simp
  with Cons show ?case by (cases "x = a"; cases "y = a") auto
qed simp

lemma takeWhile_sorted_key:
  "sorted (map f xs) \<Longrightarrow> takeWhile (\<lambda>x. \<not> (i :: 'a::linorder) < f x) xs = filter (\<lambda>x. \<not> i < f x) xs"
proof (induction xs)
  case (Cons x xs)
  have "filter (\<lambda>y. \<not> i < f y) xs = []" if "i < f x"
    using that Cons.prems by (auto simp: filter_empty_conv dest: order.strict_trans2)
  with Cons show ?case by auto
qed simp

lemma ucast_up_down:
  "LENGTH('a) \<le> LENGTH('b) \<Longrightarrow> ucast (ucast (v :: 'a::len word) :: 'b::len word) = v"
  by (rule bit_word_eqI) (auto simp: bit_simps)

lemma inj_unat_list: "map unat xs = map unat ys \<Longrightarrow> xs = ys"
  by (rule map_injective) (auto simp: inj_def)

lemma sorted_unat: "sorted_wrt (<) (map unat xs) \<longleftrightarrow> sorted_wrt (<) (xs :: 'a::len word list)"
  by (simp add: sorted_wrt_map word_less_nat_alt [abs_def])

lemma strict_sorted_filter_eq:
  assumes "sorted_wrt (<) rg" "sorted_wrt (<) (vs :: 'a::linorder list)" "set vs \<subseteq> set rg"
  shows "filter (\<lambda>v. v \<in> set vs) rg = vs"
proof (rule strict_sorted_equal)
  show "sorted_wrt (<) (filter (\<lambda>v. v \<in> set vs) rg)"
    using assms(1) by (rule sorted_wrt_filter)
qed (use assms in auto)

lemma sorted_last_ge: "sorted vs \<Longrightarrow> v \<in> set vs \<Longrightarrow> v \<le> last vs"
  by (cases vs rule: rev_cases) (auto simp: sorted_append)

subsection \<open>Bitmaps, least significant bit first\<close>

definition bit_at :: "byte list \<Rightarrow> nat \<Rightarrow> bool" where
  "bit_at bs i = bit (bs ! (i div 8)) (i mod 8)"

lemma shift_and_1: "drop_bit k b AND 1 = 1 \<longleftrightarrow> bit (b :: 'a::len word) k"
  by (simp add: and_one_eq bit_iff_odd_drop_bit mod_2_eq_odd)

lemma ceil_div8: "n mod 8 \<noteq> 0 \<Longrightarrow> (n + 7) div 8 = n div 8 + (1::nat)"
proof -
  assume "n mod 8 \<noteq> 0"
  then have "(n mod 8 + 7) div 8 = 1" by (intro div_nat_eqI) auto
  moreover have "n + 7 = (n mod 8 + 7) + n div 8 * 8" by simp
  ultimately show ?thesis by (metis add.commute div_mult_self1 zero_neq_numeral)
qed

lemma mod8_less: "i div 8 = n div 8 \<Longrightarrow> i < n \<Longrightarrow> i mod 8 < n mod (8::nat)"
  by (metis mult_div_mod_eq nat_add_left_cancel_less)

lemma eq_div_mod8: "i div 8 = b div 8 \<Longrightarrow> (i = b) = (i mod 8 = b mod (8::nat))"
  by (metis mult_div_mod_eq)

lemma bit_at_clear:
  assumes "b div 8 < length bs" "i div 8 < length bs"
  shows "bit_at (bs[b div 8 := (bs ! (b div 8)) AND NOT (2 ^ (b mod 8))]) i \<longleftrightarrow> i \<noteq> b \<and> bit_at bs i"
proof (cases "i div 8 = b div 8")
  case True
  then have "i = b \<longleftrightarrow> i mod 8 = b mod 8" by (rule eq_div_mod8)
  with True assms show ?thesis by (auto simp: bit_at_def bit_simps)
next
  case False
  then show ?thesis by (auto simp: bit_at_def)
qed

lemma bit_at_set:
  assumes "b div 8 < length bs" "i div 8 < length bs"
  shows "bit_at (bs[b div 8 := (bs ! (b div 8)) OR 2 ^ (b mod 8)]) i \<longleftrightarrow> i = b \<or> bit_at bs i"
proof (cases "i div 8 = b div 8")
  case True
  then have "i = b \<longleftrightarrow> i mod 8 = b mod 8" by (rule eq_div_mod8)
  with True assms show ?thesis by (auto simp: bit_at_def bit_simps)
next
  case False
  then show ?thesis by (auto simp: bit_at_def)
qed

lemma bit_test: "b AND push_bit k 1 \<noteq> 0 \<longleftrightarrow> bit (b :: byte) k"
  by (simp add: and_exp_eq_0_iff_not_bit push_bit_eq_mult)

lemma div8_less: "i < n \<Longrightarrow> i div 8 < (n + 7) div (8::nat)"
  by arith

subsection \<open>Self-delimiting codecs\<close>

text \<open>
  The contract of every integer writer and reader of the code: the reader finds what the
  writer wrote at the front of the buffer, returns the rest, and always consumes something.
  \<open>ok\<close> is the range of values the writer is given.
\<close>

locale prefix_codec =
  fixes enc :: "'a \<Rightarrow> byte list"
    and dec :: "byte list \<Rightarrow> ('a \<times> byte list) option"
    and ok :: "'a \<Rightarrow> bool"
  assumes dec_enc: "ok x \<Longrightarrow> dec (enc x @ rest) = Some (x, rest)"
    and dec_consumes: "dec bs = Some (x, rest) \<Longrightarrow> length rest < length bs"
begin

lemma enc_nonempty: "ok x \<Longrightarrow> enc x \<noteq> []"
  using dec_enc [of x "[]"] dec_consumes [of "enc x" x "[]"] by auto

lemma enc_prefix_free: "ok x \<Longrightarrow> ok y \<Longrightarrow> enc x @ r = enc y @ s \<Longrightarrow> x = y \<and> r = s"
  by (metis dec_enc option.inject prod.inject)

text \<open>Reading \<open>n\<close> values in a row.\<close>

primrec dec_many :: "nat \<Rightarrow> byte list \<Rightarrow> ('a list \<times> byte list) option" where
  "dec_many 0 bs = Some ([], bs)"
| "dec_many (Suc n) bs =
     (case dec bs of None \<Rightarrow> None
      | Some (x, r) \<Rightarrow> (case dec_many n r of None \<Rightarrow> None | Some (xs, r') \<Rightarrow> Some (x # xs, r')))"

lemma dec_many_enc:
  "\<forall>x \<in> set xs. ok x \<Longrightarrow> dec_many (length xs) (concat (map enc xs) @ rest) = Some (xs, rest)"
  by (induction xs) (auto simp: dec_enc)

lemma dec_many_consumes:
  "dec_many n bs = Some (xs, rest) \<Longrightarrow> length xs = n \<and> n + length rest \<le> length bs"
proof (induction n arbitrary: bs xs)
  case (Suc n)
  then obtain x r xs' where "dec bs = Some (x, r)" "dec_many n r = Some (xs', rest)" "xs = x # xs'"
    by (auto split: option.splits)
  with Suc.IH [of r xs'] dec_consumes [of bs x r] show ?case by simp
qed simp

end

end
