(* ===== verification/Proto_Wire.thy ===== *)
theory Proto_Wire
  imports Prelude
begin

text \<open>
  The protobuf wire format of \<open>src/src/base/proto_wire.hpp\<close>: the writers \<open>put_varint\<close>,
  \<open>put_key\<close>, \<open>put_bytes_field\<close> and \<open>put_u64_field\<close>, and the \<open>Reader\<close> that iterates the fields
  of one message.

  A \<open>Reader\<close> is the bytes it has left. \<open>reader_next\<close> takes the caller's \<open>Field\<close> as well,
  because the C++ reader fills in a \<open>Field\<close> that callers reuse: a varint field leaves the
  data of the field before it in place.
\<close>

subsection \<open>Writers\<close>

function put_varint :: "u64 \<Rightarrow> byte list" where
  "put_varint v =
     (if v \<ge> 0x80 then ucast (v OR 0x80) # put_varint (drop_bit 7 v) else [ucast v])"
  by pat_completeness auto
termination
  by (relation "measure unat") (auto simp: word_le_nat_alt intro!: shr_less)

declare put_varint.simps [simp del]

definition put_key :: "u32 \<Rightarrow> u32 \<Rightarrow> byte list" where
  "put_key field wire = put_varint (push_bit 3 (ucast field) OR ucast wire)"

definition put_bytes_field :: "u32 \<Rightarrow> byte list \<Rightarrow> byte list" where
  "put_bytes_field field bytes = put_key field 2 @ put_varint (of_nat (length bytes)) @ bytes"

definition put_u64_field :: "u32 \<Rightarrow> u64 \<Rightarrow> byte list" where
  "put_u64_field field v = (if v = 0 then [] else put_key field 0 @ put_varint v)"

subsection \<open>Reader\<close>

text \<open>\<open>Reader::varint\<close>: at most ten bytes; the loop's \<open>shift\<close> and \<open>out\<close> are arguments.\<close>

fun varint :: "nat \<Rightarrow> u64 \<Rightarrow> byte list \<Rightarrow> (u64 \<times> byte list) option" where
  "varint shift out [] = None"
| "varint shift out (b # rest) =
     (if shift < 70 then
        let out' = out OR push_bit shift (ucast (b AND 0x7F)) in
        if b AND 0x80 = 0 then Some (out', rest) else varint (shift + 7) out' rest
      else None)"

record field =
  f_number :: u32
  f_wire :: u32
  f_value :: u64
  f_data :: "byte list option"
  f_raw :: "byte list"

definition empty_field :: field where
  "empty_field = \<lparr>f_number = 0, f_wire = 0, f_value = 0, f_data = None, f_raw = []\<rparr>"

datatype next_result = Next field "byte list" | AtEnd | Malformed

text \<open>Taking \<open>n\<close> bytes as the field's data, or failing when fewer are left.\<close>

definition take_data :: "field \<Rightarrow> byte list \<Rightarrow> nat \<Rightarrow> byte list \<Rightarrow> next_result" where
  "take_data f bs n r =
     (if length r < n then Malformed
      else Next (f\<lparr>f_data := Some (take n r), f_raw := take (length bs - length (drop n r)) bs\<rparr>)
                (drop n r))"

definition reader_next :: "field \<Rightarrow> byte list \<Rightarrow> next_result" where
  "reader_next f bs =
     (if bs = [] then AtEnd
      else case varint 0 0 bs of
        None \<Rightarrow> Malformed
      | Some (key, r) \<Rightarrow>
          let wire = ucast (key AND 7);
              g = f\<lparr>f_number := ucast (drop_bit 3 key), f_wire := wire\<rparr>
          in if wire = 0 then
               (case varint 0 0 r of
                  None \<Rightarrow> Malformed
                | Some (v, r') \<Rightarrow> Next (g\<lparr>f_value := v, f_raw := take (length bs - length r') bs\<rparr>) r')
             else if wire = 1 then take_data g bs 8 r
             else if wire = 2 then
               (case varint 0 0 r of
                  None \<Rightarrow> Malformed
                | Some (n, r') \<Rightarrow> take_data g bs (unat n) r')
             else if wire = 5 then take_data g bs 4 r
             else Malformed)"

subsection \<open>Varints\<close>

lemma and_0x7F: "(b :: byte) AND 0x7F = take_bit 7 b"
  by (simp add: take_bit_eq_mask mask_eq_exp_minus_1)

lemma and_0x80: "(b :: byte) AND 0x80 = 0 \<longleftrightarrow> \<not> bit b 7"
  by (simp add: bit_iff_and_push_bit_not_eq_0)

lemma or_0x80: "(v :: u64) OR 0x80 = set_bit 7 v"
  by (simp add: set_bit_eq_or)

lemma varint_put_varint_gen:
  "shift < 64 \<Longrightarrow> unat v < 2 ^ (64 - shift) \<Longrightarrow>
   varint shift acc (put_varint v @ rest) = Some (acc OR push_bit shift v, rest)"
proof (induction v arbitrary: shift acc rule: put_varint.induct)
  case (1 v)
  show ?case
  proof (cases "v \<ge> 0x80")
    case True
    have "(2::nat) ^ 7 \<le> unat v"
      using True by (simp add: word_le_nat_alt)
    with "1.prems" have "(2::nat) ^ 7 < 2 ^ (64 - shift)" by linarith
    then have s: "7 < 64 - shift"
      by (rule power_less_imp_less_exp [rotated]) simp
    then have "64 - shift = 7 + (64 - (shift + 7))" by simp
    with "1.prems" have "unat v < 2 ^ 7 * 2 ^ (64 - (shift + 7))"
      by (metis power_add)
    then have small: "unat (drop_bit 7 v) < 2 ^ (64 - (shift + 7))"
      by (simp add: unat_shr less_mult_imp_div_less mult.commute)
    have IH: "varint (shift + 7) acc' (put_varint (drop_bit 7 v) @ rest) =
        Some (acc' OR push_bit (shift + 7) (drop_bit 7 v), rest)" for acc'
      using "1.IH" [OF True, of "shift + 7"] s small by simp
    have more: "bit (ucast (set_bit 7 v) :: byte) 7"
      by (simp add: bit_simps)
    have low: "ucast (take_bit 7 (ucast (set_bit 7 v) :: byte)) OR push_bit 7 (drop_bit 7 v) = v"
      by (rule or_push_drop) (auto simp: bit_simps)
    let ?low = "ucast (take_bit 7 (ucast (set_bit 7 v) :: byte)) :: u64"
    have "varint shift acc (put_varint v @ rest) =
        varint (shift + 7) (acc OR push_bit shift ?low) (put_varint (drop_bit 7 v) @ rest)"
      using True s more \<open>shift < 64\<close> by (subst put_varint.simps) (simp add: and_0x7F and_0x80 or_0x80)
    also have "\<dots> = Some (acc OR push_bit shift (?low OR push_bit 7 (drop_bit 7 v)), rest)"
      by (simp only: IH push_bit_or push_bit_push_bit or.assoc)
    finally show ?thesis by (simp only: low)
  next
    case False
    then have "unat v < 2 ^ 7" by (simp add: word_le_nat_alt)
    then have bits: "bit v k \<Longrightarrow> k < 7" for k
      using bit_above_unat not_le by blast
    have "\<not> bit (ucast v :: byte) 7"
      using bits [of 7] by (auto simp: bit_simps)
    moreover have "ucast (take_bit 7 (ucast v :: byte)) = v"
    proof (rule bit_word_eqI)
      fix k show "bit (ucast (take_bit 7 (ucast v :: byte)) :: u64) k = bit v k"
        using bits [of k] bit_imp_le_length [of v k] by (auto simp: bit_simps)
    qed
    ultimately show ?thesis using False "1.prems"
      by (subst put_varint.simps) (simp add: and_0x7F and_0x80 Let_def)
  qed
qed

lemma varint_put_varint [simp, codec_simps]: "varint 0 0 (put_varint v @ rest) = Some (v, rest)"
  using varint_put_varint_gen [of 0 v 0 rest] unsigned_less [of v] by simp

lemma varint_suffix:
  "varint shift acc bs = Some (v, r) \<Longrightarrow>
     \<exists>p. bs = p @ r \<and> p \<noteq> [] \<and> (\<forall>r'. varint shift acc (p @ r') = Some (v, r'))"
proof (induction shift acc bs rule: varint.induct)
  case (2 shift acc b rest)
  show ?case
  proof (cases "b AND 0x80 = 0")
    case True
    with "2.prems" show ?thesis
      by (intro exI [of _ "[b]"]) (auto simp: Let_def split: if_splits)
  next
    case False
    with "2.prems" have s: "shift < 70"
      and rec: "varint (shift + 7) (acc OR push_bit shift (ucast (b AND 0x7F))) rest = Some (v, r)"
      by (auto simp: Let_def split: if_splits)
    from "2.IH" [OF s refl False rec] obtain p where
      "rest = p @ r" "\<forall>r'. varint (shift + 7) (acc OR push_bit shift (ucast (b AND 0x7F))) (p @ r') = Some (v, r')"
      by blast
    with s False show ?thesis by (intro exI [of _ "b # p"]) (auto simp: Let_def)
  qed
qed simp

lemma varint_shorter: "varint shift acc bs = Some (v, r) \<Longrightarrow> length r < length bs"
  by (drule varint_suffix) auto

interpretation pw: prefix_codec put_varint "varint 0 0" "\<lambda>_. True"
  by unfold_locales (auto dest: varint_shorter)

lemma put_varint_nonempty [simp]: "put_varint v \<noteq> []"
  by (rule pw.enc_nonempty) simp

subsection \<open>One step of the reader\<close>

lemma length_put_varint_gen: "unat v < 2 ^ (7 * Suc n) \<Longrightarrow> length (put_varint v) \<le> Suc n"
proof (induction n arbitrary: v)
  case 0
  then have "\<not> v \<ge> 0x80" by (simp add: word_le_nat_alt)
  then show ?case by (simp add: put_varint.simps [of v])
next
  case (Suc n)
  then have "unat v < 2 ^ 7 * 2 ^ (7 * Suc n)" by (metis mult_Suc_right power_add)
  then have "length (put_varint (drop_bit 7 v)) \<le> Suc n"
    by (intro Suc.IH) (simp add: unat_shr less_mult_imp_div_less mult.commute)
  then show ?case by (simp add: put_varint.simps [of v])
qed

lemma length_put_varint: "length (put_varint v) \<le> 10"
proof -
  have "unat v < 2 ^ 64" using unsigned_less [of v] by simp
  also have "(2::nat) ^ 64 \<le> 2 ^ (7 * Suc 9)" by simp
  finally show ?thesis using length_put_varint_gen [of v 9] by simp
qed

lemma length_put_u64_field: "length (put_u64_field n v) \<le> 20"
  using length_put_varint [of v] length_put_varint
  by (auto simp: put_u64_field_def put_key_def intro: add_le_mono [of _ 10 _ 10, simplified])

lemma length_put_bytes_field: "length (put_bytes_field n b) \<le> 20 + length b"
proof -
  have "length (put_key n 2) \<le> 10" by (simp add: put_key_def length_put_varint)
  with length_put_varint [of "of_nat (length b)"] show ?thesis
    by (simp add: put_bytes_field_def)
qed

lemma key_parts:
  fixes field wire :: u32
  assumes "wire < 8"
  defines "key \<equiv> push_bit 3 (ucast field) OR ucast wire :: u64"
  shows "ucast (drop_bit 3 key) = field" and "ucast (key AND 7) = wire"
proof -
  have w: "unat wire < 2 ^ 3" using assms(1) by (simp add: word_less_nat_alt)
  have bits: "bit wire k \<Longrightarrow> k < 3" for k
    using bit_above_unat [OF w] not_le by blast
  show "ucast (drop_bit 3 key) = field"
    unfolding key_def by (rule bit_word_eqI) (auto simp: bit_simps dest: bits)
  have "key AND 7 = take_bit 3 key"
    by (simp add: take_bit_eq_mask mask_eq_exp_minus_1)
  then show "ucast (key AND 7) = wire"
    unfolding key_def by (auto intro!: bit_word_eqI simp: bit_simps dest: bits)
qed

lemma reader_next_Nil [simp]: "reader_next f [] = AtEnd"
  by (simp add: reader_next_def)

lemma reader_next_bytes [codec_simps]:
  assumes "length bytes < 2 ^ 64"
  shows "reader_next f (put_bytes_field n bytes @ rest) =
    Next (f\<lparr>f_number := n, f_wire := 2, f_data := Some bytes, f_raw := put_bytes_field n bytes\<rparr>) rest"
proof -
  have "unat (of_nat (length bytes) :: u64) = length bytes"
    using assms by (simp add: unat_of_nat_small)
  then show ?thesis
    using key_parts [of 2 n]
    by (simp add: reader_next_def put_bytes_field_def put_key_def take_data_def Let_def)
qed

lemma reader_next_u64 [codec_simps]:
  assumes "v \<noteq> 0"
  shows "reader_next f (put_u64_field n v @ rest) =
    Next (f\<lparr>f_number := n, f_wire := 0, f_value := v, f_raw := put_u64_field n v\<rparr>) rest"
  using assms key_parts [of 0 n]
  by (simp add: reader_next_def put_u64_field_def put_key_def Let_def)

text \<open>A varint field written whatever its value, zero included.\<close>

lemma reader_next_varint [codec_simps]:
  "reader_next f (put_key n 0 @ put_varint v @ rest) =
    Next (f\<lparr>f_number := n, f_wire := 0, f_value := v, f_raw := put_key n 0 @ put_varint v\<rparr>) rest"
  using key_parts [of 0 n] by (simp add: reader_next_def put_key_def Let_def)

lemma take_data_Next:
  "take_data f bs n r = Next g r' \<Longrightarrow>
     n \<le> length r \<and> r' = drop n r \<and>
     g = f\<lparr>f_data := Some (take n r), f_raw := take (length bs - length (drop n r)) bs\<rparr>"
  by (auto simp: take_data_def split: if_splits)

text \<open>
  A step consumes exactly the bytes it reports as the field, and reading those bytes again,
  in front of anything else, gives the same field (up to what a previous field left behind).
\<close>

definition same_field :: "field \<Rightarrow> field \<Rightarrow> bool" where
  "same_field f g \<longleftrightarrow> f_number f = f_number g \<and> f_wire f = f_wire g \<and> f_raw f = f_raw g \<and>
     (if f_wire g = 0 then f_value f = f_value g else f_data f = f_data g)"

lemma take_data_reread:
  assumes "take_data f bs n s = Next g r" and "bs = p @ s" and "f_wire f \<noteq> 0"
  obtains q where "s = q @ r" and "f_raw g = p @ q"
    and "\<And>h t. f_number h = f_number f \<Longrightarrow> f_wire h = f_wire f \<Longrightarrow>
      \<exists>g'. take_data h (p @ q @ t) n (q @ t) = Next g' t \<and> same_field g' g"
  using assms
  by (intro that [of "take n s"]) (auto simp: take_data_def same_field_def split: if_splits)

lemma reader_next_consumes_reread:
  assumes "reader_next f bs = Next g r"
  obtains "bs = f_raw g @ r" and "f_raw g \<noteq> []"
    and "\<And>f' t. \<exists>g'. reader_next f' (f_raw g @ t) = Next g' t \<and> same_field g' g"
proof -
  from assms obtain key s where key: "varint 0 0 bs = Some (key, s)"
    by (auto simp: reader_next_def split: if_splits option.splits)
  obtain p where p: "bs = p @ s" "p \<noteq> []" and again: "\<And>t. varint 0 0 (p @ t) = Some (key, t)"
    using varint_suffix [OF key] by blast
  let ?wire = "ucast (key AND 7) :: u32"
  let ?g = "\<lambda>f. f\<lparr>f_number := ucast (drop_bit 3 key), f_wire := ?wire\<rparr> :: field"
  note step = reader_next_def Let_def key again p(2)
  consider "?wire = 0" | "?wire \<noteq> 0" by blast
  then show ?thesis
  proof cases
    case 1
    then obtain v where v: "varint 0 0 s = Some (v, r)"
      and g: "g = (?g f)\<lparr>f_value := v, f_raw := take (length bs - length r) bs\<rparr>"
      using assms p by (auto simp: step split: option.splits)
    obtain q where q: "s = q @ r" "\<And>t. varint 0 0 (q @ t) = Some (v, t)"
      using varint_suffix [OF v] by blast
    with p 1 show ?thesis by (intro that) (auto simp: g step same_field_def)
  next
    case 2
    then obtain n u s' where body: "take_data (?g f) bs n s' = Next g r" and u: "s = u @ s'"
      and bytes: "\<And>f' t. reader_next f' (p @ u @ t) = take_data (?g f') (p @ u @ t) n t"
    proof -
      consider "?wire = 1" | "?wire = 2" | "?wire = 5"
        using assms 2 p by (auto simp: step split: if_splits)
      then show ?thesis
      proof cases
        case 1
        then show ?thesis using assms p by (intro that [of 8 s "[]"]) (auto simp: step)
      next
        case 2
        then obtain n s' where n: "varint 0 0 s = Some (n, s')" and "take_data (?g f) bs (unat n) s' = Next g r"
          using assms p by (auto simp: step split: option.splits)
        moreover obtain u where "s = u @ s'" "\<And>t. varint 0 0 (u @ t) = Some (n, t)"
          using varint_suffix [OF n] by blast
        ultimately show ?thesis using p 2 by (intro that [of "unat n" s' u]) (auto simp: step)
      next
        case 3
        then show ?thesis using assms p by (intro that [of 4 s "[]"]) (auto simp: step)
      qed
    qed
    obtain q where q: "s' = q @ r" "f_raw g = (p @ u) @ q"
      "\<And>h t. f_number h = f_number (?g f) \<Longrightarrow> f_wire h = f_wire (?g f) \<Longrightarrow>
         \<exists>g'. take_data h ((p @ u) @ q @ t) n (q @ t) = Next g' t \<and> same_field g' g"
      by (rule take_data_reread [OF body, of "p @ u"]) (use p u 2 in auto)
    show ?thesis
    proof (rule that)
      show "bs = f_raw g @ r" "f_raw g \<noteq> []" using p u q by auto
      fix f' t show "\<exists>g'. reader_next f' (f_raw g @ t) = Next g' t \<and> same_field g' g"
        using bytes [of f' "q @ t"] q(2) q(3) [of "?g f'" t] by simp
    qed
  qed
qed

lemma reader_next_consumes: "reader_next f bs = Next g r \<Longrightarrow> bs = f_raw g @ r \<and> f_raw g \<noteq> []"
  by (erule reader_next_consumes_reread) auto

lemma reader_next_AtEnd: "reader_next f bs = AtEnd \<Longrightarrow> bs = []"
  by (auto simp: reader_next_def Let_def take_data_def split: if_splits option.splits)

subsection \<open>Iterating a message\<close>

text \<open>
  \<open>while (r.next(f)) ...\<close>: the values \<open>f\<close> takes, in order, and whether the loop ended at the
  end of the message (\<open>ok()\<close>) or at a malformed field. A body that returns early only sees
  a prefix of the list. The loop is over any \<open>next\<close>, because the fragment reuse index has a
  reader of its own; the test on the lengths always holds for both readers
  (\<open>next_shrinks\<close> below) and only makes the recursion well founded.
\<close>

function read_fields ::
  "(field \<Rightarrow> byte list \<Rightarrow> next_result) \<Rightarrow> field \<Rightarrow> byte list \<Rightarrow> field list \<times> bool" where
  "read_fields next f bs =
     (case next f bs of
        AtEnd \<Rightarrow> ([], True)
      | Malformed \<Rightarrow> ([], False)
      | Next g r \<Rightarrow>
          if length r < length bs then apfst (Cons g) (read_fields next g r) else ([], False))"
  by pat_completeness auto
termination
  by (relation "measure (\<lambda>(_, _, bs). length bs)") auto

declare read_fields.simps [simp del]

text \<open>What the decoders rely on, whichever reader they use.\<close>

locale field_reader =
  fixes "next" :: "field \<Rightarrow> byte list \<Rightarrow> next_result"
    and bytes_field :: "field \<Rightarrow> u32 \<Rightarrow> byte list \<Rightarrow> field"
    and u64_field :: "field \<Rightarrow> u32 \<Rightarrow> u64 \<Rightarrow> field"
  assumes next_Nil: "next f [] = AtEnd"
    and next_shrinks: "next f bs = Next g r \<Longrightarrow> length r < length bs"
    and next_bytes: "length b < 2 ^ 64 \<Longrightarrow>
      next f (put_bytes_field n b @ rest) = Next (bytes_field f n b) rest"
    and next_u64: "v \<noteq> 0 \<Longrightarrow> next f (put_u64_field n v @ rest) = Next (u64_field f n v) rest"
begin

lemma read_fields_unfold:
  "read_fields next f bs =
     (case next f bs of AtEnd \<Rightarrow> ([], True) | Malformed \<Rightarrow> ([], False)
      | Next g r \<Rightarrow> apfst (Cons g) (read_fields next g r))"
  by (subst read_fields.simps) (auto split: next_result.splits dest: next_shrinks)

lemma fields_Nil: "read_fields next f [] = ([], True)"
  by (simp add: read_fields.simps [of "next" f "[]"] next_Nil)

lemma fields_bytes:
  "length b < 2 ^ 64 \<Longrightarrow> read_fields next f (put_bytes_field n b @ rest) =
     apfst (Cons (bytes_field f n b)) (read_fields next (bytes_field f n b) rest)"
  by (simp add: read_fields_unfold [of f "put_bytes_field n b @ rest"] next_bytes)

lemma fields_bytes_last:
  "length b < 2 ^ 64 \<Longrightarrow> read_fields next f (put_bytes_field n b) = ([bytes_field f n b], True)"
  using fields_bytes [of b f n "[]"] by (simp add: fields_Nil)

lemma fields_u64:
  "read_fields next f (put_u64_field n v @ rest) =
     (if v = 0 then read_fields next f rest
      else apfst (Cons (u64_field f n v)) (read_fields next (u64_field f n v) rest))"
proof (cases "v = 0")
  case True
  then show ?thesis by (simp add: put_u64_field_def)
next
  case False
  then show ?thesis
    by (simp add: read_fields_unfold [of f "put_u64_field n v @ rest"] next_u64)
qed

lemma fields_u64_last:
  "read_fields next f (put_u64_field n v) = (if v = 0 then [] else [u64_field f n v], True)"
  using fields_u64 [of f n v "[]"] by (simp add: fields_Nil)

lemmas fields_simps = fields_Nil fields_bytes fields_bytes_last fields_u64 fields_u64_last

text \<open>A repeated length-delimited field.\<close>

lemma fields_repeated:
  assumes "\<forall>b \<in> set bs. length b < 2 ^ 64"
  shows "\<exists>gs h. read_fields next f (concat (map (put_bytes_field n) bs) @ rest) =
      apfst ((@) gs) (read_fields next h rest) \<and> (bs = [] \<longrightarrow> h = f) \<and>
      list_all2 (\<lambda>g b. \<exists>f. g = bytes_field f n b) gs bs"
  using assms
proof (induction bs arbitrary: f)
  case Nil
  show ?case
    by (intro exI [of _ "[]"] exI [of _ f]) (cases "read_fields next f rest", simp)
next
  case (Cons b bs)
  then obtain gs h where
    "read_fields next (bytes_field f n b) (concat (map (put_bytes_field n) bs) @ rest) =
       apfst ((@) gs) (read_fields next h rest)"
    "list_all2 (\<lambda>g b. \<exists>f. g = bytes_field f n b) gs bs"
    by fastforce
  with Cons.prems show ?case
    by (intro exI [of _ "bytes_field f n b # gs"] exI [of _ h])
      (auto simp: fields_bytes apfst_def map_prod_def split: prod.splits)
qed

end

interpretation pr: field_reader reader_next
  "\<lambda>f n b. f\<lparr>f_number := n, f_wire := 2, f_data := Some b, f_raw := put_bytes_field n b\<rparr>"
  "\<lambda>f n v. f\<lparr>f_number := n, f_wire := 0, f_value := v, f_raw := put_u64_field n v\<rparr>"
proof
  fix f bs g r
  assume "reader_next f bs = Next g r"
  then show "length r < length bs"
    by (auto dest: reader_next_consumes)
qed (simp_all add: reader_next_bytes reader_next_u64)

lemmas [codec_simps] = pr.fields_simps

text \<open>The fields of a message are its bytes in order, all of them when it ends cleanly.\<close>

lemma read_fields_raw:
  "read_fields reader_next f bs = (fs, ok) \<Longrightarrow>
     \<exists>r. bs = concat (map f_raw fs) @ r \<and> (ok \<longrightarrow> r = [])"
proof (induction bs arbitrary: f fs rule: length_induct)
  case (1 bs)
  show ?case
  proof (cases "reader_next f bs")
    case (Next g r)
    then obtain fs' where "fs = g # fs'" and rec: "read_fields reader_next g r = (fs', ok)"
      using "1.prems" by (auto simp: pr.read_fields_unfold [of f bs] apfst_def map_prod_def split: prod.splits)
    moreover obtain r' where "r = concat (map f_raw fs') @ r'" "ok \<longrightarrow> r' = []"
      using "1.IH" rec Next by (meson pr.next_shrinks)
    ultimately show ?thesis using reader_next_consumes [OF Next] by auto
  next
    case AtEnd
    then show ?thesis using "1.prems" reader_next_AtEnd [OF AtEnd]
      by (simp add: pr.fields_Nil)
  next
    case Malformed
    then show ?thesis using "1.prems" by (simp add: pr.read_fields_unfold [of f bs])
  qed
qed

subsection \<open>Copying fields from one message to another\<close>

text \<open>A field whose bytes read back as itself in any message.\<close>

definition readable :: "field \<Rightarrow> bool" where
  "readable g \<longleftrightarrow> f_raw g \<noteq> [] \<and>
     (\<forall>f t. \<exists>g'. reader_next f (f_raw g @ t) = Next g' t \<and> same_field g' g)"

lemma read_fields_readable: "g \<in> set (fst (read_fields reader_next f bs)) \<Longrightarrow> readable g"
proof (induction bs arbitrary: f rule: length_induct)
  case (1 bs)
  show ?case
  proof (cases "reader_next f bs")
    case (Next h r)
    have "readable h"
      by (rule reader_next_consumes_reread [OF Next]) (auto simp: readable_def)
    moreover have "g = h \<or> g \<in> set (fst (read_fields reader_next h r))"
      using "1.prems" Next by (auto simp: pr.read_fields_unfold [of f bs])
    ultimately show ?thesis using "1.IH" pr.next_shrinks [OF Next] by blast
  qed (use "1.prems" in \<open>auto simp: pr.read_fields_unfold [of f bs]\<close>)
qed

lemma readable_bytes:
  "length b < 2 ^ 64 \<Longrightarrow> readable (f\<lparr>f_number := n, f_wire := 2, f_data := Some b, f_raw := put_bytes_field n b\<rparr>)"
proof -
  have "put_bytes_field n b \<noteq> []" by (simp add: put_bytes_field_def put_key_def)
  then show "length b < 2 ^ 64 \<Longrightarrow> ?thesis"
    by (auto simp: readable_def reader_next_bytes same_field_def)
qed

text \<open>A message made of readable fields reads as those fields.\<close>

lemma read_fields_copied:
  assumes "\<forall>g \<in> set gs. readable g"
  shows "\<exists>gs' h. read_fields reader_next f (concat (map f_raw gs) @ t) =
      apfst ((@) gs') (read_fields reader_next h t) \<and> list_all2 same_field gs' gs"
  using assms
proof (induction gs arbitrary: f)
  case Nil
  show ?case
    by (intro exI [of _ "[]"] exI [of _ f]) (cases "read_fields reader_next f t", simp)
next
  case (Cons g gs)
  then obtain g' where g': "reader_next f (f_raw g @ concat (map f_raw gs) @ t) = Next g' (concat (map f_raw gs) @ t)"
    "same_field g' g"
    unfolding readable_def by (meson list.set_intros(1))
  from Cons obtain gs' h where
    "read_fields reader_next g' (concat (map f_raw gs) @ t) = apfst ((@) gs') (read_fields reader_next h t)"
    "list_all2 same_field gs' gs"
    by fastforce
  with g' show ?case
    by (intro exI [of _ "g' # gs'"] exI [of _ h])
      (auto simp: pr.read_fields_unfold [of f "f_raw g @ _"] apfst_def map_prod_def split: prod.splits)
qed

lemma same_fields_raw: "list_all2 same_field gs hs \<Longrightarrow> map f_raw gs = map f_raw hs"
  by (induction rule: list_all2_induct) (simp_all add: same_field_def)

lemma same_fields_numbers: "list_all2 same_field gs hs \<Longrightarrow> map f_number gs = map f_number hs"
  by (induction rule: list_all2_induct) (simp_all add: same_field_def)

lemma same_fields_all:
  "list_all2 same_field gs hs \<Longrightarrow> (\<forall>g \<in> set gs. p (f_number g)) \<longleftrightarrow> (\<forall>h \<in> set hs. p (f_number h))"
  by (induction rule: list_all2_induct) (simp_all add: same_field_def)

text \<open>Dropping fields by number, as the code rewrites the bytes it carries along.\<close>

definition drop_fields :: "(u32 \<Rightarrow> bool) \<Rightarrow> byte list \<Rightarrow> byte list" where
  "drop_fields p bs =
     concat (map f_raw (filter (\<lambda>f. \<not> p (f_number f)) (fst (read_fields reader_next empty_field bs))))"

lemma read_drop_fields:
  "\<exists>gs h. read_fields reader_next f (drop_fields p bs @ t) = apfst ((@) gs) (read_fields reader_next h t) \<and>
     list_all2 same_field gs (filter (\<lambda>f. \<not> p (f_number f)) (fst (read_fields reader_next empty_field bs)))"
  unfolding drop_fields_def by (rule read_fields_copied) (auto intro: read_fields_readable)

lemma drop_fields_idem [simp]: "drop_fields p (drop_fields p bs) = drop_fields p bs"
proof -
  obtain gs h where gs: "read_fields reader_next empty_field (drop_fields p bs @ []) =
      apfst ((@) gs) (read_fields reader_next h [])"
    "list_all2 same_field gs (filter (\<lambda>f. \<not> p (f_number f)) (fst (read_fields reader_next empty_field bs)))"
    using read_drop_fields [of empty_field p bs "[]"] by blast
  then have "\<forall>g \<in> set gs. \<not> p (f_number g)"
    using same_fields_all [of gs _ "\<lambda>n. \<not> p n"] by simp
  then have "filter (\<lambda>f. \<not> p (f_number f)) gs = gs" by simp
  with gs same_fields_raw [OF gs(2)] show ?thesis
    unfolding drop_fields_def [of p "drop_fields p bs"]
    by (simp add: pr.fields_Nil) (simp add: drop_fields_def)
qed

end
