(* ===== verification/Row_Id_Codec.thy ===== *)
theory Row_Id_Codec
  imports Proto_Wire
begin

text \<open>
  Row id sequences of \<open>src/src/table/row_ids.cpp\<close>: the \<open>EncodedU64Array\<close> and \<open>U64Segment\<close>
  messages, \<open>RowIdSequence\<close> and \<open>RowVersionSequence\<close>, each with its encoder and decoder.
  Every loop over the fields of a message is a fold over \<open>read_fields\<close>; a decoder that
  appends to \<open>out\<close> takes the vector it appends to.
\<close>

subsection \<open>EncodedU64Array\<close>

definition data_of :: "field \<Rightarrow> byte list" where
  "data_of f = (case f_data f of None \<Rightarrow> [] | Some d \<Rightarrow> d)"

text \<open>The base and the offsets bytes of one array variant.\<close>

definition array_part :: "u64 \<times> byte list \<Rightarrow> field \<Rightarrow> u64 \<times> byte list" where
  "array_part = (\<lambda>(base, offsets) g.
     if f_number g = 1 \<and> f_wire g = 0 then (f_value g, offsets)
     else if f_number g = 2 \<and> f_wire g = 2 then (base, data_of g)
     else (base, offsets))"

definition array_width :: "u32 \<Rightarrow> nat" where
  "array_width number = (if number = 1 then 2 else if number = 2 then 4 else 8)"

definition array_elements :: "nat \<Rightarrow> byte list \<Rightarrow> u64 list" where
  "array_elements width offsets =
     map (\<lambda>i. le_word (take width (drop (i * width) offsets))) [0..<length offsets div width]"

definition push_element :: "u32 \<Rightarrow> u64 \<Rightarrow> u64 list \<Rightarrow> u64 \<Rightarrow> u64 list result" where
  "push_element number base out v =
     (if number = 3 then Inr (out @ [v])
      else if base > - 1 - v then Inl ''row id array base plus offset overflows''
      else Inr (out @ [base + v]))"

definition array_step :: "u64 list \<times> bool \<Rightarrow> field \<Rightarrow> (u64 list \<times> bool) result" where
  "array_step = (\<lambda>(out, seen) f.
     if f_wire f \<noteq> 2 \<or> f_number f < 1 \<or> f_number f > 3 then Inr (out, seen)
     else
       let (gs, ok) = read_fields reader_next empty_field (data_of f);
           (base, offsets) = foldl array_part (0, []) gs;
           width = array_width (f_number f)
       in if \<not> ok then Inl ''malformed row id array''
          else if length offsets mod width \<noteq> 0 then
            Inl ''row id array length is not a multiple of its element width''
          else sbind (sfold (push_element (f_number f) base) out (array_elements width offsets))
                 (\<lambda>out'. Inr (out', True)))"

definition decode_encoded_array :: "byte list \<Rightarrow> u64 list \<Rightarrow> u64 list result" where
  "decode_encoded_array bs out =
     (let (fs, ok) = read_fields reader_next empty_field bs in
      sbind (sfold array_step (out, False) fs) (\<lambda>(out', seen).
        if \<not> ok \<or> \<not> seen then Inl ''malformed row id array'' else Inr out'))"

definition list_min :: "u64 list \<Rightarrow> u64" where
  "list_min vs = (case vs of [] \<Rightarrow> 0 | v # ws \<Rightarrow> fold min ws v)"

definition list_max :: "u64 list \<Rightarrow> u64" where
  "list_max vs = (case vs of [] \<Rightarrow> 0 | v # ws \<Rightarrow> fold max ws v)"

definition encode_encoded_array :: "u64 list \<Rightarrow> byte list" where
  "encode_encoded_array vs =
     (let lo = list_min vs; hi = list_max vs in
      if vs = [] then put_bytes_field 3 (put_bytes_field 2 [])
      else if hi - lo \<le> 0xFFFF then
        put_bytes_field 1 (put_u64_field 1 lo @
          put_bytes_field 2 (concat (map (\<lambda>v. le_bytes 2 (ucast (v - lo) :: u16)) vs)))
      else if hi - lo \<le> 0xFFFFFFFF then
        put_bytes_field 2 (put_u64_field 1 lo @
          put_bytes_field 2 (concat (map (\<lambda>v. le_bytes 4 (ucast (v - lo) :: u32)) vs)))
      else put_bytes_field 3 (put_bytes_field 2 (concat (map (le_bytes 8) vs))))"

subsection \<open>U64Segment\<close>

text \<open>\<open>for (v = start; v < end; ++v)\<close>.\<close>

definition u64_range :: "u64 \<Rightarrow> u64 \<Rightarrow> u64 list" where
  "u64_range start end = (if end < start then [] else
     map (\<lambda>i. start + of_nat i) [0..<unat (end - start)])"

fun skip_holes :: "u64 list \<Rightarrow> u64 list \<Rightarrow> u64 list" where
  "skip_holes [] hs = []"
| "skip_holes (v # vs) [] = v # skip_holes vs []"
| "skip_holes (v # vs) (h # hs) = (if h = v then skip_holes vs hs else v # skip_holes vs (h # hs))"

definition set_bits :: "u64 \<Rightarrow> nat \<Rightarrow> byte list \<Rightarrow> u64 list" where
  "set_bits start span bitmap =
     map (\<lambda>i. start + of_nat i)
       (filter (\<lambda>i. drop_bit (i mod 8) (bitmap ! (i div 8)) AND 1 = 1) [0..<span])"

definition segment_part ::
  "u64 \<times> u64 \<times> byte list option \<Rightarrow> field \<Rightarrow> u64 \<times> u64 \<times> byte list option" where
  "segment_part = (\<lambda>(start, end, extra) g.
     if f_number g = 1 \<and> f_wire g = 0 then (f_value g, end, extra)
     else if f_number g = 2 \<and> f_wire g = 0 then (start, f_value g, extra)
     else if f_number g = 3 \<and> f_wire g = 2 then (start, end, f_data g)
     else (start, end, extra))"

definition decode_segment :: "byte list \<Rightarrow> u64 list \<Rightarrow> u64 list result" where
  "decode_segment bs out =
     (case reader_next empty_field bs of
        Next f _ \<Rightarrow>
          if f_wire f \<noteq> 2 then Inl ''missing row id segment type''
          else
            let (gs, ok) = read_fields reader_next empty_field (data_of f);
                (start, end, extra) = foldl segment_part (0, 0, None) gs;
                span = end - start
            in if \<not> ok then Inl ''malformed row id segment''
               else if f_number f = 1 \<or> f_number f = 2 \<or> f_number f = 3 then
                 if end < start then Inl ''row id segment range start exceeds end''
                 else if span > 2 ^ 40 then Inl ''row id segment range is too long''
                 else if f_number f = 1 then Inr (out @ u64_range start end)
                 else if f_number f = 2 then
                   (case extra of
                      None \<Rightarrow> Inl ''RangeWithHoles is missing its holes array''
                    | Some e \<Rightarrow> sbind (decode_encoded_array e [])
                        (\<lambda>holes. Inr (out @ skip_holes (u64_range start end) holes)))
                 else
                   (case extra of
                      None \<Rightarrow> Inl ''RangeWithBitmap bitmap is too short''
                    | Some e \<Rightarrow>
                        if length e < (unat span + 7) div 8 then Inl ''RangeWithBitmap bitmap is too short''
                        else Inr (out @ set_bits start (unat span) e))
               else if f_number f = 4 \<or> f_number f = 5 then decode_encoded_array (data_of f) out
               else Inl ''unknown row id segment type''
      | _ \<Rightarrow> Inl ''missing row id segment type'')"

definition segment_range :: "u64 \<Rightarrow> u64 \<Rightarrow> byte list" where
  "segment_range start end = put_bytes_field 1 (put_u64_field 1 start @ put_u64_field 2 end)"

text \<open>The pass that finds whether the values are sorted, their bounds and their count.\<close>

definition stats_step :: "bool \<times> u64 \<times> u64 \<times> u64 \<Rightarrow> u64 \<Rightarrow> bool \<times> u64 \<times> u64 \<times> u64" where
  "stats_step = (\<lambda>(asc, lo, hi, count) v.
     let count = count + 1; lo = min lo v; hi = max hi v in
     (asc \<and> \<not> (count > 1 \<and> v < hi), lo, hi, count))"

fun hole_values :: "u64 list \<Rightarrow> u64 list \<Rightarrow> u64 list" where
  "hole_values [] vs = []"
| "hole_values (v # rg) [] = v # hole_values rg []"
| "hole_values (v # rg) (x # vs) =
     (if x = v then hole_values rg vs else v # hole_values rg (x # vs))"

fun clear_holes :: "u64 \<Rightarrow> u64 list \<Rightarrow> u64 list \<Rightarrow> byte list \<Rightarrow> byte list" where
  "clear_holes lo [] vs bitmap = bitmap"
| "clear_holes lo (v # rg) vs bitmap =
     (if vs \<noteq> [] \<and> hd vs = v then clear_holes lo rg (tl vs) bitmap
      else let b = unat (v - lo) in
        clear_holes lo rg vs
          (bitmap[b div 8 := (bitmap ! (b div 8)) AND NOT (push_bit (b mod 8) 1)]))"

definition full_bitmap :: "nat \<Rightarrow> byte list" where
  "full_bitmap tot =
     (let bitmap = replicate ((tot + 7) div 8) 0xFF in
      if tot mod 8 \<noteq> 0 then
        bitmap[length bitmap - 1 := push_bit (tot mod 8) 1 - 1]
      else bitmap)"

definition encode_segment :: "u64 list \<Rightarrow> byte list" where
  "encode_segment vs =
     (let (asc, lo, hi, count) = foldl stats_step (True, - 1, 0, 0) vs in
      if count = 0 then segment_range 0 0
      else if \<not> asc then put_bytes_field 5 (encode_encoded_array vs)
      else if hi = - 1 then put_bytes_field 4 (encode_encoded_array vs)
      else
        let tot = hi - lo + 1; holes = tot - count in
        if holes = 0 then segment_range lo (hi + 1)
        else
          let holes_size = 24 + 4 * unat holes;
              bitmap_size = 24 + (unat tot + 7) div 8;
              array_size = 24 + 2 * unat count
          in if holes_size \<le> bitmap_size \<and> holes_size \<le> array_size then
               put_bytes_field 2 (put_u64_field 1 lo @ put_u64_field 2 (hi + 1) @
                 put_bytes_field 3 (encode_encoded_array (hole_values (u64_range lo (hi + 1)) vs)))
             else if bitmap_size \<le> array_size then
               put_bytes_field 3 (put_u64_field 1 lo @ put_u64_field 2 (hi + 1) @
                 put_bytes_field 3 (clear_holes lo (u64_range lo (hi + 1)) vs (full_bitmap (unat tot))))
             else put_bytes_field 4 (encode_encoded_array vs))"


lemma array_elements_concat:
  assumes "\<And>v. v \<in> set vs \<Longrightarrow> length (f v) = w" and "0 < w"
  shows "array_elements w (concat (map f vs)) = map (\<lambda>v. le_word (f v)) vs"
proof -
  have "length (concat (map f vs)) = length vs * w"
    using assms(1) by (rule length_concat_fixed)
  then have n: "length (concat (map f vs)) div w = length vs" using assms(2) by simp
  show ?thesis
    using nth_concat_fixed [of vs f w] assms
    by (auto simp: array_elements_def n intro!: nth_equalityI)
qed

lemma push_elements_plain: "sfold (push_element 3 base) out vs = Inr (out @ vs)"
  by (induction vs arbitrary: out) (auto simp: push_element_def)

lemma push_elements_base:
  assumes "number \<noteq> 3" and "\<And>v. v \<in> set vs \<Longrightarrow> unat base + unat v < 2 ^ 64"
  shows "sfold (push_element number base) out vs = Inr (out @ map ((+) base) vs)"
  using assms(2)
proof (induction vs arbitrary: out)
  case (Cons v vs)
  have "\<not> base > - 1 - v"
    using Cons.prems [of v] by (simp add: le_max_minus)
  with Cons assms(1) show ?case by (simp add: push_element_def)
qed simp


lemma list_min_le: "v \<in> set vs \<Longrightarrow> list_min vs \<le> v"
  by (cases vs) (auto simp: list_min_def simp flip: Min.set_eq_fold)

lemma list_max_ge: "v \<in> set vs \<Longrightarrow> v \<le> list_max vs"
  by (cases vs) (auto simp: list_max_def simp flip: Max.set_eq_fold)

lemma offset_small:
  assumes "v \<in> set vs" and "list_max vs - list_min vs \<le> b"
  shows "unat (v - list_min vs) \<le> unat b" and "unat (list_min vs) + unat (v - list_min vs) < 2 ^ 64"
proof -
  have le: "list_min vs \<le> v" "v \<le> list_max vs"
    using assms by (auto simp: list_min_le list_max_ge)
  then have "unat (v - list_min vs) = unat v - unat (list_min vs)"
    "unat (list_max vs - list_min vs) = unat (list_max vs) - unat (list_min vs)"
    by (auto intro!: unat_sub)
  with le assms(2) show "unat (v - list_min vs) \<le> unat b"
    "unat (list_min vs) + unat (v - list_min vs) < 2 ^ 64"
    using unsigned_less [of v] by (auto simp: word_le_nat_alt)
qed

lemma decode_array_variant:
  assumes "length (concat (map f vs)) < 2 ^ 63" "\<And>v. v \<in> set vs \<Longrightarrow> length (f v) = array_width number"
    and "number = 1 \<or> number = 2 \<or> number = 3"
    and push: "sfold (push_element number base) out (map (\<lambda>v. le_word (f v)) vs) = Inr (out @ vs)"
  shows "decode_encoded_array (put_bytes_field number (put_u64_field 1 base @
    put_bytes_field 2 (concat (map f vs)))) out = Inr (out @ vs)"
proof -
  let ?raw = "concat (map f vs)"
  let ?inner = "put_u64_field 1 base @ put_bytes_field 2 ?raw"
  have w: "0 < array_width number" by (simp add: array_width_def)
  have len: "length ?inner < 2 ^ 64"
    using length_put_u64_field [of 1 base] length_put_bytes_field [of 2 ?raw] assms(1) by simp
  have fields: "\<exists>gs. read_fields reader_next empty_field ?inner = (gs, True) \<and>
    foldl array_part (0, []) gs = (base, ?raw)"
    using assms(1) by (auto simp: codec_simps array_part_def data_of_def)
  have "length ?raw mod array_width number = 0"
    using length_concat_fixed [of vs f "array_width number"] assms(2) by simp
  then show ?thesis
    using fields assms(3) len push array_elements_concat [of vs f "array_width number"] assms(2) w
    by (auto simp: decode_encoded_array_def codec_simps array_step_def data_of_def)
qed

lemma decode_encode_encoded_array:
  assumes "length vs < 2 ^ 59"
  shows "decode_encoded_array (encode_encoded_array vs) out = Inr (out @ vs)"
proof -
  let ?lo = "list_min vs" and ?hi = "list_max vs"
  consider (empty) "vs = []" | (u16) "vs \<noteq> []" "?hi - ?lo \<le> 0xFFFF"
    | (u32) "vs \<noteq> []" "\<not> ?hi - ?lo \<le> 0xFFFF" "?hi - ?lo \<le> 0xFFFFFFFF"
    | (u64) "vs \<noteq> []" "\<not> ?hi - ?lo \<le> 0xFFFF" "\<not> ?hi - ?lo \<le> 0xFFFFFFFF"
    by blast
  then show ?thesis
  proof cases
    case empty
    then show ?thesis
      using decode_array_variant [of "le_bytes 8" "[]" 3 0 out]
      by (simp add: encode_encoded_array_def put_u64_field_def array_width_def Let_def)
  next
    case u16
    let ?f = "\<lambda>v. le_bytes 2 (ucast (v - ?lo) :: u16)"
    have "le_word (?f v) = v - ?lo" if "v \<in> set vs" for v
      using offset_small(1) [OF that u16(2)] by (simp add: ucast_ucast_small)
    then have "sfold (push_element 1 ?lo) out (map (\<lambda>v. le_word (?f v)) vs) = Inr (out @ vs)"
      using offset_small(2) [OF _ u16(2)]
      by (subst push_elements_base) (auto cong: map_cong)
    with u16 assms show ?thesis
      using decode_array_variant [of ?f vs 1 ?lo out] length_concat_fixed [of vs ?f 2]
      by (simp add: encode_encoded_array_def array_width_def Let_def)
  next
    case u32
    let ?f = "\<lambda>v. le_bytes 4 (ucast (v - ?lo) :: u32)"
    have "le_word (?f v) = v - ?lo" if "v \<in> set vs" for v
      using offset_small(1) [OF that u32(3)] by (simp add: ucast_ucast_small)
    then have "sfold (push_element 2 ?lo) out (map (\<lambda>v. le_word (?f v)) vs) = Inr (out @ vs)"
      using offset_small(2) [OF _ u32(3)]
      by (subst push_elements_base) (auto cong: map_cong)
    with u32 assms show ?thesis
      using decode_array_variant [of ?f vs 2 ?lo out] length_concat_fixed [of vs ?f 4]
      by (simp add: encode_encoded_array_def array_width_def Let_def)
  next
    case u64
    with assms show ?thesis
      using decode_array_variant [of "le_bytes 8" vs 3 0 out] length_concat_fixed [of vs "le_bytes 8" 8]
      by (simp add: encode_encoded_array_def array_width_def Let_def put_u64_field_def push_elements_plain)
  qed
qed


subsection \<open>Ranges and their holes\<close>

lemma map_unat_u64_range: "start \<le> end \<Longrightarrow> map unat (u64_range start end) = [unat start..<unat end]"
proof -
  assume le: "start \<le> end"
  then have d: "unat (end - start) = unat end - unat start" by (rule unat_sub)
  have le': "unat start \<le> unat end" using le by (simp add: word_le_nat_alt)
  have "unat (start + of_nat i) = unat start + i" if "i < unat end - unat start" for i
  proof -
    have "unat start + i < 2 ^ 64" using that le' unat_u64 [of "end"] by linarith
    then show ?thesis by (simp add: unat_word_ariths unat_of_nat)
  qed
  with le le' show ?thesis
    by (auto simp: u64_range_def d intro!: nth_equalityI)
qed

lemma sorted_u64_range [simp]: "sorted_wrt (<) (u64_range start end)"
proof (cases "start \<le> end")
  case True
  then have "sorted_wrt (<) (map unat (u64_range start end))"
    by (simp add: map_unat_u64_range)
  then show ?thesis by (simp only: sorted_unat)
qed (simp add: u64_range_def)

lemma set_u64_range: "start \<le> end \<Longrightarrow> v \<in> set (u64_range start end) \<longleftrightarrow> start \<le> v \<and> v < end"
proof -
  assume le: "start \<le> end"
  have "v \<in> set (u64_range start end) \<longleftrightarrow> unat v \<in> set (map unat (u64_range start end))"
    by auto
  then show ?thesis
    by (simp only: map_unat_u64_range [OF le] set_upt) (auto simp: word_le_nat_alt word_less_nat_alt)
qed

lemma skip_holes_eq: "skip_holes rg hs = hole_values rg hs"
  by (induction rg hs rule: skip_holes.induct) auto

lemma hole_values_eq:
  "sorted_wrt (<) rg \<Longrightarrow> sorted_wrt (<) vs \<Longrightarrow> set vs \<subseteq> set rg \<Longrightarrow>
   hole_values rg vs = filter (\<lambda>v. v \<notin> set vs) rg"
proof (induction rg vs rule: hole_values.induct)
  case (3 v rg x vs)
  show ?case
  proof (cases "x = v")
    case True
    with "3.prems" have "set vs \<subseteq> set rg" by auto
    moreover have "filter (\<lambda>y. y \<notin> set vs) rg = filter (\<lambda>y. y \<notin> set (x # vs)) rg"
      using True "3.prems" by (intro filter_cong) auto
    ultimately show ?thesis using True "3.prems" "3.IH"(1) by auto
  next
    case False
    with "3.prems" have "v < x" by auto
    with "3.prems" have "v \<notin> set (x # vs)" by force
    with "3.prems" have "set (x # vs) \<subseteq> set rg" by auto
    with False \<open>v \<notin> set (x # vs)\<close> "3.prems" "3.IH"(2) show ?thesis by auto
  qed
qed auto

lemma skip_hole_values:
  assumes "sorted_wrt (<) rg" "sorted_wrt (<) vs" "set vs \<subseteq> set rg"
  shows "skip_holes rg (hole_values rg vs) = vs"
proof -
  let ?hs = "filter (\<lambda>v. v \<notin> set vs) rg"
  have "skip_holes rg (hole_values rg vs) = hole_values rg ?hs"
    using assms by (simp add: skip_holes_eq hole_values_eq)
  also have "\<dots> = filter (\<lambda>v. v \<notin> set ?hs) rg"
    using assms by (intro hole_values_eq) (auto intro: sorted_wrt_filter)
  also have "\<dots> = filter (\<lambda>v. v \<in> set vs) rg"
    by (rule filter_cong) auto
  finally show ?thesis using assms by (simp add: strict_sorted_filter_eq)
qed


subsection \<open>Bitmaps, least significant bit first\<close>

lemma length_clear_holes [simp]: "length (clear_holes lo rg vs bs) = length bs"
  by (induction rg arbitrary: vs bs) (auto simp: Let_def)

lemma bit_at_clear_holes:
  "sorted_wrt (<) rg \<Longrightarrow> sorted_wrt (<) vs \<Longrightarrow> set vs \<subseteq> set rg \<Longrightarrow>
   \<forall>v \<in> set rg. unat (v - lo) div 8 < length bs \<Longrightarrow> i div 8 < length bs \<Longrightarrow>
   bit_at (clear_holes lo rg vs bs) i \<longleftrightarrow>
     bit_at bs i \<and> \<not> (\<exists>v \<in> set rg. v \<notin> set vs \<and> unat (v - lo) = i)"
proof (induction rg arbitrary: vs bs)
  case (Cons v rg)
  show ?case
  proof (cases "vs \<noteq> [] \<and> hd vs = v")
    case True
    then obtain ws where vs: "vs = v # ws" by (cases vs) auto
    with Cons.prems have "set ws \<subseteq> set rg" "v \<notin> set rg" by auto
    with Cons vs show ?thesis by auto
  next
    case False
    with Cons.prems have v: "v \<notin> set vs"
      by (cases vs) (auto, force)
    with Cons.prems have "set vs \<subseteq> set rg" by auto
    with Cons False v show ?thesis
      by (auto simp: Let_def bit_at_clear)
  qed
qed simp

lemma length_full_bitmap [simp]: "length (full_bitmap n) = (n + 7) div 8"
  by (simp add: full_bitmap_def Let_def)

lemma bit_at_full_bitmap:
  assumes "i < n"
  shows "bit_at (full_bitmap n) i"
proof -
  have in_range: "i div 8 < (n + 7) div 8" using assms by (rule div8_less)
  have ff: "bit (0xFF :: byte) (i mod 8)"
  proof -
    have "(0xFF :: byte) = mask 8" by (simp add: mask_eq_exp_minus_1)
    then show ?thesis by (simp only: bit_mask_iff) simp
  qed
  show ?thesis
  proof (cases "n mod 8 \<noteq> 0 \<and> i div 8 = (n + 7) div 8 - 1")
    case True
    then have "i div 8 = n div 8" by (simp add: ceil_div8)
    then have "i mod 8 < n mod 8" using assms by (rule mod8_less)
    moreover have "push_bit (n mod 8) 1 - 1 = (mask (n mod 8) :: byte)"
      by (simp add: mask_eq_exp_minus_1 push_bit_eq_mult)
    ultimately show ?thesis
      using True in_range by (simp add: bit_at_def full_bitmap_def Let_def bit_mask_iff)
  next
    case False
    with in_range ff show ?thesis
      by (auto simp: bit_at_def full_bitmap_def Let_def nth_list_update)
  qed
qed

lemma set_bits_clear_holes:
  assumes le: "lo \<le> hi" and max: "hi < - 1" and vs: "sorted_wrt (<) vs" "set vs \<subseteq> set (u64_range lo (hi + 1))"
  defines "n \<equiv> unat (hi + 1 - lo)"
  shows "set_bits lo n (clear_holes lo (u64_range lo (hi + 1)) vs (full_bitmap n)) = vs"
proof -
  let ?rg = "u64_range lo (hi + 1)"
  have "unat (hi + 1) = unat hi + 1"
    using max by (rule unat_plus_1)
  with le have le': "lo \<le> hi + 1" by (simp add: word_le_nat_alt)
  have rg: "?rg = map (\<lambda>i. lo + of_nat i) [0..<n]"
    using le' by (simp add: u64_range_def n_def)
  have off: "unat (lo + of_nat i - lo) = i" if "i < n" for i
    using that unat_u64 [of "hi + 1 - lo"] by (simp add: n_def unat_of_nat)
  have idx: "unat (v - lo) < n" if "v \<in> set ?rg" for v
    using that off by (auto simp: rg)
  have bits: "bit_at (clear_holes lo ?rg vs (full_bitmap n)) i \<longleftrightarrow> lo + of_nat i \<in> set vs" if "i < n" for i
  proof -
    have "bit_at (clear_holes lo ?rg vs (full_bitmap n)) i \<longleftrightarrow>
        \<not> (\<exists>v \<in> set ?rg. v \<notin> set vs \<and> unat (v - lo) = i)"
      using vs that idx by (subst bit_at_clear_holes) (auto simp: bit_at_full_bitmap intro!: div8_less)
    also have "\<dots> \<longleftrightarrow> lo + of_nat i \<in> set vs"
      using that off vs(2) by (auto simp: rg)
    finally show ?thesis .
  qed
  have "set_bits lo n (clear_holes lo ?rg vs (full_bitmap n)) = filter (\<lambda>v. v \<in> set vs) ?rg"
    unfolding set_bits_def rg filter_map
    using bits by (auto simp: shift_and_1 bit_at_def [symmetric] rg comp_def intro!: arg_cong [of _ _ "map _"] filter_cong)
  with vs show ?thesis by (simp add: strict_sorted_filter_eq)
qed


subsection \<open>Segments round trip\<close>

lemma foldl_stats:
  "length vs < 2 ^ 64 \<Longrightarrow>
   foldl stats_step (True, - 1, 0, 0) vs =
     (sorted vs, fold min vs (- 1), fold max vs 0, of_nat (length vs))"
proof (induction vs rule: rev_induct)
  case (snoc v vs)
  let ?hi = "fold max vs 0"
  have hi: "?hi = Max (insert 0 (set vs))"
    by (simp flip: Max.set_eq_fold)
  have count: "(of_nat (length vs) + 1 :: u64) > 1 \<longleftrightarrow> vs \<noteq> []"
    using snoc.prems by (cases vs) (simp_all add: word_less_nat_alt unat_word_ariths unat_of_nat)
  have "v < ?hi \<longleftrightarrow> (\<exists>x \<in> set vs. v < x)"
    by (simp add: hi Max_gr_iff del: Max_insert)
  then have "sorted (vs @ [v]) \<longleftrightarrow> sorted vs \<and> \<not> (vs \<noteq> [] \<and> v < max ?hi v)"
    by (auto simp: sorted_append less_max_iff_disj not_less)
  with snoc count show ?case
    by (auto simp: stats_step_def Let_def min.commute max.commute)
qed simp

lemma stats_strict:
  assumes "sorted_wrt (<) vs" and "vs \<noteq> []"
  shows "sorted vs" and "fold min vs (- 1 :: u64) = hd vs" and "fold max vs (0 :: u64) = last vs"
proof -
  show asc: "sorted vs" using assms(1) by (rule strict_sorted_imp_sorted)
  have "fold min vs (- 1) = Min (insert (- 1) (set vs))"
    by (simp flip: Min.set_eq_fold)
  also have "\<dots> = hd vs"
    using assms(2) asc by (intro Min_eqI) (auto simp: neq_Nil_conv)
  finally show "fold min vs (- 1) = hd vs" .
  have "fold max vs 0 = Max (insert 0 (set vs))"
    by (simp flip: Max.set_eq_fold)
  also have "\<dots> = last vs"
    using assms(2) asc by (intro Max_eqI) (auto simp: sorted_last_ge)
  finally show "fold max vs 0 = last vs" .
qed

lemma decode_segment_range:
  assumes "start \<le> end" and "end - start \<le> 2 ^ 40"
  shows "decode_segment (segment_range start end) out = Inr (out @ u64_range start end)"
proof -
  let ?inner = "put_u64_field 1 start @ put_u64_field 2 end"
  have len: "length ?inner < 2 ^ 64"
    using length_put_u64_field [of 1 start] length_put_u64_field [of 2 "end"] by simp
  have "\<exists>gs. read_fields reader_next empty_field ?inner = (gs, True) \<and>
    foldl segment_part (0, 0, None) gs = (start, end, None)"
    by (auto simp: codec_simps segment_part_def)
  with assms len show ?thesis
    using reader_next_bytes [of ?inner empty_field 1 "[]"]
    by (auto simp: decode_segment_def segment_range_def data_of_def Let_def not_less)
qed

lemma decode_segment_extra:
  assumes "length e < 2 ^ 63"
  shows "\<exists>g gs. reader_next empty_field (put_bytes_field n (put_u64_field 1 start @ put_u64_field 2 end @
      put_bytes_field 3 e)) = Next g [] \<and> f_wire g = 2 \<and> f_number g = n \<and>
      read_fields reader_next empty_field (data_of g) = (gs, True) \<and>
      foldl segment_part (0, 0, None) gs = (start, end, Some e)"
proof -
  let ?inner = "put_u64_field 1 start @ put_u64_field 2 end @ put_bytes_field 3 e"
  have len: "length ?inner < 2 ^ 64"
    using length_put_u64_field [of 1 start] length_put_u64_field [of 2 "end"]
      length_put_bytes_field [of 3 e] assms by simp
  have "\<exists>gs. read_fields reader_next empty_field ?inner = (gs, True) \<and>
    foldl segment_part (0, 0, None) gs = (start, end, Some e)"
    using assms by (auto simp: codec_simps segment_part_def)
  with len show ?thesis
    using reader_next_bytes [of ?inner empty_field n "[]"] by (auto simp: data_of_def)
qed

lemma length_encode_encoded_array:
  "length (encode_encoded_array vs) \<le> 60 + 8 * length vs"
proof -
  have len: "length (put_bytes_field n (put_u64_field 1 lo @ put_bytes_field 2 b)) \<le> 60 + length b"
    for n lo b
    using length_put_bytes_field [of n "put_u64_field 1 lo @ put_bytes_field 2 b"]
      length_put_u64_field [of 1 lo] length_put_bytes_field [of 2 b] by simp
  have len0: "length (put_bytes_field n (put_bytes_field 2 b)) \<le> 60 + length b" for n b
    using length_put_bytes_field [of n "put_bytes_field 2 b"] length_put_bytes_field [of 2 b] by simp
  have "length (concat (map (\<lambda>v. le_bytes w (f v :: 'a::len word)) vs)) = length vs * w"
    for w :: nat and f :: "u64 \<Rightarrow> 'a::len word" and vs
    by (rule length_concat_fixed) simp
  note l = this
  show ?thesis
    unfolding encode_encoded_array_def Let_def
    using order.trans [OF len [of 1 "list_min vs"]] order.trans [OF len [of 2 "list_min vs"]]
      order.trans [OF len0 [of 3]]
    by (auto simp: l simp del: length_concat)
qed

lemma decode_segment_array:
  assumes len: "length vs < 2 ^ 59" and n: "n = 4 \<or> n = 5"
  shows "decode_segment (put_bytes_field n (encode_encoded_array vs)) out = Inr (out @ vs)"
proof -
  let ?e = "encode_encoded_array vs"
  have dec: "decode_encoded_array ?e out = Inr (out @ vs)"
    using len by (rule decode_encode_encoded_array)
  then obtain gs where gs: "read_fields reader_next empty_field ?e = (gs, True)"
    by (auto simp: decode_encoded_array_def sbind_eq_Inr split: prod.splits if_splits)
  have "length ?e < 2 ^ 64"
    using length_encode_encoded_array [of vs] len by simp
  from reader_next_bytes [OF this, of empty_field n "[]"] gs dec n show ?thesis
    by (auto simp: decode_segment_def data_of_def Let_def split: prod.splits)
qed

text \<open>The bounds of a strictly ascending list below \<open>2 ^ 64 - 1\<close>.\<close>

lemma strict_bounds:
  assumes "sorted_wrt (<) vs" and "vs \<noteq> []" and "last vs \<noteq> (- 1 :: u64)"
  shows "hd vs \<le> last vs" and "last vs < - 1"
    and "unat (last vs + 1 - hd vs) = unat (last vs) + 1 - unat (hd vs)"
    and "set vs \<subseteq> set (u64_range (hd vs) (last vs + 1))"
    and "length vs \<le> unat (last vs + 1 - hd vs)"
    and "length vs = unat (last vs + 1 - hd vs) \<Longrightarrow> vs = u64_range (hd vs) (last vs + 1)"
    and "hd vs \<le> last vs + 1"
proof -
  let ?lo = "hd vs" and ?hi = "last vs"
  have asc: "sorted vs" using assms(1) by (rule strict_sorted_imp_sorted)
  then show le: "?lo \<le> ?hi" using assms(2) by (cases vs) auto
  show max: "?hi < - 1" using assms(3) by (metis word_order.not_eq_extremum)
  then have hi1: "unat (?hi + 1) = unat ?hi + 1" by (rule unat_plus_1)
  with le have le1: "?lo \<le> ?hi + 1" by (simp add: word_le_nat_alt)
  then show "?lo \<le> ?hi + 1" .
  from le1 show n: "unat (?hi + 1 - ?lo) = unat ?hi + 1 - unat ?lo" by (simp add: unat_sub hi1)
  have low: "?lo \<le> v" if "v \<in> set vs" for v using that asc by (cases vs) auto
  show sub: "set vs \<subseteq> set (u64_range ?lo (?hi + 1))"
    using low sorted_last_ge [OF asc] hi1
    by (auto simp: set_u64_range [OF le1] word_le_nat_alt word_less_nat_alt less_Suc_eq_le)
  have len: "length (u64_range ?lo (?hi + 1)) = unat (?hi + 1 - ?lo)"
    using le1 by (auto simp: u64_range_def)
  have dist: "distinct vs" "distinct (u64_range ?lo (?hi + 1))"
    using assms(1) sorted_u64_range by (auto simp: strict_sorted_iff)
  then show "length vs \<le> unat (?hi + 1 - ?lo)"
    using card_mono [OF _ sub] len by (simp add: distinct_card)
  assume "length vs = unat (?hi + 1 - ?lo)"
  with dist sub len have "set vs = set (u64_range ?lo (?hi + 1))"
    by (intro card_subset_eq) (simp_all add: distinct_card)
  with assms(1) show "vs = u64_range ?lo (?hi + 1)"
    by (intro strict_sorted_equal) simp_all
qed

lemma decode_segment_holes:
  assumes vs: "sorted_wrt (<) vs" "vs \<noteq> []" "last vs \<noteq> - 1" and n: "unat (last vs + 1 - hd vs) < 2 ^ 37"
  shows "decode_segment (put_bytes_field 2 (put_u64_field 1 (hd vs) @ put_u64_field 2 (last vs + 1) @
    put_bytes_field 3 (encode_encoded_array (hole_values (u64_range (hd vs) (last vs + 1)) vs)))) out =
    Inr (out @ vs)"
proof -
  let ?rg = "u64_range (hd vs) (last vs + 1)"
  let ?hs = "hole_values ?rg vs"
  note bounds = strict_bounds [OF vs]
  have "length ?hs \<le> length ?rg"
    using vs bounds by (simp add: hole_values_eq)
  then have len_hs: "length ?hs < 2 ^ 37"
    using n bounds(7) by (simp add: u64_range_def split: if_splits)
  then have dec: "decode_encoded_array (encode_encoded_array ?hs) [] = Inr ([] @ ?hs)"
    by (intro decode_encode_encoded_array) simp
  have len_e: "length (encode_encoded_array ?hs) < 2 ^ 63"
    using length_encode_encoded_array [of ?hs] len_hs by simp
  have "skip_holes ?rg ?hs = vs"
    using vs bounds by (simp add: skip_hole_values)
  with decode_segment_extra [OF len_e, of 2 "hd vs" "last vs + 1"] dec n bounds(7) show ?thesis
    by (auto simp: decode_segment_def word_le_nat_alt word_less_nat_alt split: prod.splits)
qed

lemma decode_segment_bitmap:
  assumes vs: "sorted_wrt (<) vs" "vs \<noteq> []" "last vs \<noteq> - 1"
    and n: "n = unat (last vs + 1 - hd vs)" "n \<le> 2 ^ 40"
  shows "decode_segment (put_bytes_field 3 (put_u64_field 1 (hd vs) @ put_u64_field 2 (last vs + 1) @
    put_bytes_field 3 (clear_holes (hd vs) (u64_range (hd vs) (last vs + 1)) vs (full_bitmap n)))) out =
    Inr (out @ vs)"
proof -
  let ?bm = "clear_holes (hd vs) (u64_range (hd vs) (last vs + 1)) vs (full_bitmap n)"
  note bounds = strict_bounds [OF vs]
  have len_e: "length ?bm < 2 ^ 63" using n by simp
  have "set_bits (hd vs) n ?bm = vs"
    unfolding n(1) using vs bounds by (intro set_bits_clear_holes) auto
  with decode_segment_extra [OF len_e, of 3 "hd vs" "last vs + 1"] n bounds(7) show ?thesis
    by (auto simp: decode_segment_def word_le_nat_alt word_less_nat_alt split: prod.splits)
qed

text \<open>The choice \<open>encode_segment\<close> makes on an ascending list, over plain numbers.\<close>

lemma encode_segment_strict:
  assumes vs: "sorted_wrt (<) vs" "vs \<noteq> []" "last vs \<noteq> - 1" and len: "length vs < 2 ^ 36"
  defines "n \<equiv> unat (last vs + 1 - hd vs)" and "c \<equiv> length vs"
  shows "encode_segment vs =
    (if n = c then segment_range (hd vs) (last vs + 1)
     else if 4 * (n - c) \<le> (n + 7) div 8 \<and> 4 * (n - c) \<le> 2 * c then
       put_bytes_field 2 (put_u64_field 1 (hd vs) @ put_u64_field 2 (last vs + 1) @
         put_bytes_field 3 (encode_encoded_array (hole_values (u64_range (hd vs) (last vs + 1)) vs)))
     else if (n + 7) div 8 \<le> 2 * c then
       put_bytes_field 3 (put_u64_field 1 (hd vs) @ put_u64_field 2 (last vs + 1) @
         put_bytes_field 3 (clear_holes (hd vs) (u64_range (hd vs) (last vs + 1)) vs (full_bitmap n)))
     else put_bytes_field 4 (encode_encoded_array vs))"
proof -
  let ?lo = "hd vs" and ?hi = "last vs"
  note bounds = strict_bounds [OF vs]
  have count: "unat (of_nat c :: u64) = c"
    using len by (simp add: c_def unat_of_nat)
  have tot: "unat (?hi - ?lo + 1) = n"
    by (simp add: n_def algebra_simps)
  have holes: "unat (?hi - ?lo + 1 - of_nat c) = n - c"
    using bounds(5) count by (subst unat_sub) (simp_all add: word_le_nat_alt tot n_def [symmetric] c_def [symmetric])
  have none: "?hi - ?lo + 1 = of_nat c \<longleftrightarrow> n = c"
    using tot count by (metis unat_inject)
  have stats: "foldl stats_step (True, - 1, 0, 0) vs = (True, ?lo, ?hi, of_nat c)"
    using foldl_stats [of vs] len stats_strict [OF vs(1,2)] by (simp add: c_def)
  have "of_nat c \<noteq> (0 :: u64)"
    using vs(2) count by (metis c_def length_0_conv unat_0)
  with vs(3) show ?thesis
    unfolding encode_segment_def stats Let_def prod.case holes tot count by (simp add: none)
qed

lemma encode_segment_array:
  assumes "distinct vs" and "length vs < 2 ^ 36" and "vs \<noteq> []" and "\<not> sorted vs \<or> last vs = - 1"
  shows "encode_segment vs = put_bytes_field (if sorted vs then 4 else 5) (encode_encoded_array vs)"
proof -
  have "of_nat (length vs) \<noteq> (0 :: u64)"
    using assms(2,3) by (simp add: word_of_nat_eq_0_iff nat_dvd_not_less)
  moreover have "fold max vs 0 = - 1" if "sorted vs"
    using that assms stats_strict(3) [of vs] by (simp add: strict_sorted_iff)
  moreover have "foldl stats_step (True, - 1, 0, 0) vs =
      (sorted vs, fold min vs (- 1), fold max vs 0, of_nat (length vs))"
    using assms(2) by (intro foldl_stats) simp
  ultimately show ?thesis by (simp add: encode_segment_def)
qed

theorem decode_encode_segment:
  assumes "distinct vs" and len: "length vs < 2 ^ 36"
  shows "decode_segment (encode_segment vs) out = Inr (out @ vs)"
proof -
  consider (empty) "vs = []" | (array) "vs \<noteq> []" "\<not> sorted vs \<or> last vs = - 1"
    | (strict) "sorted_wrt (<) vs" "vs \<noteq> []" "last vs \<noteq> - 1"
    using assms(1) by (auto simp: strict_sorted_iff)
  then show ?thesis
  proof cases
    case empty
    then show ?thesis
      using decode_segment_range [of 0 0 out] by (simp add: encode_segment_def u64_range_def)
  next
    case array
    with assms show ?thesis by (simp add: encode_segment_array decode_segment_array)
  next
    case strict
    note bounds = strict_bounds [OF strict]
    let ?n = "unat (last vs + 1 - hd vs)"
    have "?n \<le> 2 ^ 40" if "(?n + 7) div 8 \<le> 2 * length vs" using that len by simp
    moreover have "?n < 2 ^ 37" if "4 * (?n - length vs) \<le> 2 * length vs" using that len by simp
    moreover have "decode_segment (segment_range (hd vs) (last vs + 1)) out = Inr (out @ vs)"
      if "?n = length vs"
      using that decode_segment_range [OF bounds(7)] bounds(6) len by (simp add: word_le_nat_alt)
    ultimately show ?thesis
      using strict len
      by (simp add: encode_segment_strict decode_segment_holes decode_segment_bitmap decode_segment_array)
  qed
qed

end
