(* ===== verification/Row_Id_Sequence.thy ===== *)
theory Row_Id_Sequence
  imports Row_Id_Codec
begin

text \<open>
  \<open>RowIdSequence\<close> and \<open>RowVersionSequence\<close> of \<open>src/src/table/row_ids.cpp\<close> and
  \<open>src/include/nanolance/row_ids.hpp\<close>: the ids of a fragment's rows, kept as one run when they
  are consecutive, and the versions of its rows, kept as runs. The serialized forms are messages
  over the segments of \<open>Row_Id_Codec\<close>.
\<close>

subsection \<open>RowIdSequence\<close>

record row_id_sequence =
  compact :: bool
  seq_start :: u64
  seq_count :: u64
  seq_values :: "u64 list"

definition range_seq :: "u64 \<Rightarrow> u64 \<Rightarrow> row_id_sequence" where
  "range_seq start count = \<lparr>compact = True, seq_start = start, seq_count = count, seq_values = []\<rparr>"

fun consecutive :: "u64 list \<Rightarrow> bool" where
  "consecutive (x # y # r) = (y = x + 1 \<and> consecutive (y # r))"
| "consecutive _ = True"

definition from_values :: "u64 list \<Rightarrow> row_id_sequence" where
  "from_values vs =
     (if consecutive vs then
        \<lparr>compact = True, seq_start = (if vs = [] then 0 else hd vs), seq_count = of_nat (length vs),
         seq_values = []\<rparr>
      else \<lparr>compact = False, seq_start = 0, seq_count = 0, seq_values = vs\<rparr>)"

definition sequence_step :: "u64 list \<Rightarrow> field \<Rightarrow> u64 list result" where
  "sequence_step out f =
     (if f_number f = 1 \<and> f_wire f = 2 then decode_segment (data_of f) out else Inr out)"

definition decode_sequence :: "byte list \<Rightarrow> row_id_sequence result" where
  "decode_sequence bs =
     (let (fs, ok) = read_fields reader_next empty_field bs in
      sbind (sfold sequence_step [] fs) (\<lambda>vs.
        if \<not> ok then Inl ''malformed row id sequence'' else Inr (from_values vs)))"

definition encode_sequence :: "row_id_sequence \<Rightarrow> byte list" where
  "encode_sequence s = put_bytes_field 1
     (if compact s then segment_range (seq_start s) (seq_start s + seq_count s)
      else encode_segment (seq_values s))"

definition seq_size :: "row_id_sequence \<Rightarrow> u64" where
  "seq_size s = (if compact s then seq_count s else of_nat (length (seq_values s)))"

definition seq_at :: "row_id_sequence \<Rightarrow> u64 \<Rightarrow> u64" where
  "seq_at s i = (if compact s then seq_start s + i else seq_values s ! unat i)"

definition is_range :: "row_id_sequence \<Rightarrow> u64 option" where
  "is_range s = (if compact s then Some (seq_start s) else None)"

fun select :: "row_id_sequence \<Rightarrow> u64 list \<Rightarrow> u64 list option" where
  "select s [] = Some []"
| "select s (i # is) =
     (if i \<ge> seq_size s then None else map_option (Cons (seq_at s i)) (select s is))"

definition to_vector :: "row_id_sequence \<Rightarrow> u64 list" where
  "to_vector s =
     (if \<not> compact s then seq_values s
      else map (\<lambda>i. seq_start s + of_nat i) [0..<unat (seq_count s)])"

definition max_id :: "row_id_sequence \<Rightarrow> u64 option" where
  "max_id s =
     (if seq_size s = 0 then None
      else if compact s then Some (seq_start s + seq_count s - 1)
      else Some (list_max (seq_values s)))"

subsection \<open>RowVersionSequence\<close>

record version_run =
  run_length :: u64
  run_version :: u64

definition uniform :: "u64 \<Rightarrow> u64 \<Rightarrow> version_run list" where
  "uniform rows version = (if rows \<noteq> 0 then [\<lparr>run_length = rows, run_version = version\<rparr>] else [])"

text \<open>One field of a run: the span decoded so far, the version, whether a span was seen.\<close>

definition run_part :: "u64 list \<times> u64 \<times> bool \<Rightarrow> field \<Rightarrow> (u64 list \<times> u64 \<times> bool) result" where
  "run_part = (\<lambda>(span, version, have_span) g.
     if f_number g = 1 \<and> f_wire g = 2 then
       sbind (decode_segment (data_of g) span) (\<lambda>span'. Inr (span', version, True))
     else if f_number g = 2 \<and> f_wire g = 0 then Inr (span, f_value g, have_span)
     else Inr (span, version, have_span))"

definition version_step :: "version_run list \<Rightarrow> field \<Rightarrow> version_run list result" where
  "version_step runs f =
     (if f_number f \<noteq> 1 \<or> f_wire f \<noteq> 2 then Inr runs
      else
        let (gs, ok) = read_fields reader_next empty_field (data_of f) in
        sbind (sfold run_part ([], 0, False) gs) (\<lambda>(span, version, have_span).
          if \<not> ok \<or> \<not> have_span then Inl ''malformed row version run''
          else Inr (runs @ [\<lparr>run_length = of_nat (length span), run_version = version\<rparr>])))"

definition decode_versions :: "byte list \<Rightarrow> version_run list result" where
  "decode_versions bs =
     (let (fs, ok) = read_fields reader_next empty_field bs in
      sbind (sfold version_step [] fs) (\<lambda>runs.
        if \<not> ok then Inl ''malformed row version sequence'' else Inr runs))"

definition encode_run :: "u64 \<Rightarrow> version_run \<Rightarrow> byte list" where
  "encode_run at run =
     put_bytes_field 1 (segment_range at (at + run_length run)) @ put_u64_field 2 (run_version run)"

fun encode_versions_from :: "u64 \<Rightarrow> version_run list \<Rightarrow> byte list" where
  "encode_versions_from at [] = []"
| "encode_versions_from at (run # runs) =
     put_bytes_field 1 (encode_run at run) @ encode_versions_from (at + run_length run) runs"

definition encode_versions :: "version_run list \<Rightarrow> byte list" where
  "encode_versions runs = encode_versions_from 0 runs"

definition versions_size :: "version_run list \<Rightarrow> u64" where
  "versions_size runs = foldl (\<lambda>n run. n + run_length run) 0 runs"

fun version_at :: "version_run list \<Rightarrow> u64 \<Rightarrow> u64" where
  "version_at [] index = 0"
| "version_at (run # runs) index =
     (if index < run_length run then run_version run else version_at runs (index - run_length run))"

definition versions_to_vector :: "version_run list \<Rightarrow> u64 list" where
  "versions_to_vector runs = concat (map (\<lambda>run. replicate (unat (run_length run)) (run_version run)) runs)"

definition push_version :: "version_run list \<Rightarrow> u64 \<Rightarrow> version_run list" where
  "push_version runs v =
     (if runs \<noteq> [] \<and> run_version (last runs) = v
      then butlast runs @ [(last runs)\<lparr>run_length := run_length (last runs) + 1\<rparr>]
      else runs @ [\<lparr>run_length = 1, run_version = v\<rparr>])"

definition versions_from_values :: "u64 list \<Rightarrow> version_run list" where
  "versions_from_values vs = foldl push_version [] vs"

subsection \<open>Consecutive ids are a range\<close>

lemma consecutive_no_wrap:
  "consecutive vs \<Longrightarrow> - 1 \<notin> set vs \<Longrightarrow> vs \<noteq> [] \<Longrightarrow>
   map unat vs = [unat (hd vs)..<unat (hd vs) + length vs]"
proof (induction vs rule: consecutive.induct)
  case (1 x y r)
  then have "x < - 1" by (auto simp: less_le)
  with 1 have y: "unat y = unat x + 1" by (simp add: unat_plus_1)
  have "[unat x..<unat x + length (x # y # r)] = unat x # [unat y..<unat y + length (y # r)]"
    unfolding y by (subst upt_conv_Cons) simp_all
  with 1 show ?case by (auto simp del: upt_Suc)
qed (auto simp: upt_rec)

lemma consecutive_nth: "consecutive vs \<Longrightarrow> i < length vs \<Longrightarrow> vs ! i = hd vs + of_nat i"
proof (induction vs arbitrary: i rule: consecutive.induct)
  case (1 x y r)
  then show ?case by (cases i) (auto simp: algebra_simps)
qed (auto simp: less_Suc_eq_0_disj)

lemma to_vector_from_values [simp]:
  assumes "length vs < 2 ^ 64"
  shows "to_vector (from_values vs) = vs"
proof (cases "consecutive vs")
  case True
  then show ?thesis
    using assms by (auto simp: from_values_def to_vector_def unat_of_nat consecutive_nth intro!: nth_equalityI)
qed (simp add: from_values_def to_vector_def)

lemma consecutive_range:
  assumes "consecutive vs" and "- 1 \<notin> set vs" and "vs \<noteq> []" and "length vs < 2 ^ 64"
  defines "end \<equiv> hd vs + of_nat (length vs)"
  shows "hd vs \<le> end" and "unat (end - hd vs) = length vs" and "vs = u64_range (hd vs) end"
    and "end - 1 = last vs" and "unat end = unat (last vs) + 1"
proof -
  have vs: "map unat vs = [unat (hd vs)..<unat (hd vs) + length vs]"
    using assms by (intro consecutive_no_wrap)
  have lst: "unat (last vs) = unat (hd vs) + length vs - 1"
    using arg_cong [OF vs, of last] assms(3) by (simp add: last_map)
  have "last vs \<noteq> - 1" using assms(2,3) by (metis last_in_set)
  then have "unat (last vs) < 2 ^ 64 - 1"
    using word_order.not_eq_extremum [of "last vs"]
    by (simp add: word_less_nat_alt unsigned_minus_1_eq_mask mask_eq_exp_minus_1)
  with lst assms(3,4) have e: "unat end = unat (hd vs) + length vs"
    unfolding end_def by (subst unat_word_ariths) (simp add: unat_of_nat)
  show "unat end = unat (last vs) + 1" using e lst assms(3) by (cases vs) simp_all
  show le: "hd vs \<le> end" using e by (simp add: word_le_nat_alt)
  then show "unat (end - hd vs) = length vs" by (simp add: unat_sub e)
  have "map unat (u64_range (hd vs) end) = map unat vs"
    using vs e by (simp add: map_unat_u64_range [OF le])
  then show "vs = u64_range (hd vs) end" by (rule inj_unat_list [symmetric])
  have "unat (end - 1) = unat end - 1"
    using e assms(3) by (intro unat_minus_one) (auto simp flip: unat_inject)
  then show "end - 1 = last vs" using e lst by (simp flip: unat_inject)
qed

subsection \<open>Row id sequences\<close>

lemma length_u64_range: "start \<le> end \<Longrightarrow> length (u64_range start end) = unat (end - start)"
  by (auto simp: u64_range_def)

lemma length_segment_range: "length (segment_range a b) \<le> 60"
  using length_put_bytes_field [of 1 "put_u64_field 1 a @ put_u64_field 2 b"]
    length_put_u64_field [of 1 a] length_put_u64_field [of 2 b]
  by (simp add: segment_range_def)

lemma length_encode_segment:
  assumes "distinct vs" and "length vs < 2 ^ 36"
  shows "length (encode_segment vs) < 2 ^ 63"
proof -
  have arr: "length (put_bytes_field n (encode_encoded_array ws)) < 2 ^ 63" if "length ws < 2 ^ 41" for n ws
    using length_put_bytes_field [of n "encode_encoded_array ws"] length_encode_encoded_array [of ws] that
    by simp
  have nested: "length (put_bytes_field n (put_u64_field 1 a @ put_u64_field 2 b @ put_bytes_field 3 e)) < 2 ^ 63"
    if "length e < 2 ^ 62" for n a b e
    using length_put_bytes_field [of n "put_u64_field 1 a @ put_u64_field 2 b @ put_bytes_field 3 e"]
      length_put_u64_field [of 1 a] length_put_u64_field [of 2 b] length_put_bytes_field [of 3 e] that
    by simp
  consider (empty) "vs = []" | (array) "vs \<noteq> []" "\<not> sorted vs \<or> last vs = - 1"
    | (strict) "sorted_wrt (<) vs" "vs \<noteq> []" "last vs \<noteq> - 1"
    using assms(1) by (auto simp: strict_sorted_iff)
  then show ?thesis
  proof cases
    case empty
    then show ?thesis using length_segment_range [of 0 0] by (simp add: encode_segment_def)
  next
    case array
    then show ?thesis using assms arr [of vs] by (simp add: encode_segment_array)
  next
    case strict
    let ?rg = "u64_range (hd vs) (last vs + 1)" and ?n = "unat (last vs + 1 - hd vs)"
    note bounds = strict_bounds [OF strict]
    have "length (hole_values ?rg vs) \<le> length ?rg"
      using strict bounds by (simp add: hole_values_eq)
    then have "length (hole_values ?rg vs) \<le> ?n"
      using bounds(7) by (simp add: length_u64_range)
    moreover have "?n < 2 ^ 37" if "4 * (?n - length vs) \<le> 2 * length vs" using that assms(2) by simp
    moreover have "?n \<le> 2 ^ 40" if "(?n + 7) div 8 \<le> 2 * length vs" using that assms(2) by simp
    ultimately show ?thesis
      using encode_segment_strict [OF strict assms(2)] length_segment_range [of "hd vs" "last vs + 1"]
        arr [of vs] assms(2) nested length_encode_encoded_array [of "hole_values ?rg vs"]
      by (auto intro!: nested)
  qed
qed

text \<open>A message holding one segment decodes to the values of that segment.\<close>

lemma decode_one_segment:
  assumes "decode_segment seg [] = Inr vs" and "length seg < 2 ^ 64"
  shows "decode_sequence (put_bytes_field 1 seg) = Inr (from_values vs)"
  using assms by (simp add: decode_sequence_def codec_simps sequence_step_def data_of_def)

lemma decode_encode_sequence:
  assumes "distinct vs" and "length vs < 2 ^ 36" and "- 1 \<notin> set vs"
  shows "decode_sequence (encode_sequence (from_values vs)) = Inr (from_values vs) \<and>
    to_vector (from_values vs) = vs"
proof (intro conjI)
  show "to_vector (from_values vs) = vs" using assms(2) by simp
  show "decode_sequence (encode_sequence (from_values vs)) = Inr (from_values vs)"
  proof (cases "vs \<noteq> [] \<and> consecutive vs")
    case True
    let ?stop = "hd vs + of_nat (length vs)"
    have r: "hd vs \<le> ?stop" "unat (?stop - hd vs) = length vs" "vs = u64_range (hd vs) ?stop"
      using consecutive_range [of vs] True assms by simp_all
    then have "decode_segment (segment_range (hd vs) ?stop) [] = Inr vs"
      using decode_segment_range [OF r(1), of "[]"] assms(2) by (simp add: word_le_nat_alt)
    then show ?thesis
      using True length_segment_range [of "hd vs" ?stop] decode_one_segment
      by (simp add: encode_sequence_def from_values_def)
  next
    case False
    show ?thesis
    proof (cases "vs = []")
      case True
      then show ?thesis
        using decode_segment_range [of 0 0 "[]"] length_segment_range [of 0 0]
        by (simp add: encode_sequence_def from_values_def decode_one_segment u64_range_def)
    next
      case nonempty: False
      with False have "\<not> consecutive vs" by simp
      then have enc: "encode_sequence (from_values vs) = put_bytes_field 1 (encode_segment vs)"
        by (simp add: encode_sequence_def from_values_def)
      show ?thesis
        unfolding enc
        using decode_encode_segment [OF assms(1,2), of "[]"] length_encode_segment [OF assms(1,2)]
        by (intro decode_one_segment) simp_all
    qed
  qed
qed

text \<open>C15: writing and reading back the row ids of a fragment gives the same
  sequence, whichever of the five segment encodings the writer picks, for distinct ids (fewer
  than \<open>2 ^ 36\<close> of them) that do not include the largest 64-bit value.\<close>

theorem row_ids_round_trip:
  assumes "distinct vs" and "length vs < 2 ^ 36" and "- 1 \<notin> set vs"
  shows "decode_sequence (encode_sequence (from_values vs)) = Inr (from_values vs) \<and>
    to_vector (from_values vs) = vs"
  by (rule decode_encode_sequence [OF assms])

theorem row_ids_round_trip_witness:
  "decode_sequence (encode_sequence (from_values [7, 3, 9])) = Inr (from_values [7, 3, 9]) \<and>
    to_vector (from_values [7, 3, 9]) = [7, 3, 9]"
  by (rule row_ids_round_trip) simp_all

text \<open>A one-row sequence whose id is the largest 64-bit value is
  written as a range whose exclusive end wraps to zero, and the reader refuses it.\<close>

lemma encode_top_id_rejected:
  "decode_sequence (encode_sequence (from_values [- 1])) =
     Inl ''row id segment range start exceeds end''"
  by code_simp

text \<open>The abstract view of a sequence is its vector of ids.\<close>

lemma length_to_vector: "length (to_vector s) < 2 ^ 64 \<Longrightarrow> unat (seq_size s) = length (to_vector s)"
  by (auto simp: to_vector_def seq_size_def unat_of_nat)

lemma nth_to_vector: "i < seq_size s \<Longrightarrow> length (seq_values s) < 2 ^ 64 \<Longrightarrow> to_vector s ! unat i = seq_at s i"
  by (auto simp: to_vector_def seq_size_def seq_at_def word_less_nat_alt)

text \<open>Selecting row offsets returns exactly the ids the vector of the
  sequence holds at those offsets, and fails exactly when an offset is past its end.\<close>

lemma select_correct:
  assumes "length (seq_values s) < 2 ^ 64"
  shows "select s is =
    (if \<forall>i \<in> set is. unat i < length (to_vector s)
     then Some (map (\<lambda>i. to_vector s ! unat i) is) else None)"
proof -
  have len: "length (to_vector s) < 2 ^ 64"
    using assms unat_u64 [of "seq_count s"] by (auto simp: to_vector_def)
  have size: "i < seq_size s \<longleftrightarrow> unat i < length (to_vector s)" for i
    using length_to_vector [OF len] by (simp add: word_less_nat_alt)
  show ?thesis
    by (induction "is") (auto simp: not_le not_less simp flip: size nth_to_vector [OF _ assms])
qed

text \<open>The largest id reported for a sequence is the maximum of its ids, and
  none is reported exactly for the empty one.\<close>

lemma max_id_correct:
  assumes "- 1 \<notin> set vs" and "length vs < 2 ^ 64"
  shows "max_id (from_values vs) = (if vs = [] then None else Some (Max (set vs)))"
proof (cases "vs = []")
  case True
  then show ?thesis by (simp add: max_id_def from_values_def seq_size_def)
next
  case False
  have c0: "of_nat (length vs) \<noteq> (0 :: u64)"
    using assms(2) False by (simp add: word_of_nat_eq_0_iff nat_dvd_not_less)
  show ?thesis
  proof (cases "consecutive vs")
    case True
    note r = consecutive_range [OF True assms(1) False assms(2)]
    have "v \<le> last vs" if "v \<in> set vs" for v
    proof -
      have "v \<in> set (u64_range (hd vs) (hd vs + of_nat (length vs)))" using that r(3) by simp
      then show ?thesis
        using r(5) by (simp add: set_u64_range [OF r(1)] word_less_nat_alt word_le_nat_alt)
    qed
    then have "Max (set vs) = last vs" using False by (intro Max_eqI) auto
    with True False c0 r(4) show ?thesis
      by (simp add: max_id_def from_values_def seq_size_def)
  next
    case nc: False
    have "list_max vs = Max (set vs)"
      using False by (cases vs) (simp_all add: list_max_def flip: Max.set_eq_fold)
    with nc False c0 show ?thesis
      by (simp add: max_id_def from_values_def seq_size_def)
  qed
qed

subsection \<open>Row version sequences\<close>

lemma decode_run_parts:
  assumes "at \<le> at + run_length run" and "run_length run \<le> 2 ^ 40"
  shows "\<exists>gs. read_fields reader_next empty_field (encode_run at run) = (gs, True) \<and>
    sfold run_part ([], 0, False) gs =
      Inr (u64_range at (at + run_length run), run_version run, True)"
proof -
  let ?seg = "segment_range at (at + run_length run)"
  have len: "length ?seg < 2 ^ 64" using length_segment_range [of at "at + run_length run"] by simp
  have "decode_segment ?seg [] = Inr ([] @ u64_range at (at + run_length run))"
    using assms by (intro decode_segment_range) simp_all
  with len show ?thesis
    by (auto simp: encode_run_def codec_simps run_part_def data_of_def)
qed

lemma length_encode_run: "length (encode_run at run) < 2 ^ 64"
  using length_put_bytes_field [of 1 "segment_range at (at + run_length run)"]
    length_segment_range [of at "at + run_length run"] length_put_u64_field [of 2 "run_version run"]
  by (simp add: encode_run_def)

lemma version_step_run:
  assumes "at \<le> at + run_length run" and "run_length run \<le> 2 ^ 40"
    and "f_number g = 1" and "f_wire g = 2" and "f_data g = Some (encode_run at run)"
  shows "version_step runs g = Inr (runs @ [run])"
proof -
  have "of_nat (length (u64_range at (at + run_length run))) = run_length run"
    using assms(1) by (simp add: length_u64_range)
  with decode_run_parts [OF assms(1,2)] assms(3-) show ?thesis
    by (auto simp: version_step_def data_of_def)
qed

lemma decode_encode_versions_from:
  "unat at + sum_list (map (unat \<circ> run_length) runs) < 2 ^ 64 \<Longrightarrow>
   \<forall>run \<in> set runs. run_length run \<le> 2 ^ 40 \<Longrightarrow>
   \<exists>fs. read_fields reader_next f (encode_versions_from at runs) = (fs, True) \<and>
     sfold version_step acc fs = Inr (acc @ runs)"
proof (induction runs arbitrary: at f acc)
  case Nil
  then show ?case by (simp add: codec_simps)
next
  case (Cons run runs)
  let ?g = "f\<lparr>f_number := 1, f_wire := 2, f_data := Some (encode_run at run),
              f_raw := put_bytes_field 1 (encode_run at run)\<rparr>"
  have add: "unat (at + run_length run) = unat at + unat (run_length run)"
    using Cons.prems(1) by (simp add: unat_word_ariths)
  then have "version_step acc ?g = Inr (acc @ [run])"
    using Cons.prems(2) by (intro version_step_run) (simp_all add: word_le_nat_alt)
  moreover obtain fs where
    "read_fields reader_next ?g (encode_versions_from (at + run_length run) runs) = (fs, True)"
    "sfold version_step (acc @ [run]) fs = Inr ((acc @ [run]) @ runs)"
    using Cons.IH [of "at + run_length run" ?g "acc @ [run]"] Cons.prems by (auto simp: add add.assoc)
  ultimately show ?case
    using length_encode_run [of at run] by (simp add: codec_simps)
qed

lemma decode_encode_versions:
  assumes "\<forall>run \<in> set runs. run_length run \<le> 2 ^ 40"
    and "sum_list (map (unat \<circ> run_length) runs) < 2 ^ 64"
  shows "decode_versions (encode_versions runs) = Inr runs"
  using decode_encode_versions_from [of 0 runs empty_field "[]"] assms
  by (auto simp: decode_versions_def encode_versions_def)

text \<open>C22: writing and reading back the version runs of a fragment gives
  the same runs, as long as no run is longer than the \<open>2 ^ 40\<close> rows a segment may span and the
  row count fits 64 bits.\<close>

theorem row_versions_round_trip:
  assumes "\<forall>run \<in> set runs. run_length run \<le> 2 ^ 40"
    and "sum_list (map (unat \<circ> run_length) runs) < 2 ^ 64"
  shows "decode_versions (encode_versions runs) = Inr runs"
  by (rule decode_encode_versions [OF assms])

theorem row_versions_round_trip_witness:
  "decode_versions (encode_versions [\<lparr>run_length = 5, run_version = 2\<rparr>, \<lparr>run_length = 1, run_version = 0\<rparr>]) =
     Inr [\<lparr>run_length = 5, run_version = 2\<rparr>, \<lparr>run_length = 1, run_version = 0\<rparr>]"
  by (rule row_versions_round_trip) simp_all

text \<open>The version of row \<open>i\<close> is entry \<open>i\<close> of the expanded vector, and
  zero past its end; the vector's length is the size the sequence reports (modulo \<open>2 ^ 64\<close>).\<close>

lemma version_at_correct:
  "version_at runs i =
     (if unat i < length (versions_to_vector runs) then versions_to_vector runs ! unat i else 0) \<and>
   versions_size runs = of_nat (length (versions_to_vector runs))"
proof (intro conjI)
  have "foldl (\<lambda>n run. n + run_length run) n runs = n + of_nat (length (versions_to_vector runs))" for n
    by (induction runs arbitrary: n) (simp_all add: versions_to_vector_def algebra_simps)
  then show "versions_size runs = of_nat (length (versions_to_vector runs))"
    by (simp add: versions_size_def)
  show "version_at runs i =
     (if unat i < length (versions_to_vector runs) then versions_to_vector runs ! unat i else 0)"
  proof (induction runs arbitrary: i)
    case (Cons run runs)
    have "unat (i - run_length run) = unat i - unat (run_length run)" if "\<not> i < run_length run"
      using that by (intro unat_sub) simp
    with Cons show ?case
      by (auto simp: versions_to_vector_def nth_append word_less_nat_alt)
  qed (simp add: versions_to_vector_def)
qed

lemma versions_to_vector_append [simp]:
  "versions_to_vector (rs @ ss) = versions_to_vector rs @ versions_to_vector ss"
  by (simp add: versions_to_vector_def)

lemma push_version_vector:
  assumes "length (versions_to_vector runs) < 2 ^ 64 - 1"
  shows "versions_to_vector (push_version runs v) = versions_to_vector runs @ [v]"
proof (cases "runs \<noteq> [] \<and> run_version (last runs) = v")
  case True
  then obtain rs r where runs: "runs = rs @ [r]" and v: "run_version r = v"
    by (cases runs rule: rev_cases) auto
  have "unat (run_length r) \<le> length (versions_to_vector runs)"
    by (simp add: runs versions_to_vector_def)
  then have "unat (run_length r + 1) = unat (run_length r) + 1"
    using assms by (subst unat_word_ariths) simp
  with v show ?thesis
    by (simp add: runs push_version_def versions_to_vector_def replicate_append_same)
qed (auto simp: push_version_def versions_to_vector_def)

lemma versions_vector_from_values:
  assumes "length vs < 2 ^ 64"
  shows "versions_to_vector (versions_from_values vs) = vs"
  using assms
proof (induction vs rule: rev_induct)
  case (snoc v vs)
  then show ?case
    using push_version_vector [of "versions_from_values vs" v] by (simp add: versions_from_values_def)
qed (simp add: versions_from_values_def versions_to_vector_def)

lemma run_lengths_vector: "sum_list (map (unat \<circ> run_length) runs) = length (versions_to_vector runs)"
  by (induction runs) (simp_all add: versions_to_vector_def)

lemma run_length_vector: "run \<in> set runs \<Longrightarrow> unat (run_length run) \<le> length (versions_to_vector runs)"
  by (induction runs) (auto simp: versions_to_vector_def)

lemma decode_encode_version_vector:
  assumes "length vs \<le> 2 ^ 40"
  shows "decode_versions (encode_versions (versions_from_values vs)) = Inr (versions_from_values vs)"
proof (rule decode_encode_versions)
  have "versions_to_vector (versions_from_values vs) = vs"
    using assms by (intro versions_vector_from_values) simp
  then show "\<forall>run \<in> set (versions_from_values vs). run_length run \<le> 2 ^ 40"
    "sum_list (map (unat \<circ> run_length) (versions_from_values vs)) < 2 ^ 64"
    using assms run_length_vector [of _ "versions_from_values vs"]
    by (auto simp: run_lengths_vector word_le_nat_alt intro: order_trans)
qed

text \<open>C23: run-length encoding a vector of versions and expanding
  it gives the vector back.\<close>

theorem versions_from_values_correct:
  assumes "length vs < 2 ^ 64"
  shows "versions_to_vector (versions_from_values vs) = vs"
  by (rule versions_vector_from_values [OF assms])

theorem versions_from_values_correct_witness:
  "versions_to_vector (versions_from_values [4, 4, 7]) = [4, 4, 7]"
  by (rule versions_from_values_correct) simp

text \<open>The ids given to a fragment's rows when it gets the next ones.\<close>

lemma decode_encode_range:
  assumes "unat start + unat count < 2 ^ 64" and "count \<le> 2 ^ 40"
  shows "decode_sequence (encode_sequence (range_seq start count)) = Inr (from_values (u64_range start (start + count)))"
proof -
  have "unat (start + count) = unat start + unat count" using assms(1) by (rule unat_plus_u64)
  then have "start \<le> start + count" by (simp add: word_le_nat_alt)
  then have "decode_segment (segment_range start (start + count)) [] = Inr (u64_range start (start + count))"
    using decode_segment_range [of start "start + count" "[]"] assms(2) by simp
  then show ?thesis
    using length_segment_range [of start "start + count"] decode_one_segment
    by (simp add: encode_sequence_def range_seq_def)
qed

end
