(* ===== verification/Std_Map.thy ===== *)
theory Std_Map
  imports Prelude "HOL-Library.List_Lexorder" "HOL-Library.Char_ord"
begin

text \<open>
  \<open>std::map\<close>: the entries in the order of their keys, which is the order a loop over the map sees them in.
  A string is compared by its characters as unsigned bytes.
\<close>

type_synonym ('k, 'v) std_map = "('k \<times> 'v) list"

text \<open>\<open>m[k] = v\<close>, \<open>m.erase(k)\<close> and \<open>m.insert({k, v})\<close>, which keeps an entry that is there.\<close>

fun map_put :: "'k::linorder \<Rightarrow> 'v \<Rightarrow> ('k, 'v) std_map \<Rightarrow> ('k, 'v) std_map" where
  "map_put k v [] = [(k, v)]"
| "map_put k v ((k', v') # m) =
     (if k < k' then (k, v) # (k', v') # m
      else if k = k' then (k, v) # m
      else (k', v') # map_put k v m)"

definition map_erase :: "'k \<Rightarrow> ('k, 'v) std_map \<Rightarrow> ('k, 'v) std_map" where
  "map_erase k m = filter (\<lambda>(k', _). k' \<noteq> k) m"

definition map_insert :: "'k::linorder \<Rightarrow> 'v \<Rightarrow> ('k, 'v) std_map \<Rightarrow> ('k, 'v) std_map" where
  "map_insert k v m = (if map_of m k = None then map_put k v m else m)"

definition map_ok :: "('k::linorder, 'v) std_map \<Rightarrow> bool" where
  "map_ok m \<longleftrightarrow> sorted_wrt (<) (map fst m)"

lemma map_of_put [simp]: "map_of (map_put k v m) = (map_of m)(k \<mapsto> v)"
  by (induction m) auto

lemma map_of_erase [simp]: "map_of (map_erase k m) = (map_of m)(k := None)"
  by (induction m) (auto simp: map_erase_def)

lemma map_of_insert: "map_of (map_insert k v m) = (if map_of m k = None then (map_of m)(k \<mapsto> v) else map_of m)"
  by (simp add: map_insert_def)

lemma map_ok_Nil [simp, intro]: "map_ok []"
  by (simp add: map_ok_def)

lemma map_ok_Cons: "map_ok (e # m) \<longleftrightarrow> map_ok m \<and> (\<forall>k' \<in> fst ` set m. fst e < k')"
  by (auto simp: map_ok_def)

lemma keys_put [simp]: "fst ` set (map_put k v m) = insert k (fst ` set m)"
proof (induction m)
  case (Cons e m)
  then show ?case by (cases e) (simp add: insert_commute)
qed simp

lemma map_ok_put [intro]: "map_ok m \<Longrightarrow> map_ok (map_put k v m)"
proof (induction m)
  case (Cons e m)
  then show ?case
    by (cases e) (fastforce simp: map_ok_Cons simp del: ball_simps dest: order.strict_trans)
qed (simp add: map_ok_def)

lemma map_ok_erase [intro]: "map_ok m \<Longrightarrow> map_ok (map_erase k m)"
  unfolding map_ok_def map_erase_def by (induction m) (auto simp: sorted_wrt_append)

lemma map_ok_insert [intro]: "map_ok m \<Longrightarrow> map_ok (map_insert k v m)"
  by (auto simp: map_insert_def)

lemma map_ok_distinct: "map_ok m \<Longrightarrow> distinct (map fst m)"
  unfolding map_ok_def by (rule strict_sorted_iff [THEN iffD1, THEN conjunct2])

text \<open>A map is determined by its lookups.\<close>

lemma map_ok_eqI:
  "map_ok a \<Longrightarrow> map_ok b \<Longrightarrow> map_of a = map_of b \<Longrightarrow> a = b"
proof (induction a arbitrary: b)
  case Nil
  then show ?case by (metis empty_eq_map_of_iff map_of.simps(1))
next
  case (Cons e a)
  obtain k v where e: "e = (k, v)" by (cases e)
  then have found: "map_of b k = Some v"
    using fun_cong [OF Cons.prems(3), of k] by simp
  then obtain k' v' b' where b: "b = (k', v') # b'" by (cases b) auto
  have below: "\<forall>x \<in> fst ` set a. k < x" "\<forall>x \<in> fst ` set b'. k' < x"
    using Cons.prems e b by (auto simp: map_ok_Cons)
  have "map_of ((k, v) # a) k' = Some v'"
    using fun_cong [OF Cons.prems(3), of k'] e b by simp
  with found b below have k: "k' = k" "v' = v"
    by (auto split: if_splits dest!: map_of_SomeD dest: order.strict_trans)
      (metis fst_conv image_eqI less_asym)+
  have "k \<notin> fst ` set a" "k \<notin> fst ` set b'" using below k by auto
  then have "map_of a k = None" "map_of b' k = None" by (simp_all add: map_of_eq_None_iff)
  then have "map_of a x = map_of b' x" for x
    using fun_cong [OF Cons.prems(3), of x] e b k by (cases "x = k") auto
  then have "a = b'" using Cons.IH [of b'] Cons.prems b by (auto simp: map_ok_Cons)
  with e b k show ?case by simp
qed

end
