(* ===== verification/Manifest.thy ===== *)
theory Manifest
  imports Std_Map
begin

text \<open>
  The manifest of a dataset version as \<open>src/generated/lance_minimal.pb.hpp\<close> declares it, and a
  transaction's operation as \<open>src/src/table/dataset_operation.hpp\<close> does. Signed 32-bit ids (field
  ids, of which only comparisons are taken) are \<open>int\<close>; a \<open>std::map\<close> is a \<open>std_map\<close>. The
  \<open>new_\<close> constants are the structs' default member values.
\<close>

subsection \<open>Data files, fragments, indices\<close>

record data_file =
  df_path :: string
  df_fields :: "int list"
  df_column_indices :: "int list"
  df_major :: u32
  df_minor :: u32
  df_size :: u64
  df_unknown :: "byte list"

record deletion_file =
  del_present :: bool
  del_type :: u32
  del_read_version :: u64
  del_id :: u64
  del_num_rows :: u64
  del_unknown :: "byte list"

definition no_deletion_file :: deletion_file where
  "no_deletion_file = \<lparr>del_present = False, del_type = 0, del_read_version = 0, del_id = 0,
     del_num_rows = 0, del_unknown = []\<rparr>"

record data_fragment =
  fr_id :: u64
  fr_files :: "data_file list"
  fr_rows :: u64
  fr_deletion :: deletion_file
  fr_unknown :: "byte list"

definition new_fragment :: data_fragment where
  "new_fragment = \<lparr>fr_id = 0, fr_files = [], fr_rows = 0, fr_deletion = no_deletion_file, fr_unknown = []\<rparr>"

record index_metadata =
  ix_raw :: "byte list"
  ix_fields :: "int list"
  ix_name :: string
  ix_dataset_version :: u64
  ix_has_bitmap :: bool
  ix_fragment_ids :: "u32 list"
  ix_bitmap_changed :: bool
  ix_uuid :: "byte list"
  ix_details_type_url :: string
  ix_details_value :: "byte list"
  ix_version :: u32
  ix_created_at :: u64
  ix_files :: "(string \<times> u64) list"

definition new_index :: index_metadata where
  "new_index = \<lparr>ix_raw = [], ix_fields = [], ix_name = [], ix_dataset_version = 0, ix_has_bitmap = False,
     ix_fragment_ids = [], ix_bitmap_changed = False, ix_uuid = replicate 16 0, ix_details_type_url = [],
     ix_details_value = [], ix_version = 0, ix_created_at = 0, ix_files = []\<rparr>"

record pb_field =
  pf_name :: string
  pf_logical_type :: string
  pf_id :: int
  pf_parent_id :: int
  pf_type :: int
  pf_nullable :: bool
  pf_encoding :: int
  pf_metadata :: "(string, byte list) std_map"
  pf_primary_key :: bool
  pf_primary_key_position :: u32
  pf_clustering_key_position :: u32
  pf_unknown :: "byte list"

subsection \<open>The manifest\<close>

text \<open>What a commit says of itself, for its transaction file (\<open>Manifest::Operation\<close>).\<close>

datatype commit_tag = DeriveTag | AppendTag | OverwriteTag | RestoreTag | RewriteTag | UpdateTag | ReserveTag

text \<open>The members from \<open>m_operation\<close> on are not on the wire.\<close>

record manifest =
  m_fields :: "pb_field list"
  m_fragments :: "data_fragment list"
  m_version :: u64
  m_file_format :: string
  m_format_version :: string
  m_has_max_fragment_id :: bool
  m_max_fragment_id :: u32
  m_schema_metadata :: "(string, byte list) std_map"
  m_has_timestamp :: bool
  m_timestamp_seconds :: int
  m_timestamp_nanos :: int
  m_tag :: string
  m_reader_flags :: u64
  m_writer_flags :: u64
  m_transaction_file :: string
  m_writer_library :: string
  m_writer_version :: string
  m_next_row_id :: u64
  m_config :: "(string, string) std_map"
  m_table_metadata :: "(string, string) std_map"
  m_has_index_section :: bool
  m_index_section :: u64
  m_indices :: "index_metadata list"
  m_has_transaction_section :: bool
  m_transaction_section :: u64
  m_index_section_error :: string
  m_unknown :: "byte list"
  m_operation :: commit_tag
  m_restored_version :: u64
  m_first_new_fragment :: nat
  m_reserved_fragments :: u32
  m_explicit_operation_field :: u32
  m_explicit_operation :: "byte list"
  m_explicit_read_version :: u64
  m_transaction_properties :: "(string, string) std_map"

definition new_manifest :: manifest where
  "new_manifest = \<lparr>m_fields = [], m_fragments = [], m_version = 0, m_file_format = [],
     m_format_version = [], m_has_max_fragment_id = False, m_max_fragment_id = 0,
     m_schema_metadata = [], m_has_timestamp = False, m_timestamp_seconds = 0, m_timestamp_nanos = 0,
     m_tag = [], m_reader_flags = 0, m_writer_flags = 0, m_transaction_file = [], m_writer_library = [],
     m_writer_version = [], m_next_row_id = 0, m_config = [], m_table_metadata = [],
     m_has_index_section = False, m_index_section = 0, m_indices = [], m_has_transaction_section = False,
     m_transaction_section = 0, m_index_section_error = [], m_unknown = [], m_operation = DeriveTag,
     m_restored_version = 0, m_first_new_fragment = 0, m_reserved_fragments = 0,
     m_explicit_operation_field = 0, m_explicit_operation = [], m_explicit_read_version = 0,
     m_transaction_properties = []\<rparr>"

definition kFlagDeletionFiles :: u64 where "kFlagDeletionFiles = push_bit 0 1"
definition kFlagStableRowIds :: u64 where "kFlagStableRowIds = push_bit 1 1"

definition stable_row_ids :: "manifest \<Rightarrow> bool" where
  "stable_row_ids m = (m_reader_flags m AND kFlagStableRowIds \<noteq> 0)"

subsection \<open>Operations\<close>

datatype kind =
    Append | Delete | Overwrite | CreateIndex | Rewrite | Merge | Restore | ReserveFragments
  | Update | Project | UpdateConfig | DataReplacement | UpdateBases | DataOverlay
  | Clone | Other u32

fun kind_of :: "u32 \<Rightarrow> kind" where
  "kind_of n =
     (if n = 100 then Append else if n = 101 then Delete else if n = 102 then Overwrite
      else if n = 103 then CreateIndex else if n = 104 then Rewrite else if n = 105 then Merge
      else if n = 106 then Restore else if n = 107 then ReserveFragments else if n = 108 then Update
      else if n = 109 then Project else if n = 110 then UpdateConfig
      else if n = 111 then DataReplacement else if n = 113 then Clone
      else if n = 114 then UpdateBases else if n = 115 then DataOverlay else Other n)"

fun operation_name :: "kind \<Rightarrow> string" where
  "operation_name Append = ''Append''"
| "operation_name Delete = ''Delete''"
| "operation_name Overwrite = ''Overwrite''"
| "operation_name CreateIndex = ''CreateIndex''"
| "operation_name Rewrite = ''Rewrite''"
| "operation_name Merge = ''Merge''"
| "operation_name Restore = ''Restore''"
| "operation_name ReserveFragments = ''ReserveFragments''"
| "operation_name Update = ''Update''"
| "operation_name Project = ''Project''"
| "operation_name UpdateConfig = ''UpdateConfig''"
| "operation_name DataReplacement = ''DataReplacement''"
| "operation_name UpdateBases = ''UpdateBases''"
| "operation_name DataOverlay = ''DataOverlay''"
| "operation_name _ = ''an operation''"

record update_map =
  um_entries :: "(string \<times> string option) list"
  um_replace :: bool

definition apply_update_map ::
  "(string \<Rightarrow> 'v) \<Rightarrow> (string, 'v) std_map \<Rightarrow> update_map \<Rightarrow> (string, 'v) std_map" where
  "apply_update_map convert target u =
     foldl (\<lambda>m (key, v). case v of Some x \<Rightarrow> map_put key (convert x) m | None \<Rightarrow> map_erase key m)
       (if um_replace u then [] else target) (um_entries u)"

record rewrite_group =
  rg_old :: "data_fragment list"
  rg_new :: "data_fragment list"

record rewritten_index =
  ri_old_id :: "byte list"
  ri_new_id :: "byte list"
  ri_details_type_url :: string
  ri_details_value :: "byte list"
  ri_index_version :: u32

record operation =
  op_kind :: kind
  op_fragments :: "data_fragment list"
  op_updated_fragments :: "data_fragment list"
  op_removed_ids :: "u64 list"
  op_has_schema :: bool
  op_schema :: "pb_field list"
  op_has_schema_metadata :: bool
  op_schema_metadata :: "(string, byte list) std_map"
  op_config_upserts :: "(string, string) std_map"
  op_initial_bases :: "byte list list"
  op_fields_modified :: "u64 list"
  op_rewrite_columns :: bool
  op_updated_fragment_offsets :: "(u64 \<times> byte list) list"
  op_groups :: "rewrite_group list"
  op_rewritten_indices :: "rewritten_index list"
  op_restore_version :: u64
  op_reserve :: u64
  op_config_updates :: "update_map option"
  op_table_metadata_updates :: "update_map option"
  op_schema_metadata_updates :: "update_map option"
  op_field_metadata_updates :: "(int, update_map) std_map"
  op_replacements :: "(u64 \<times> data_file) list"
  op_new_bases :: "byte list list"
  op_overlay_groups :: "(u64 \<times> byte list list) list"
  op_new_indices :: "index_metadata list"
  op_removed_indices :: "index_metadata list"
  op_preserves_nullability :: bool

definition new_operation :: "kind \<Rightarrow> operation" where
  "new_operation k = \<lparr>op_kind = k, op_fragments = [], op_updated_fragments = [], op_removed_ids = [],
     op_has_schema = False, op_schema = [], op_has_schema_metadata = False,
     op_schema_metadata = [], op_config_upserts = [], op_initial_bases = [],
     op_fields_modified = [], op_rewrite_columns = False, op_updated_fragment_offsets = [],
     op_groups = [], op_rewritten_indices = [], op_restore_version = 0, op_reserve = 0,
     op_config_updates = None, op_table_metadata_updates = None, op_schema_metadata_updates = None,
     op_field_metadata_updates = [], op_replacements = [], op_new_bases = [], op_overlay_groups = [],
     op_new_indices = [], op_removed_indices = [], op_preserves_nullability = False\<rparr>"

lemma apply_update_map_lookup:
  "map_of (apply_update_map convert target u) k =
     (case map_of (rev (um_entries u)) k of
        Some v \<Rightarrow> map_option convert v
      | None \<Rightarrow> if um_replace u then None else map_of target k)"
proof -
  have "map_of (foldl (\<lambda>m (key, v). case v of Some x \<Rightarrow> map_put key (convert x) m | None \<Rightarrow> map_erase key m) m es) k =
      (case map_of (rev es) k of Some v \<Rightarrow> map_option convert v | None \<Rightarrow> map_of m k)" for m es
  proof (induction es rule: rev_induct)
    case (snoc e es)
    obtain key v where "e = (key, v)" by (cases e)
    with snoc show ?case by (cases v) simp_all
  qed simp
  then show ?thesis by (cases "um_replace u") (simp_all add: apply_update_map_def split: option.split)
qed

lemma apply_update_map_ok: "map_ok target \<Longrightarrow> map_ok (apply_update_map convert target u)"
proof -
  have "map_ok (foldl (\<lambda>m (key, v). case v of Some x \<Rightarrow> map_put key (convert x) m | None \<Rightarrow> map_erase key m) m es)"
    if "map_ok m" for m and es :: "(string \<times> string option) list"
    using that
  proof (induction es rule: rev_induct)
    case (snoc e es)
    obtain key v where "e = (key, v)" by (cases e)
    with snoc show ?case by (cases v) auto
  qed simp
  then show "map_ok target \<Longrightarrow> ?thesis" by (simp add: apply_update_map_def)
qed

end
