(* ===== verification/Row_Meta.thy ===== *)
theory Row_Meta
  imports Row_Id_Sequence Manifest
begin

text \<open>
  The row metadata of a fragment (\<open>src/src/table/row_ids.cpp\<close>): the row id and row version
  sequences kept as fields 5, 7 and 9 of the fragment's unknown bytes, beside whatever else those
  bytes hold.
\<close>

subsection \<open>Reading and writing\<close>

record row_meta =
  rm_has_row_ids :: bool
  rm_row_ids :: "byte list"
  rm_has_last_updated :: bool
  rm_last_updated :: "byte list"
  rm_has_created :: bool
  rm_created :: "byte list"
  rm_external :: bool

definition no_row_meta :: row_meta where
  "no_row_meta = \<lparr>rm_has_row_ids = False, rm_row_ids = [], rm_has_last_updated = False,
     rm_last_updated = [], rm_has_created = False, rm_created = [], rm_external = False\<rparr>"

definition meta_step :: "row_meta \<Rightarrow> field \<Rightarrow> row_meta" where
  "meta_step out f =
     (if f_number f = 5 then out\<lparr>rm_has_row_ids := True, rm_row_ids := data_of f\<rparr>
      else if f_number f = 7 then out\<lparr>rm_has_last_updated := True, rm_last_updated := data_of f\<rparr>
      else if f_number f = 9 then out\<lparr>rm_has_created := True, rm_created := data_of f\<rparr>
      else if f_number f = 6 \<or> f_number f = 8 \<or> f_number f = 10 then out\<lparr>rm_external := True\<rparr>
      else out)"

definition read_fragment_row_meta :: "data_fragment \<Rightarrow> row_meta result" where
  "read_fragment_row_meta fragment =
     (let (fs, ok) = read_fields reader_next empty_field (fr_unknown fragment) in
      if \<not> ok then Inl ''malformed fragment row metadata'' else Inr (foldl meta_step no_row_meta fs))"

definition without_fields :: "byte list \<Rightarrow> u32 list \<Rightarrow> byte list" where
  "without_fields unknown nums =
     concat (map f_raw (filter (\<lambda>f. f_number f \<notin> set nums)
       (fst (read_fields reader_next empty_field unknown))))"

definition clear_fragment_row_meta :: "data_fragment \<Rightarrow> data_fragment" where
  "clear_fragment_row_meta fragment =
     fragment\<lparr>fr_unknown := without_fields (fr_unknown fragment) [5, 6, 7, 8, 9, 10]\<rparr>"

definition write_fragment_row_meta :: "data_fragment \<Rightarrow> row_meta \<Rightarrow> data_fragment" where
  "write_fragment_row_meta fragment meta =
     (let cleared = clear_fragment_row_meta fragment in
      cleared\<lparr>fr_unknown := fr_unknown cleared
        @ (if rm_has_row_ids meta then put_bytes_field 5 (rm_row_ids meta) else [])
        @ (if rm_has_last_updated meta then put_bytes_field 7 (rm_last_updated meta) else [])
        @ (if rm_has_created meta then put_bytes_field 9 (rm_created meta) else [])\<rparr>)"

definition fragment_row_ids :: "data_fragment \<Rightarrow> row_id_sequence result" where
  "fragment_row_ids fragment =
     sbind (read_fragment_row_meta fragment) (\<lambda>meta.
     if rm_external meta then Inl ''row ids stored in an external file are not supported''
     else if \<not> rm_has_row_ids meta then
       Inl (''fragment '' @ to_string (unat (fr_id fragment)) @ '' has no row ids'')
     else sbind (decode_sequence (rm_row_ids meta)) (\<lambda>ids.
       if seq_size ids \<noteq> fr_rows fragment then
         Inl (''fragment '' @ to_string (unat (fr_id fragment)) @ '' has '' @ to_string (unat (fr_rows fragment)) @
              '' rows but '' @ to_string (unat (seq_size ids)) @ '' row ids'')
       else Inr ids))"

subsection \<open>Round trip\<close>

text \<open>What a reader sees of a \<open>FragmentRowMeta\<close>: the bytes of a part it does not have are not kept.\<close>

definition meta_view :: "row_meta \<Rightarrow> row_meta" where
  "meta_view meta = \<lparr>rm_has_row_ids = rm_has_row_ids meta,
     rm_row_ids = (if rm_has_row_ids meta then rm_row_ids meta else []),
     rm_has_last_updated = rm_has_last_updated meta,
     rm_last_updated = (if rm_has_last_updated meta then rm_last_updated meta else []),
     rm_has_created = rm_has_created meta,
     rm_created = (if rm_has_created meta then rm_created meta else []),
     rm_external = False\<rparr>"

lemma without_fields_drop: "without_fields u nums = drop_fields (\<lambda>n. n \<in> set nums) u"
  by (simp add: without_fields_def drop_fields_def)

abbreviation row_meta_fields :: "u32 list" where
  "row_meta_fields \<equiv> [5, 6, 7, 8, 9, 10]"

lemma foldl_meta_step_other:
  "\<forall>g \<in> set gs. f_number g \<notin> set row_meta_fields \<Longrightarrow> foldl meta_step m gs = m"
  by (induction gs arbitrary: m) (auto simp: meta_step_def)

lemma read_cleared:
  "\<exists>gs h. read_fields reader_next f (without_fields u row_meta_fields @ t) =
     apfst ((@) gs) (read_fields reader_next h t) \<and> (\<forall>g \<in> set gs. f_number g \<notin> set row_meta_fields) \<and>
     map f_raw gs = map f_raw (filter (\<lambda>f. f_number f \<notin> set row_meta_fields) (fst (read_fields reader_next empty_field u)))"
proof -
  obtain gs h where gs: "read_fields reader_next f (without_fields u row_meta_fields @ t) =
      apfst ((@) gs) (read_fields reader_next h t)"
    "list_all2 same_field gs (filter (\<lambda>f. f_number f \<notin> set row_meta_fields)
       (fst (read_fields reader_next empty_field u)))"
    using read_drop_fields [of f "\<lambda>n. n \<in> set row_meta_fields" u t] unfolding without_fields_drop by blast
  moreover have "\<forall>g \<in> set gs. f_number g \<notin> set row_meta_fields"
    using same_fields_all [OF gs(2), of "\<lambda>n. n \<notin> set row_meta_fields"] by simp
  ultimately show ?thesis using same_fields_raw [OF gs(2)] by blast
qed

text \<open>The three fields a writer appends, read back.\<close>

lemma read_meta_fields:
  assumes "length (rm_row_ids meta) < 2 ^ 64" "length (rm_last_updated meta) < 2 ^ 64" "length (rm_created meta) < 2 ^ 64"
  shows "\<exists>gs. read_fields reader_next f
      ((if rm_has_row_ids meta then put_bytes_field 5 (rm_row_ids meta) else [])
        @ (if rm_has_last_updated meta then put_bytes_field 7 (rm_last_updated meta) else [])
        @ (if rm_has_created meta then put_bytes_field 9 (rm_created meta) else [])) = (gs, True) \<and>
      foldl meta_step no_row_meta gs = meta_view meta \<and> (\<forall>g \<in> set gs. f_number g \<in> set row_meta_fields)"
  using assms
  by (cases "rm_has_row_ids meta"; cases "rm_has_last_updated meta"; cases "rm_has_created meta")
    (simp_all add: codec_simps meta_step_def meta_view_def no_row_meta_def data_of_def)

lemma write_read_row_meta:
  assumes "length (rm_row_ids meta) < 2 ^ 64" "length (rm_last_updated meta) < 2 ^ 64"
    "length (rm_created meta) < 2 ^ 64"
  shows "read_fragment_row_meta (write_fragment_row_meta fragment meta) = Inr (meta_view meta) \<and>
    clear_fragment_row_meta (write_fragment_row_meta fragment meta) = clear_fragment_row_meta fragment"
proof -
  let ?new = "(if rm_has_row_ids meta then put_bytes_field 5 (rm_row_ids meta) else [])
        @ (if rm_has_last_updated meta then put_bytes_field 7 (rm_last_updated meta) else [])
        @ (if rm_has_created meta then put_bytes_field 9 (rm_created meta) else [])"
  obtain gs h where gs: "read_fields reader_next empty_field (without_fields (fr_unknown fragment) row_meta_fields @ ?new) =
      apfst ((@) gs) (read_fields reader_next h ?new)"
    "\<forall>g \<in> set gs. f_number g \<notin> set row_meta_fields"
    "map f_raw gs = map f_raw (filter (\<lambda>f. f_number f \<notin> set row_meta_fields)
       (fst (read_fields reader_next empty_field (fr_unknown fragment))))"
    using read_cleared by blast
  obtain ns where ns: "read_fields reader_next h ?new = (ns, True)"
    "foldl meta_step no_row_meta ns = meta_view meta" "\<forall>g \<in> set ns. f_number g \<in> set row_meta_fields"
    using read_meta_fields [OF assms] by blast
  have all: "read_fields reader_next empty_field (fr_unknown (write_fragment_row_meta fragment meta)) = (gs @ ns, True)"
    using gs(1) ns(1) by (simp add: write_fragment_row_meta_def clear_fragment_row_meta_def Let_def)
  have "filter (\<lambda>f. f_number f \<notin> set row_meta_fields) (gs @ ns) = gs"
    using gs(2) ns(3) by (auto simp: filter_empty_conv)
  then have "without_fields (fr_unknown (write_fragment_row_meta fragment meta)) row_meta_fields =
      without_fields (fr_unknown fragment) row_meta_fields"
    unfolding without_fields_def all using gs(3) by simp
  with all gs(2) ns(2) show ?thesis
    by (simp add: read_fragment_row_meta_def foldl_meta_step_other clear_fragment_row_meta_def
        write_fragment_row_meta_def Let_def)
qed



lemma write_fragment_row_meta_other [simp]:
  "fr_id (write_fragment_row_meta f meta) = fr_id f" "fr_rows (write_fragment_row_meta f meta) = fr_rows f"
  "fr_files (write_fragment_row_meta f meta) = fr_files f" "fr_deletion (write_fragment_row_meta f meta) = fr_deletion f"
  by (simp_all add: write_fragment_row_meta_def clear_fragment_row_meta_def Let_def)

end
