(* ===== verification/Row_Id_Index.thy ===== *)
theory Row_Id_Index
  imports Row_Meta "HOL-Library.Multiset"
begin

text \<open>
  \<open>RowIdIndex\<close>, \<open>AddressToRowId\<close> and \<open>RowIdToAddress\<close> of \<open>src/src/table/row_ids.cpp\<close>: where the row
  of each stable row id is, as fragment id and row offset packed into an address. Reading a
  fragment's deletion file is an argument of the definitions that need it (\<open>read_deleted\<close>).
\<close>

subsection \<open>RowIdIndex\<close>

record run =
  run_first_id :: u64
  run_count :: u64
  run_fragment_id :: u64
  run_first_offset :: u64

record row_id_index =
  by_id :: "u64 \<rightharpoonup> u64"
  index_runs :: "run list"

definition empty_row_id_index :: row_id_index where
  "empty_row_id_index = \<lparr>by_id = Map.empty, index_runs = []\<rparr>"

definition flush :: "u64 \<Rightarrow> u64 \<Rightarrow> u64 \<Rightarrow> u64 \<Rightarrow> run list \<Rightarrow> run list" where
  "flush start fragment_id from to runs =
     (if to > from
      then runs @ [\<lparr>run_first_id = start + from, run_count = to - from,
                    run_fragment_id = fragment_id, run_first_offset = from\<rparr>]
      else runs)"

text \<open>The live stretches between deleted offsets, each a run.\<close>

fun live_runs :: "u64 \<Rightarrow> u64 \<Rightarrow> u64 \<Rightarrow> u64 \<Rightarrow> u32 list \<Rightarrow> run list \<Rightarrow> run list" where
  "live_runs start fragment_id tot from [] runs = flush start fragment_id from tot runs"
| "live_runs start fragment_id tot from (d # deleted) runs =
     (if ucast d \<ge> tot then live_runs start fragment_id tot from deleted runs
      else live_runs start fragment_id tot (ucast d + 1) deleted (flush start fragment_id from (ucast d) runs))"

text \<open>The loop over the rows \<open>i < size\<close> of a sequence that is not a range.\<close>

fun live_ids :: "row_id_sequence \<Rightarrow> u64 \<Rightarrow> nat list \<Rightarrow> u32 list \<Rightarrow> (u64 \<rightharpoonup> u64) \<Rightarrow> (u64 \<rightharpoonup> u64)" where
  "live_ids ids fragment_id [] deleted m = m"
| "live_ids ids fragment_id (i # is) deleted m =
     (let rest = dropWhile (\<lambda>d. unat d < i) deleted in
      if rest \<noteq> [] \<and> unat (hd rest) = i then live_ids ids fragment_id is rest m
      else live_ids ids fragment_id is rest
        (m(seq_at ids (of_nat i) \<mapsto> (push_bit 32 fragment_id OR of_nat i))))"

definition index_fragment ::
  "(data_fragment \<Rightarrow> u32 list result) \<Rightarrow> row_id_index \<Rightarrow> data_fragment \<Rightarrow> row_id_index result" where
  "index_fragment read_deleted out fragment =
     sbind (fragment_row_ids fragment) (\<lambda>ids.
     sbind (if del_present (fr_deletion fragment) then read_deleted fragment else Inr []) (\<lambda>deleted.
     case is_range ids of
       Some start \<Rightarrow> Inr (out\<lparr>index_runs :=
         live_runs start (fr_id fragment) (seq_size ids) 0 deleted (index_runs out)\<rparr>)
     | None \<Rightarrow> Inr (out\<lparr>by_id :=
         live_ids ids (fr_id fragment) [0..<unat (seq_size ids)] deleted (by_id out)\<rparr>)))"

definition build_row_id_index ::
  "(data_fragment \<Rightarrow> u32 list result) \<Rightarrow> manifest \<Rightarrow> row_id_index result" where
  "build_row_id_index read_deleted m =
     sbind (sfold (index_fragment read_deleted) empty_row_id_index (m_fragments m)) (\<lambda>out.
       Inr (out\<lparr>index_runs := sort_key run_first_id (index_runs out)\<rparr>))"

text \<open>\<open>std::upper_bound\<close> over the runs sorted by first id: the runs before it are those whose first
  id is not above the id looked for.\<close>

definition find_row_id :: "row_id_index \<Rightarrow> u64 \<Rightarrow> u64 option" where
  "find_row_id index row_id =
     (let prior = takeWhile (\<lambda>r. \<not> row_id < run_first_id r) (index_runs index) in
      if prior \<noteq> [] \<and> row_id - run_first_id (last prior) < run_count (last prior) then
        let it = last prior in
        Some (push_bit 32 (run_fragment_id it) OR (run_first_offset it + (row_id - run_first_id it)))
      else by_id index row_id)"


subsection \<open>AddressToRowId and RowIdToAddress\<close>

record address_to_row_id =
  a2r_stable :: bool
  a2r_by_fragment :: "u64 \<rightharpoonup> row_id_sequence"

definition emplace :: "('k \<rightharpoonup> 'v) \<Rightarrow> 'k \<Rightarrow> 'v \<Rightarrow> ('k \<rightharpoonup> 'v)" where
  "emplace m k v = (if m k = None then m(k \<mapsto> v) else m)"

definition build_address_to_row_id :: "manifest \<Rightarrow> address_to_row_id result" where
  "build_address_to_row_id m =
     (if \<not> stable_row_ids m then Inr \<lparr>a2r_stable = False, a2r_by_fragment = Map.empty\<rparr>
      else sbind (sfold (\<lambda>by_fragment fragment.
             sbind (fragment_row_ids fragment) (\<lambda>ids. Inr (emplace by_fragment (fr_id fragment) ids)))
           Map.empty (m_fragments m))
        (\<lambda>by_fragment. Inr \<lparr>a2r_stable = True, a2r_by_fragment = by_fragment\<rparr>))"

definition row_id_at :: "address_to_row_id \<Rightarrow> u64 \<Rightarrow> u64" where
  "row_id_at a2r address =
     (if \<not> a2r_stable a2r then address
      else case a2r_by_fragment a2r (drop_bit 32 address) of
        Some ids \<Rightarrow> (let offset = address AND 0xFFFFFFFF in
          if offset < seq_size ids then seq_at ids offset else address)
      | None \<Rightarrow> address)"

record row_id_to_address =
  r2a_stable :: bool
  r2a_index :: row_id_index

definition build_row_id_to_address ::
  "(data_fragment \<Rightarrow> u32 list result) \<Rightarrow> manifest \<Rightarrow> row_id_to_address result" where
  "build_row_id_to_address read_deleted m =
     (if \<not> stable_row_ids m then Inr \<lparr>r2a_stable = False, r2a_index = empty_row_id_index\<rparr>
      else sbind (build_row_id_index read_deleted m) (\<lambda>index.
        Inr \<lparr>r2a_stable = True, r2a_index = index\<rparr>))"

definition find_address :: "row_id_to_address \<Rightarrow> u64 \<Rightarrow> u64 option" where
  "find_address r2a row_id =
     (if \<not> r2a_stable r2a then Some row_id else find_row_id (r2a_index r2a) row_id)"

subsection \<open>resolve_row_ids and row_versions_at\<close>

text \<open>Both take the manifest the caller's version names; loading it is not modelled. The caches
  of deletion files and of version sequences hold what reading them again would give.\<close>

definition find_fragment :: "u64 \<Rightarrow> data_fragment list \<Rightarrow> data_fragment option" where
  "find_fragment i fragments = find (\<lambda>f. fr_id f = i) fragments"

definition not_in_dataset :: "u64 \<Rightarrow> string" where
  "not_in_dataset i = ''row id '' @ to_string (unat i) @ '' is not in the dataset''"

text \<open>The address of one id, \<open>None\<close> when the id is left out.\<close>

definition resolve_row_id ::
  "(data_fragment \<Rightarrow> u32 list result) \<Rightarrow> manifest \<Rightarrow> row_id_index \<Rightarrow> bool \<Rightarrow> bool \<Rightarrow> u64 \<Rightarrow> u64 option result" where
  "resolve_row_id read_deleted m index skip_missing skip_deleted i =
     (case (if stable_row_ids m then find_row_id index i else Some i) of
        None \<Rightarrow> if skip_missing then Inr None else Inl (not_in_dataset i)
      | Some address \<Rightarrow>
          (case find_fragment (drop_bit 32 address) (m_fragments m) of
             None \<Rightarrow> if skip_missing then Inr None else Inl (not_in_dataset i)
           | Some fragment \<Rightarrow>
               let offset = address AND 0xFFFFFFFF in
               if offset \<ge> fr_rows fragment then
                 if skip_missing then Inr None else Inl (not_in_dataset i)
               else if del_present (fr_deletion fragment) then
                 sbind (read_deleted fragment) (\<lambda>deleted.
                   if ucast offset \<in> set deleted then
                     if skip_missing \<or> skip_deleted then Inr None
                     else Inl (not_in_dataset i @ '' (its row was deleted)'')
                   else Inr (Some address))
               else Inr (Some address)))"

definition resolve_row_ids ::
  "(data_fragment \<Rightarrow> u32 list result) \<Rightarrow> manifest \<Rightarrow> u64 list \<Rightarrow> bool \<Rightarrow> bool \<Rightarrow> u64 list result" where
  "resolve_row_ids read_deleted m ids skip_missing skip_deleted =
     sbind (if stable_row_ids m then build_row_id_index read_deleted m else Inr empty_row_id_index) (\<lambda>index.
     sfold (\<lambda>addresses i.
        sbind (resolve_row_id read_deleted m index skip_missing skip_deleted i) (\<lambda>a.
          Inr (case a of None \<Rightarrow> addresses | Some address \<Rightarrow> addresses @ [address])))
       [] ids)"

definition fragment_versions :: "manifest \<Rightarrow> u64 \<Rightarrow> (u64 list \<times> u64 list) result" where
  "fragment_versions m fragment_id =
     (case find_fragment fragment_id (m_fragments m) of
        None \<Rightarrow> Inr ([], [])
      | Some fragment \<Rightarrow>
          sbind (read_fragment_row_meta fragment) (\<lambda>meta.
          sbind (if rm_has_created meta
                 then sbind (decode_versions (rm_created meta)) (\<lambda>seq. Inr (versions_to_vector seq))
                 else Inr []) (\<lambda>created.
          sbind (if rm_has_last_updated meta
                 then sbind (decode_versions (rm_last_updated meta)) (\<lambda>seq. Inr (versions_to_vector seq))
                 else Inr []) (\<lambda>updated.
          Inr (created, updated)))))"

definition version_or_1 :: "u64 list \<Rightarrow> nat \<Rightarrow> u64" where
  "version_or_1 versions offset = (if offset < length versions then versions ! offset else 1)"

definition row_versions_at :: "manifest \<Rightarrow> u64 list \<Rightarrow> (u64 list \<times> u64 list) result" where
  "row_versions_at m addresses =
     sfold (\<lambda>(created, last_updated) address.
       sbind (fragment_versions m (drop_bit 32 address)) (\<lambda>(c, u).
         let offset = unat (address AND 0xFFFFFFFF) in
         Inr (created @ [version_or_1 c offset], last_updated @ [version_or_1 u offset])))
       ([], []) addresses"

subsection \<open>The live rows of a fragment\<close>

definition live_offsets :: "u32 list \<Rightarrow> nat list \<Rightarrow> nat list" where
  "live_offsets deleted is = filter (\<lambda>i. i \<notin> unat ` set deleted) is"

definition row_address :: "u64 \<Rightarrow> nat \<Rightarrow> u64" where
  "row_address fragment_id i = push_bit 32 fragment_id OR of_nat i"

definition live_rows :: "row_id_sequence \<Rightarrow> u64 \<Rightarrow> u32 list \<Rightarrow> (u64 \<times> u64) list" where
  "live_rows ids fragment_id deleted =
     map (\<lambda>i. (seq_at ids (of_nat i), row_address fragment_id i)) (live_offsets deleted [0..<unat (seq_size ids)])"

lemma live_ids_rows:
  "sorted_wrt (<) is \<Longrightarrow> sorted_wrt (<) deleted \<Longrightarrow>
   live_ids ids fragment_id is deleted m =
     m ++ map_of (rev (map (\<lambda>i. (seq_at ids (of_nat i), row_address fragment_id i)) (live_offsets deleted is)))"
proof (induction "is" arbitrary: deleted m)
  case (Cons i "is")
  let ?rest = "dropWhile (\<lambda>d. unat d < i) deleted"
  have dropped: "\<forall>d \<in> set deleted. d \<in> set ?rest \<or> unat d < i"
    by (metis (mono_tags, lifting) Un_iff set_append set_takeWhileD takeWhile_dropWhile_id)
  have "sorted_wrt (<) (takeWhile (\<lambda>d. unat d < i) deleted @ ?rest)" using Cons.prems(2) by simp
  then have srt: "sorted_wrt (<) ?rest" unfolding sorted_wrt_append by blast
  have ge: "\<forall>d \<in> set ?rest. i \<le> unat d"
  proof (cases ?rest)
    case (Cons r rs)
    then have "\<not> unat r < i" by (metis (mono_tags, lifting) dropWhile_eq_Cons_conv)
    with Cons srt show ?thesis by (auto simp: word_less_nat_alt)
  next
    case Nil
    then show ?thesis by (metis empty_iff list.set(1))
  qed
  have hit: "?rest \<noteq> [] \<and> unat (hd ?rest) = i \<longleftrightarrow> i \<in> unat ` set deleted"
  proof
    assume "i \<in> unat ` set deleted"
    then obtain d where d: "d \<in> set ?rest" "unat d = i" using dropped by force
    then show "?rest \<noteq> [] \<and> unat (hd ?rest) = i"
      using srt ge by (cases ?rest) (force simp: word_less_nat_alt)+
  next
    assume "?rest \<noteq> [] \<and> unat (hd ?rest) = i"
    then show "i \<in> unat ` set deleted"
      by (metis hd_in_set image_eqI set_dropWhileD)
  qed
  have later: "live_offsets ?rest is = live_offsets deleted is"
    unfolding live_offsets_def
  proof (rule filter_cong [OF refl])
    fix j assume "j \<in> set is"
    then have "i < j" using Cons.prems(1) by simp
    then show "j \<notin> unat ` set ?rest \<longleftrightarrow> j \<notin> unat ` set deleted"
      using dropped by (force dest: set_dropWhileD)
  qed
  have IH: "live_ids ids fragment_id is ?rest m = m ++
       map_of (rev (map (\<lambda>i. (seq_at ids (of_nat i), row_address fragment_id i)) (live_offsets deleted is)))" for m
    using Cons.IH [of ?rest m] Cons.prems(1) srt by (simp add: later)
  have "m(k \<mapsto> a) ++ n = m ++ ([k \<mapsto> a] ++ n)" for m :: "u64 \<rightharpoonup> u64" and k a n
    by (simp add: map_add_assoc [symmetric])
  then show ?case
    using hit unfolding live_ids.simps Let_def IH
    by (simp add: live_offsets_def row_address_def map_of_append)
qed (simp add: live_offsets_def)

text \<open>The rows of a run.\<close>

definition run_rows :: "run \<Rightarrow> (u64 \<times> u64) list" where
  "run_rows r = map (\<lambda>k. (run_first_id r + of_nat k,
     push_bit 32 (run_fragment_id r) OR (run_first_offset r + of_nat k))) [0..<unat (run_count r)]"

definition range_rows :: "u64 \<Rightarrow> u64 \<Rightarrow> nat list \<Rightarrow> (u64 \<times> u64) list" where
  "range_rows start fragment_id is = map (\<lambda>i. (start + of_nat i, row_address fragment_id i)) is"

lemma flush_rows:
  "concat (map run_rows (flush start fragment_id from to runs)) =
     concat (map run_rows runs) @ range_rows start fragment_id [unat from..<unat to]"
proof (cases "from < to")
  case True
  then have n: "unat (to - from) = unat to - unat from" by (intro unat_sub) simp
  have "map (\<lambda>k. (start + from + of_nat k, push_bit 32 fragment_id OR (from + of_nat k))) [0..<unat to - unat from] =
      range_rows start fragment_id [unat from..<unat to]"
    unfolding range_rows_def row_address_def
    by (rule nth_equalityI) (simp_all add: algebra_simps)
  with True n show ?thesis by (simp add: flush_def run_rows_def algebra_simps)
next
  case False
  then show ?thesis by (simp add: flush_def range_rows_def word_less_nat_alt)
qed

lemma live_runs_rows:
  "sorted_wrt (<) deleted \<Longrightarrow> \<forall>d \<in> set deleted. unat from \<le> unat d \<Longrightarrow>
   concat (map run_rows (live_runs start fragment_id tot from deleted runs)) =
     concat (map run_rows runs) @ range_rows start fragment_id (live_offsets deleted [unat from..<unat tot])"
proof (induction start fragment_id tot "from" deleted runs rule: live_runs.induct)
  case (1 start fragment_id tot "from" runs)
  then show ?case by (simp add: flush_rows live_offsets_def)
next
  case (2 start fragment_id tot "from" d deleted runs)
  have d: "unat (ucast d :: u64) = unat d"
    by (simp add: unat_ucast_up)
  show ?case
  proof (cases "(ucast d :: u64) \<ge> tot")
    case True
    then have "live_offsets (d # deleted) [unat from..<unat tot] = live_offsets deleted [unat from..<unat tot]"
      unfolding live_offsets_def by (intro filter_cong) (auto simp: word_le_nat_alt d)
    with True 2 show ?thesis by simp
  next
    case False
    then have lt: "unat d < unat tot" by (simp add: word_le_nat_alt d)
    have d1: "unat (ucast d + 1 :: u64) = unat d + 1"
    proof -
      have "unat d + 1 < 2 ^ 64" using unat_u32 [of d] by simp
      then show ?thesis by (simp add: unat_word_ariths d)
    qed
    have "[unat from..<unat tot] = [unat from..<unat d] @ unat d # [unat d + 1..<unat tot]"
      using "2.prems"(2) lt by (metis Suc_eq_plus1 le_add_diff_inverse less_imp_le list.set_intros(1) upt_add_eq_append upt_conv_Cons)
    moreover have "live_offsets (d # deleted) [unat from..<unat d] = [unat from..<unat d]"
      using "2.prems"(1) unfolding live_offsets_def by (force simp: filter_id_conv word_less_nat_alt)
    moreover have "live_offsets (d # deleted) (unat d # [unat d + 1..<unat tot]) =
        live_offsets deleted [unat d + 1..<unat tot]"
      unfolding live_offsets_def by (auto intro: filter_cong)
    ultimately have split: "live_offsets (d # deleted) [unat from..<unat tot] =
        [unat from..<unat d] @ live_offsets deleted [unat d + 1..<unat tot]"
      by (simp add: live_offsets_def)
    have "\<forall>e \<in> set deleted. unat (ucast d + 1 :: u64) \<le> unat e"
      using "2.prems"(1) by (auto simp: d1 word_less_nat_alt Suc_le_eq)
    with 2 False show ?thesis
      by (simp add: flush_rows split d1 d range_rows_def)
  qed
qed


subsection \<open>The index finds every live row\<close>

definition deleted_rows :: "(data_fragment \<Rightarrow> u32 list result) \<Rightarrow> data_fragment \<Rightarrow> u32 list result" where
  "deleted_rows read_deleted fragment =
     (if del_present (fr_deletion fragment) then read_deleted fragment else Inr [])"

definition fragment_rows :: "(data_fragment \<Rightarrow> u32 list result) \<Rightarrow> data_fragment \<Rightarrow> (u64 \<times> u64) list" where
  "fragment_rows read_deleted fragment =
     (case (fragment_row_ids fragment, deleted_rows read_deleted fragment) of
        (Inr ids, Inr deleted) \<Rightarrow> live_rows ids (fr_id fragment) deleted
      | _ \<Rightarrow> [])"

definition dataset_rows :: "(data_fragment \<Rightarrow> u32 list result) \<Rightarrow> manifest \<Rightarrow> (u64 \<times> u64) list" where
  "dataset_rows read_deleted m = concat (map (fragment_rows read_deleted) (m_fragments m))"

definition run_ok :: "run \<Rightarrow> bool" where
  "run_ok r \<longleftrightarrow> 0 < run_count r \<and> unat (run_first_id r) + unat (run_count r) \<le> 2 ^ 64"

text \<open>The index holds exactly the rows \<open>rows\<close>: some in runs, the others (\<open>singles\<close>) one by one.\<close>

definition index_holds :: "row_id_index \<Rightarrow> (u64 \<times> u64) list \<Rightarrow> bool" where
  "index_holds index rows \<longleftrightarrow> (\<exists>singles. by_id index = map_of (rev singles) \<and>
     mset rows = mset (concat (map run_rows (index_runs index))) + mset singles) \<and>
     (\<forall>r \<in> set (index_runs index). run_ok r)"

lemma flush_ok:
  assumes "\<forall>r \<in> set runs. run_ok r" and "unat start + unat to \<le> 2 ^ 64"
  shows "\<forall>r \<in> set (flush start fragment_id from to runs). run_ok r"
proof (cases "from < to")
  case True
  then have "unat (to - from) = unat to - unat from" by (intro unat_sub) simp
  moreover have "unat (start + from) = unat start + unat from"
    using assms(2) True by (simp add: unat_word_ariths word_less_nat_alt)
  ultimately show ?thesis
    using assms True by (auto simp: flush_def run_ok_def word_less_nat_alt)
qed (use assms in \<open>simp add: flush_def\<close>)

lemma live_runs_ok:
  "\<forall>r \<in> set runs. run_ok r \<Longrightarrow> unat start + unat tot \<le> 2 ^ 64 \<Longrightarrow>
   \<forall>r \<in> set (live_runs start fragment_id tot from deleted runs). run_ok r"
proof (induction start fragment_id tot "from" deleted runs rule: live_runs.induct)
  case (2 start fragment_id tot "from" d deleted runs)
  show ?case
  proof (cases "(ucast d :: u64) \<ge> tot")
    case True
    with "2.IH"(1) [OF True "2.prems"] show ?thesis by simp
  next
    case False
    then have "unat start + unat (ucast d :: u64) \<le> 2 ^ 64"
      using "2.prems"(2) by (simp add: word_le_nat_alt)
    with "2.prems"(1) have "\<forall>r \<in> set (flush start fragment_id from (ucast d) runs). run_ok r"
      by (rule flush_ok)
    from "2.IH"(2) [OF False this "2.prems"(2)] False show ?thesis by simp
  qed
qed (simp add: flush_ok)

definition ids_fit :: "row_id_sequence \<Rightarrow> bool" where
  "ids_fit ids \<longleftrightarrow> (compact ids \<longrightarrow> unat (seq_start ids) + unat (seq_count ids) \<le> 2 ^ 64)"

lemma index_fragment_holds:
  assumes "index_holds out rows" and "index_fragment read_deleted out fragment = Inr out'"
    and "\<forall>d. deleted_rows read_deleted fragment = Inr d \<longrightarrow> sorted_wrt (<) d"
    and "\<forall>ids. fragment_row_ids fragment = Inr ids \<longrightarrow> ids_fit ids"
  shows "index_holds out' (rows @ fragment_rows read_deleted fragment)"
proof -
  from assms(2) obtain ids deleted where
    ids: "fragment_row_ids fragment = Inr ids" and d: "deleted_rows read_deleted fragment = Inr deleted"
    and out': "out' = (case is_range ids of
       Some start \<Rightarrow> out\<lparr>index_runs := live_runs start (fr_id fragment) (seq_size ids) 0 deleted (index_runs out)\<rparr>
     | None \<Rightarrow> out\<lparr>by_id := live_ids ids (fr_id fragment) [0..<unat (seq_size ids)] deleted (by_id out)\<rparr>)"
    by (auto simp: index_fragment_def sbind_eq_Inr deleted_rows_def split: option.splits)
  have rows: "fragment_rows read_deleted fragment = live_rows ids (fr_id fragment) deleted"
    by (simp add: fragment_rows_def ids d)
  have srt: "sorted_wrt (<) deleted" using assms(3) d by blast
  obtain singles where s: "by_id out = map_of (rev singles)"
    "mset rows = mset (concat (map run_rows (index_runs out))) + mset singles"
    and ok: "\<forall>r \<in> set (index_runs out). run_ok r"
    using assms(1) by (auto simp: index_holds_def)
  show ?thesis
  proof (cases "compact ids")
    case True
    let ?runs = "live_runs (seq_start ids) (fr_id fragment) (seq_size ids) 0 deleted (index_runs out)"
    have "range_rows (seq_start ids) (fr_id fragment) (live_offsets deleted [0..<unat (seq_size ids)]) =
        live_rows ids (fr_id fragment) deleted"
      using True by (simp add: range_rows_def live_rows_def seq_at_def)
    then have "concat (map run_rows ?runs) = concat (map run_rows (index_runs out)) @ live_rows ids (fr_id fragment) deleted"
      using live_runs_rows [OF srt, of 0 "seq_start ids" "fr_id fragment" "seq_size ids" "index_runs out"] by simp
    moreover have "\<forall>r \<in> set ?runs. run_ok r"
      using ok assms(4) ids True by (intro live_runs_ok) (auto simp: ids_fit_def seq_size_def)
    ultimately show ?thesis
      using True s by (auto simp: index_holds_def out' is_range_def rows intro!: exI [of _ singles])
  next
    case False
    let ?new = "live_rows ids (fr_id fragment) deleted"
    have "live_ids ids (fr_id fragment) [0..<unat (seq_size ids)] deleted (by_id out) = by_id out ++ map_of (rev ?new)"
      unfolding live_rows_def by (rule live_ids_rows) (use srt in simp_all)
    also have "\<dots> = map_of (rev (singles @ ?new))"
      by (simp add: s(1) map_of_append)
    finally show ?thesis
      using False s(2) ok
      by (auto simp: index_holds_def out' is_range_def rows intro!: exI [of _ "singles @ ?new"])
  qed
qed

lemma sfold_index_holds:
  "sfold (index_fragment read_deleted) out fs = Inr out' \<Longrightarrow> index_holds out rows \<Longrightarrow>
   \<forall>f \<in> set fs. (\<forall>d. deleted_rows read_deleted f = Inr d \<longrightarrow> sorted_wrt (<) d) \<and>
     (\<forall>ids. fragment_row_ids f = Inr ids \<longrightarrow> ids_fit ids) \<Longrightarrow>
   index_holds out' (rows @ concat (map (fragment_rows read_deleted) fs))"
proof (induction fs arbitrary: out rows)
  case (Cons f fs)
  then obtain mid where mid: "index_fragment read_deleted out f = Inr mid"
    "sfold (index_fragment read_deleted) mid fs = Inr out'"
    by (auto simp: sbind_eq_Inr)
  have "index_holds mid (rows @ fragment_rows read_deleted f)"
    using index_fragment_holds [OF Cons.prems(2) mid(1)] Cons.prems(3) by simp
  from Cons.IH [OF mid(2) this] Cons.prems(3) show ?case by simp
qed simp

lemma in_run:
  assumes "run_ok r"
  shows "i \<in> fst ` set (run_rows r) \<longleftrightarrow> run_first_id r \<le> i \<and> i - run_first_id r < run_count r"
proof
  assume "i \<in> fst ` set (run_rows r)"
  then obtain k where k: "k < unat (run_count r)" "i = run_first_id r + of_nat k"
    by (auto simp: run_rows_def)
  then have "unat i = unat (run_first_id r) + k"
    using assms unat_u64 [of "run_count r"] by (simp add: run_ok_def unat_word_ariths unat_of_nat)
  moreover have "unat (i - run_first_id r) = k"
    using k unat_u64 [of "run_count r"] by (simp add: unat_of_nat)
  ultimately show "run_first_id r \<le> i \<and> i - run_first_id r < run_count r"
    using k by (simp add: word_le_nat_alt word_less_nat_alt)
next
  assume "run_first_id r \<le> i \<and> i - run_first_id r < run_count r"
  then show "i \<in> fst ` set (run_rows r)"
    by (auto simp: run_rows_def word_less_nat_alt image_image
        intro!: image_eqI [of _ _ "unat (i - run_first_id r)"])
qed


lemma run_row:
  assumes "run_ok r" and "i \<in> fst ` set (run_rows r)"
  shows "(i, push_bit 32 (run_fragment_id r) OR (run_first_offset r + (i - run_first_id r))) \<in> set (run_rows r)"
  using assms(2) by (auto simp: run_rows_def)

text \<open>Looking
 an id up in runs sorted by first id that share no id.\<close>

lemma last_run_before:
  assumes srt: "sorted (map run_first_id runs)" and ok: "\<forall>r \<in> set runs. run_ok r"
    and dist: "distinct (concat (map (\<lambda>r. map fst (run_rows r)) runs))"
    and r: "r \<in> set runs" "i \<in> fst ` set (run_rows r)"
  defines "before \<equiv> takeWhile (\<lambda>r. \<not> i < run_first_id r) runs"
  shows "before \<noteq> []" and "last before = r"
proof -
  have b: "before = filter (\<lambda>r. \<not> i < run_first_id r) runs"
    unfolding before_def using srt by (rule takeWhile_sorted_key)
  have "run_ok r" using ok r(1) by simp
  note ri = in_run [OF this, of i]
  then have rb: "r \<in> set before" using r by (auto simp: b not_less)
  then show ne: "before \<noteq> []" by auto
  let ?s = "last before"
  have s: "?s \<in> set runs" "run_first_id ?s \<le> i"
    using last_in_set [OF ne] by (auto simp: b not_less)
  have "sorted (map run_first_id before)"
    unfolding b using srt by (induction runs) auto
  then have "run_first_id r \<le> run_first_id ?s"
    using rb ne by (metis (no_types, lifting) image_eqI last_map list.set_map sorted_last_ge)
  then have "run_first_id ?s - run_first_id r \<le> i - run_first_id r"
    using s(2) ri r(2) by (simp add: word_le_nat_alt unat_sub diff_le_mono)
  then have in_r: "run_first_id ?s \<in> fst ` set (run_rows r)"
    using \<open>run_first_id r \<le> run_first_id ?s\<close> ri r(2) in_run [OF \<open>run_ok r\<close>, of "run_first_id ?s"]
    by (meson le_less_trans)
  have "run_ok ?s" using ok s(1) by simp
  then have in_s: "run_first_id ?s \<in> fst ` set (run_rows ?s)"
    by (simp add: in_run) (simp add: run_ok_def)
  show "?s = r"
  proof (rule ccontr)
    assume "?s \<noteq> r"
    from distinct_concat_disjoint [OF dist s(1) r(1) this] in_r in_s show False by auto
  qed
qed

lemma index_holds_sort:
  "index_holds out rows \<Longrightarrow> index_holds (out\<lparr>index_runs := sort_key run_first_id (index_runs out)\<rparr>) rows"
  unfolding index_holds_def by (simp add: mset_concat flip: sum_mset_sum_list)

lemma find_row_id_holds:
  assumes holds: "index_holds index rows" and srt: "sorted (map run_first_id (index_runs index))"
    and dist: "distinct (map fst rows)"
  shows "find_row_id index i = map_of rows i"
proof -
  let ?runs = "index_runs index" and ?before = "takeWhile (\<lambda>r. \<not> i < run_first_id r) (index_runs index)"
  obtain singles where by_id: "by_id index = map_of (rev singles)"
    and ms: "mset rows = mset (concat (map run_rows ?runs) @ singles)"
    and ok: "\<forall>r \<in> set ?runs. run_ok r"
    using holds by (auto simp: index_holds_def)
  have rows: "set rows = set (concat (map run_rows ?runs)) \<union> set singles"
    using mset_eq_setD [OF ms] by simp
  have "mset (map fst rows) = mset (map fst (concat (map run_rows ?runs) @ singles))"
    using ms by (simp add: mset_map)
  then have dd: "distinct (map fst (concat (map run_rows ?runs) @ singles))"
    using dist mset_eq_imp_distinct_iff by blast
  then have runs_dist: "distinct (concat (map (\<lambda>r. map fst (run_rows r)) ?runs))"
    by (simp add: map_concat comp_def)
  show ?thesis
  proof (cases "\<exists>r \<in> set ?runs. i \<in> fst ` set (run_rows r)")
    case True
    then obtain r where r: "r \<in> set ?runs" "i \<in> fst ` set (run_rows r)" by blast
    note lb = last_run_before [OF srt ok runs_dist r]
    have "run_ok r" using ok r(1) by simp
    then have "find_row_id index i = Some (push_bit 32 (run_fragment_id r) OR (run_first_offset r + (i - run_first_id r)))"
      using lb r(2) by (simp add: find_row_id_def in_run)
    moreover have "(i, push_bit 32 (run_fragment_id r) OR (run_first_offset r + (i - run_first_id r))) \<in> set rows"
      using run_row [OF \<open>run_ok r\<close> r(2)] r(1) rows by auto
    ultimately show ?thesis using dist by (simp add: map_of_is_SomeI)
  next
    case False
    have "\<not> (?before \<noteq> [] \<and> i - run_first_id (last ?before) < run_count (last ?before))"
    proof
      assume a: "?before \<noteq> [] \<and> i - run_first_id (last ?before) < run_count (last ?before)"
      then have "last ?before \<in> set ?before" by simp
      then have "last ?before \<in> set ?runs" "run_first_id (last ?before) \<le> i"
        by (auto dest: set_takeWhileD)
      with a False ok show False by (metis in_run)
    qed
    then have "find_row_id index i = map_of (rev singles) i"
      unfolding find_row_id_def Let_def by (simp only: if_False by_id)
    also have "\<dots> = map_of singles i" using dd by (simp add: map_of_rev)
    also have "\<dots> = map_of rows i"
    proof (cases "map_of singles i")
      case None
      then have "i \<notin> fst ` set rows" using False rows by (auto simp: map_of_eq_None_iff)
      then show ?thesis using None by (metis map_of_eq_None_iff)
    next
      case (Some a)
      then have "(i, a) \<in> set rows" using rows by (auto dest: map_of_SomeD)
      with dist Some show ?thesis by (simp add: map_of_is_SomeI)
    qed
    finally show ?thesis .
  qed
qed


lemma row_id_index_holds:
  assumes "build_row_id_index read_deleted m = Inr index"
    and "\<forall>f \<in> set (m_fragments m). \<forall>d. deleted_rows read_deleted f = Inr d \<longrightarrow> sorted_wrt (<) d"
    and "\<forall>f \<in> set (m_fragments m). \<forall>ids. fragment_row_ids f = Inr ids \<longrightarrow> ids_fit ids"
    and "distinct (map fst (dataset_rows read_deleted m))"
  shows "find_row_id index i = map_of (dataset_rows read_deleted m) i"
proof -
  from assms(1) obtain out where out: "sfold (index_fragment read_deleted) empty_row_id_index (m_fragments m) = Inr out"
    and index: "index = out\<lparr>index_runs := sort_key run_first_id (index_runs out)\<rparr>"
    by (auto simp: build_row_id_index_def sbind_eq_Inr)
  have "index_holds empty_row_id_index []"
    by (simp add: index_holds_def empty_row_id_index_def)
  from sfold_index_holds [OF out this] assms(2,3) have "index_holds out (dataset_rows read_deleted m)"
    by (simp add: dataset_rows_def)
  then have "index_holds index (dataset_rows read_deleted m)"
    unfolding index by (rule index_holds_sort)
  then show ?thesis by (rule find_row_id_holds) (simp_all add: index assms(4))
qed

text \<open>C13: in an index built for a dataset version, looking up a row id finds
  the address of the live row that has it, and finds nothing for an id no live row has. It needs
  what the format promises: live rows have distinct ids, deletion offsets are ascending, and the
  ids of a run do not wrap past the largest 64-bit value.\<close>

theorem row_id_index_correct:
  assumes "build_row_id_index read_deleted m = Inr index"
    and "\<forall>f \<in> set (m_fragments m). \<forall>d. deleted_rows read_deleted f = Inr d \<longrightarrow> sorted_wrt (<) d"
    and "\<forall>f \<in> set (m_fragments m). \<forall>ids. fragment_row_ids f = Inr ids \<longrightarrow> ids_fit ids"
    and "distinct (map fst (dataset_rows read_deleted m))"
  shows "find_row_id index i = map_of (dataset_rows read_deleted m) i"
  by (rule row_id_index_holds [OF assms])

text \<open>A dataset of two fragments: one with a run of ids 10 to 12 whose second row is deleted, one
  with scattered ids.\<close>

definition example_fragment :: "u64 \<Rightarrow> u64 list \<Rightarrow> bool \<Rightarrow> data_fragment" where
  "example_fragment i ids deleted =
     write_fragment_row_meta (new_fragment\<lparr>fr_id := i, fr_rows := of_nat (length ids),
         fr_deletion := no_deletion_file\<lparr>del_present := deleted\<rparr>\<rparr>)
       (no_row_meta\<lparr>rm_has_row_ids := True, rm_row_ids := encode_sequence (from_values ids)\<rparr>)"

definition example_manifest :: manifest where
  "example_manifest = new_manifest\<lparr>m_fragments := [example_fragment 0 [10, 11, 12] True, example_fragment 1 [7, 3] False],
     m_reader_flags := kFlagStableRowIds\<rparr>"


theorem row_id_index_correct_witness:
  "find_row_id (projr (build_row_id_index (\<lambda>_. Inr [1]) example_manifest)) 12 =
     map_of (dataset_rows (\<lambda>_. Inr [1]) example_manifest) 12"
proof (rule row_id_index_correct)
  have "\<not> isl (build_row_id_index (\<lambda>_. Inr [1]) example_manifest)" by code_simp
  then show "build_row_id_index (\<lambda>_. Inr [1]) example_manifest =
      Inr (projr (build_row_id_index (\<lambda>_. Inr [1]) example_manifest))"
    by (cases "build_row_id_index (\<lambda>_. Inr [1]) example_manifest") simp_all
  show "\<forall>f \<in> set (m_fragments example_manifest). \<forall>d. deleted_rows (\<lambda>_. Inr [1]) f = Inr d \<longrightarrow> sorted_wrt (<) d"
    by (auto simp: deleted_rows_def)
  have "fragment_row_ids (example_fragment 0 [10, 11, 12] True) = Inr (from_values [10, 11, 12])"
    "fragment_row_ids (example_fragment 1 [7, 3] False) = Inr (from_values [7, 3])"
    by code_simp+
  then show "\<forall>f \<in> set (m_fragments example_manifest). \<forall>ids. fragment_row_ids f = Inr ids \<longrightarrow> ids_fit ids"
    by (simp add: example_manifest_def ids_fit_def from_values_def)
  show "distinct (map fst (dataset_rows (\<lambda>_. Inr [1]) example_manifest))" by code_simp
qed

subsection \<open>Addresses and ids are inverse\<close>

lemma row_address_parts:
  assumes "unat fid < 2 ^ 32" and "k < 2 ^ 32"
  shows "drop_bit 32 (row_address fid k) = fid" and "row_address fid k AND 0xFFFFFFFF = of_nat k"
proof -
  have k: "unat (of_nat k :: u64) = k" using assms(2) by (simp add: unat_of_nat)
  have a: "unat (row_address fid k) = unat fid * 2 ^ 32 + k"
    unfolding row_address_def using assms k unat_push_or [of "of_nat k :: u64" 32 fid] by simp
  show "drop_bit 32 (row_address fid k) = fid"
    by (rule word_unat_eq_iff [THEN iffD2]) (use a assms(2) in \<open>simp add: unat_shr\<close>)
  have m: "(0xFFFFFFFF :: u64) = mask 32" by (simp add: mask_eq_exp_minus_1)
  show "row_address fid k AND 0xFFFFFFFF = of_nat k"
    unfolding m by (rule word_unat_eq_iff [THEN iffD2]) (use a assms(2) k in \<open>simp add: unat_and_mask\<close>)
qed

lemma emplace_kept: "m k = Some v \<Longrightarrow> emplace m j w k = Some v"
  by (auto simp: emplace_def)

lemma emplace_None: "m k = None \<Longrightarrow> emplace m k v = m(k \<mapsto> v)"
  by (simp add: emplace_def)

lemma sfold_emplace:
  "sfold (\<lambda>by_fragment fragment. sbind (fragment_row_ids fragment) (\<lambda>ids.
      Inr (emplace by_fragment (fr_id fragment) ids))) m fs = Inr out \<Longrightarrow>
   distinct (map fr_id fs) \<Longrightarrow> \<forall>f \<in> set fs. m (fr_id f) = None \<Longrightarrow> f \<in> set fs \<Longrightarrow>
   \<exists>ids. fragment_row_ids f = Inr ids \<and> out (fr_id f) = Some ids"
proof (induction fs arbitrary: m)
  case (Cons g fs)
  then obtain ids where ids: "fragment_row_ids g = Inr ids"
    and rest: "sfold (\<lambda>by_fragment fragment. sbind (fragment_row_ids fragment) (\<lambda>ids.
      Inr (emplace by_fragment (fr_id fragment) ids))) (m(fr_id g \<mapsto> ids)) fs = Inr out"
    by (auto simp: sbind_eq_Inr emplace_None)
  have kept:
"sfold (\<lambda>by_fragment fragment. sbind (fragment_row_ids fragment) (\<lambda>ids.
      Inr (emplace by_fragment (fr_id fragment) ids))) n gs = Inr out' \<Longrightarrow> n k = Some v \<Longrightarrow> out' k = Some v"
    for n gs out' k v
    by (induction gs arbitrary: n) (auto simp: sbind_eq_Inr emplace_kept)
  show ?case
  proof (cases "f = g")
    case True
    with ids kept [OF rest, of "fr_id g" ids] show ?thesis by simp
  next
    case False
    with Cons.prems have "f \<in> set fs" by simp
    moreover have "\<forall>f \<in> set fs. (m(fr_id g \<mapsto> ids)) (fr_id f) = None"
      using Cons.prems(2,3) by (auto simp: image_iff)
    ultimately show ?thesis using Cons.IH [OF rest] Cons.prems(2) by simp
  qed
qed simp

lemma dataset_row:
  assumes "(i, a) \<in> set (dataset_rows read_deleted m)"
  obtains f ids deleted k where "f \<in> set (m_fragments m)" "fragment_row_ids f = Inr ids"
    "deleted_rows read_deleted f = Inr deleted" "k < unat (seq_size ids)" "k \<notin> unat ` set deleted"
    "i = seq_at ids (of_nat k)" "a = row_address (fr_id f) k"
proof -
  from assms obtain f where f: "f \<in> set (m_fragments m)" "(i, a) \<in> set (fragment_rows read_deleted f)"
    by (auto simp: dataset_rows_def)
  then obtain ids deleted where p: "fragment_row_ids f = Inr ids" "deleted_rows read_deleted f = Inr deleted"
    by (cases "fragment_row_ids f"; cases "deleted_rows read_deleted f") (simp_all add: fragment_rows_def)
  with f obtain k where "k < unat (seq_size ids)" "k \<notin> unat ` set deleted"
    "i = seq_at ids (of_nat k)" "a = row_address (fr_id f) k"
    by (auto simp: fragment_rows_def live_rows_def live_offsets_def)
  with f p show thesis by (intro that)
qed

lemma fragment_row_ids_size: "fragment_row_ids f = Inr ids \<Longrightarrow> seq_size ids = fr_rows f"
  by (auto simp: fragment_row_ids_def sbind_eq_Inr split: if_splits)

text \<open>C17: for a dataset with stable row ids, going from a row id to its
  address and back gives the id: what an index stores for a row is what it finds the row by.\<close>

theorem row_id_address_inverse:
  assumes "build_row_id_to_address read_deleted m = Inr r2a" and "build_address_to_row_id m = Inr a2r"
    and "stable_row_ids m"
    and "\<forall>f \<in> set (m_fragments m). \<forall>d. deleted_rows read_deleted f = Inr d \<longrightarrow> sorted_wrt (<) d"
    and "\<forall>f \<in> set (m_fragments m). \<forall>ids. fragment_row_ids f = Inr ids \<longrightarrow> ids_fit ids"
    and "distinct (map fst (dataset_rows read_deleted m))"
    and "distinct (map fr_id (m_fragments m))"
    and "\<forall>f \<in> set (m_fragments m). unat (fr_id f) < 2 ^ 32 \<and> unat (fr_rows f) \<le> 2 ^ 32"
    and "find_address r2a i = Some a"
  shows "row_id_at a2r a = i"
proof -
  from assms(1,3) obtain index where index: "build_row_id_index read_deleted m = Inr index"
    and r2a: "find_address r2a i = find_row_id index i"
    by (auto simp: build_row_id_to_address_def sbind_eq_Inr find_address_def)
  have "map_of (dataset_rows read_deleted m) i = Some a"
    using row_id_index_holds [OF index assms(4-6), of i] assms(9) r2a by simp
  then have "(i, a) \<in> set (dataset_rows read_deleted m)" by (rule map_of_SomeD)
  then obtain f ids deleted k where f: "f \<in> set (m_fragments m)" "fragment_row_ids f = Inr ids"
    and k: "k < unat (seq_size ids)" and ia: "i = seq_at ids (of_nat k)" "a = row_address (fr_id f) k"
    by (rule dataset_row) blast
  have small: "unat (fr_id f) < 2 ^ 32" "k < 2 ^ 32"
    using assms(8) f k fragment_row_ids_size [OF f(2)] by auto
  from assms(2,3) obtain bf where
    bf: "sfold (\<lambda>by_fragment fragment. sbind (fragment_row_ids fragment) (\<lambda>ids.
      Inr (emplace by_fragment (fr_id fragment) ids))) Map.empty (m_fragments m) = Inr bf"
    and a2r: "a2r = \<lparr>a2r_stable = True, a2r_by_fragment = bf\<rparr>"
    by (auto simp: build_address_to_row_id_def sbind_eq_Inr)
  have "bf (fr_id f) = Some ids"
    using sfold_emplace [OF bf assms(7) _ f(1)] f(2) by simp
  moreover have "(of_nat k :: u64) < seq_size ids"
    using k unat_u64 [of "seq_size ids"] by (simp add: word_less_nat_alt unat_of_nat)
  ultimately show ?thesis
    by (simp add: row_id_at_def a2r ia row_address_parts [OF small])
qed

theorem row_id_address_inverse_witness:
  "row_id_at (projr (build_address_to_row_id example_manifest)) 2 = 12"
proof (rule row_id_address_inverse)
  show "build_row_id_to_address (\<lambda>_. Inr [1]) example_manifest =
      Inr (projr (build_row_id_to_address (\<lambda>_. Inr [1]) example_manifest))"
    "build_address_to_row_id example_manifest = Inr (projr (build_address_to_row_id example_manifest))"
    by (rule Inr_projr, code_simp)+
  have "fragment_row_ids (example_fragment 0 [10, 11, 12] True) = Inr (from_values [10, 11, 12])"
    "fragment_row_ids (example_fragment 1 [7, 3] False) = Inr (from_values [7, 3])"
    by code_simp+
  then show "\<forall>f \<in> set (m_fragments example_manifest). \<forall>ids. fragment_row_ids f = Inr ids \<longrightarrow> ids_fit ids"
    by (simp add: example_manifest_def ids_fit_def from_values_def)
  show "\<forall>f \<in> set (m_fragments example_manifest). unat (fr_id f) < 2 ^ 32 \<and> unat (fr_rows f) \<le> 2 ^ 32"
    by (simp add: example_manifest_def example_fragment_def)
  show "find_address (projr (build_row_id_to_address (\<lambda>_. Inr [1]) example_manifest)) 12 = Some 2"
    by code_simp
qed (code_simp, simp add: deleted_rows_def, code_simp+)

subsection \<open>Resolving ids\<close>

definition live_address :: "(data_fragment \<Rightarrow> u32 list result) \<Rightarrow> manifest \<Rightarrow> u64 \<Rightarrow> bool" where
  "live_address read_deleted m a \<longleftrightarrow>
     (case find_fragment (drop_bit 32 a) (m_fragments m) of
        None \<Rightarrow> False
      | Some f \<Rightarrow> a AND 0xFFFFFFFF < fr_rows f \<and>
          (case deleted_rows read_deleted f of Inl _ \<Rightarrow> False
           | Inr d \<Rightarrow> ucast (a AND 0xFFFFFFFF) \<notin> set d))"

lemma resolve_row_id_live:
  assumes "resolve_row_id read_deleted m index sm sd i = Inr (Some a)"
  shows "live_address read_deleted m a \<and> (if stable_row_ids m then find_row_id index i = Some a else a = i)"
proof -
  from assms obtain b where b: "(if stable_row_ids m then find_row_id index i else Some i) = Some b"
    by (auto simp: resolve_row_id_def split: option.splits if_splits)
  with assms obtain f where f: "find_fragment (drop_bit 32 b) (m_fragments m) = Some f"
    by (auto simp: resolve_row_id_def split: option.splits if_splits)
  with assms b have "a = b"
    unfolding resolve_row_id_def
    by (auto simp: Let_def sbind_eq_Inr split: if_splits)
  with assms b f show ?thesis
    unfolding resolve_row_id_def live_address_def deleted_rows_def
    by (auto simp: Let_def sbind_eq_Inr not_le split: if_splits)
qed

text \<open>C18: every address that resolving row ids gives is a live row of the
  version: its fragment exists, its offset is inside the fragment, and the row is not deleted.
  With neither skip flag there is one address per id, in order: the index's for stable row
  ids, the id itself otherwise.\<close>

theorem resolve_row_ids_live:
  assumes "resolve_row_ids read_deleted m ids sm sd = Inr as"
  shows "(\<forall>a \<in> set as. live_address read_deleted m a) \<and>
    (\<not> sm \<and> \<not> sd \<longrightarrow> list_all2 (\<lambda>i a. if stable_row_ids m
        then \<exists>index. build_row_id_index read_deleted m = Inr index \<and> find_row_id index i = Some a
        else a = i) ids as)"
proof -
  from assms obtain index where
    index: "(if stable_row_ids m then build_row_id_index read_deleted m else Inr empty_row_id_index) = Inr index"
    and fold: "sfold (\<lambda>addresses i. sbind (resolve_row_id read_deleted m index sm sd i) (\<lambda>a.
          Inr (case a of None \<Rightarrow> addresses | Some address \<Rightarrow> addresses @ [address]))) [] ids = Inr as"
    by (auto simp: resolve_row_ids_def sbind_eq_Inr)
  let ?step = "\<lambda>addresses i. sbind (resolve_row_id read_deleted m index sm sd i) (\<lambda>a.
          Inr (case a of None \<Rightarrow> addresses | Some address \<Rightarrow> addresses @ [address]))"
  let ?P = "\<lambda>i a. if stable_row_ids m then find_row_id index i = Some a else a = i"
  have "\<exists>bs. as = acc @ bs \<and> (\<forall>a \<in> set bs. live_address read_deleted m a) \<and>
      (\<not> sm \<and> \<not> sd \<longrightarrow> list_all2 ?P ids bs)"
    if "sfold ?step acc ids = Inr as" for acc
    using that
  proof (induction ids arbitrary: acc)
    case (Cons i ids)
    then obtain r where r: "resolve_row_id read_deleted m index sm sd i = Inr r"
      and rest: "sfold ?step (case r of None \<Rightarrow> acc | Some a \<Rightarrow> acc @ [a]) ids = Inr as"
      by (auto simp: sbind_eq_Inr)
    show ?case
    proof (cases r)
      case None
      then have "sm \<or> sd"
        using r by (auto simp: resolve_row_id_def Let_def sbind_eq_Inr split: option.splits if_splits)
      with None rest Cons.IH [of acc] show ?thesis by auto
    next
      case (Some a)
      with rest Cons.IH [of "acc @ [a]"] resolve_row_id_live [of read_deleted m index sm sd i a] r
      show ?thesis by fastforce
    qed
  qed simp
  from this [OF fold] index show ?thesis
    by (auto split: if_splits elim: list_all2_mono)
qed

theorem resolve_row_ids_live_witness:
  "live_address (\<lambda>_. Inr [1]) example_manifest 2 \<and> live_address (\<lambda>_. Inr [1]) example_manifest 0x100000000 \<and>
   list_all2 (\<lambda>i a. if stable_row_ids example_manifest
        then \<exists>index. build_row_id_index (\<lambda>_. Inr [1]) example_manifest = Inr index \<and> find_row_id index i = Some a
        else a = i) [12, 7] [2, 0x100000000]"
proof -
  have "resolve_row_ids (\<lambda>_. Inr [1]) example_manifest [12, 7] False False = Inr [2, 0x100000000]"
    by code_simp
  from resolve_row_ids_live [OF this] show ?thesis by simp
qed

end
