(* ===== verification/Roaring.thy ===== *)
theory Roaring
  imports Prelude
begin

text \<open>
  32-bit Roaring bitmaps and 64-bit Roaring treemaps of \<open>src/src/base/roaring_bitmap.cpp\<close>, read and
  written as ascending lists of ids. A \<open>Reader\<close> over \<open>data[at..size)\<close> is the list of bytes that
  are left; what \<open>decode_prefix\<close> consumed is what its rest is short of.
\<close>

subsection \<open>Readers and writers\<close>

definition r_u16 :: "byte list \<Rightarrow> (u16 \<times> byte list) option" where
  "r_u16 bs = (if length bs < 2 then None else Some (le_word (take 2 bs), drop 2 bs))"

definition r_u32 :: "byte list \<Rightarrow> (u32 \<times> byte list) option" where
  "r_u32 bs = (if length bs < 4 then None else Some (le_word (take 4 bs), drop 4 bs))"

definition r_skip :: "nat \<Rightarrow> byte list \<Rightarrow> byte list option" where
  "r_skip n bs = (if length bs < n then None else Some (drop n bs))"

definition put16 :: "u32 \<Rightarrow> byte list" where
  "put16 v = [ucast (v AND 0xFF), ucast (drop_bit 8 v AND 0xFF)]"

definition put32 :: "u32 \<Rightarrow> byte list" where
  "put32 v = put16 (v AND 0xFFFF) @ put16 (drop_bit 16 v)"

subsection \<open>decode\<close>

text \<open>The header of each container: its key and its cardinality, keys ascending.\<close>

primrec read_headers :: "nat \<Rightarrow> u16 option \<Rightarrow> byte list \<Rightarrow> ((u16 \<times> u32) list \<times> byte list) result" where
  "read_headers 0 previous bs = Inr ([], bs)"
| "read_headers (Suc n) previous bs =
     sbind (need ''roaring bitmap: truncated header'' (r_u16 bs)) (\<lambda>(key, bs1).
     sbind (need ''roaring bitmap: truncated header'' (r_u16 bs1)) (\<lambda>(card_minus_one, bs2).
     if (case previous of None \<Rightarrow> False | Some p \<Rightarrow> key \<le> p)
     then Inl ''roaring bitmap: container keys out of order''
     else sbind (read_headers n (Some key) bs2) (\<lambda>(hs, r).
       Inr ((key, ucast card_minus_one + 1) # hs, r))))"

primrec read_runs :: "nat \<Rightarrow> u32 option \<Rightarrow> u32 \<Rightarrow> byte list \<Rightarrow> (u32 list \<times> byte list) result" where
  "read_runs 0 previous_end high bs = Inr ([], bs)"
| "read_runs (Suc n) previous_end high bs =
     sbind (need ''roaring bitmap: truncated run container'' (r_u16 bs)) (\<lambda>(start, bs1).
     sbind (need ''roaring bitmap: truncated run container'' (r_u16 bs1)) (\<lambda>(length_minus_one, bs2).
     let stop = ucast start + ucast length_minus_one :: u32 in
     if stop > 0xFFFF \<or> (case previous_end of None \<Rightarrow> False | Some p \<Rightarrow> ucast start \<le> p)
     then Inl ''roaring bitmap: malformed run''
     else sbind (read_runs n (Some stop) high bs2) (\<lambda>(vs, r).
       Inr (map (\<lambda>v. high OR of_nat v) [unat start..<unat stop + 1] @ vs, r))))"

primrec read_array :: "nat \<Rightarrow> u32 option \<Rightarrow> u32 \<Rightarrow> byte list \<Rightarrow> (u32 list \<times> byte list) result" where
  "read_array 0 latest high bs = Inr ([], bs)"
| "read_array (Suc n) latest high bs =
     sbind (need ''roaring bitmap: truncated array container'' (r_u16 bs)) (\<lambda>(v, bs1).
     if (case latest of None \<Rightarrow> False | Some b \<Rightarrow> high OR ucast v \<le> b)
     then Inl ''roaring bitmap: array container out of order''
     else sbind (read_array n (Some (high OR ucast v)) high bs1) (\<lambda>(vs, r).
       Inr ((high OR ucast v) # vs, r)))"

definition read_bitmap :: "u32 \<Rightarrow> byte list \<Rightarrow> (u32 list \<times> byte list) result" where
  "read_bitmap high bs =
     (if length bs < 8192 then Inl ''roaring bitmap: truncated bitmap container''
      else Inr (map (\<lambda>v. high OR of_nat v)
                  (filter (\<lambda>v. (bs ! (v div 8)) AND push_bit (v mod 8) 1 \<noteq> 0) [0..<65536]),
                drop 8192 bs))"

definition is_run :: "byte list \<Rightarrow> nat \<Rightarrow> bool" where
  "is_run run_flags c = (run_flags \<noteq> [] \<and> (run_flags ! (c div 8)) AND push_bit (c mod 8) 1 \<noteq> 0)"

definition read_container ::
  "bool \<Rightarrow> u16 \<Rightarrow> u32 \<Rightarrow> byte list \<Rightarrow> (u32 list \<times> byte list) result" where
  "read_container run key cardinality bs =
     (let high = push_bit 16 (ucast key) :: u32 in
      sbind
        (if run then
           sbind (need ''roaring bitmap: truncated run container'' (r_u16 bs)) (\<lambda>(runs, bs1).
             read_runs (unat runs) None high bs1)
         else if cardinality \<le> 4096 then read_array (unat cardinality) None high bs
         else read_bitmap high bs)
        (\<lambda>(vs, r).
           if length vs \<noteq> unat cardinality
           then Inl ''roaring bitmap: a container holds other than its declared cardinality''
           else Inr (vs, r)))"

fun read_containers ::
  "byte list \<Rightarrow> nat \<Rightarrow> (u16 \<times> u32) list \<Rightarrow> byte list \<Rightarrow> (u32 list \<times> byte list) result" where
  "read_containers run_flags c [] bs = Inr ([], bs)"
| "read_containers run_flags c ((key, cardinality) # hs) bs =
     sbind (read_container (is_run run_flags c) key cardinality bs) (\<lambda>(vs, bs1).
     sbind (read_containers run_flags (c + 1) hs bs1) (\<lambda>(ws, r). Inr (vs @ ws, r)))"

text \<open>The cookie: container count, run flags, whether an offset table follows.\<close>

definition read_cookie :: "byte list \<Rightarrow> (u32 \<times> byte list \<times> bool \<times> byte list) result" where
  "read_cookie bs =
     sbind (need ''roaring bitmap: no cookie'' (r_u32 bs)) (\<lambda>(cookie, bs1).
     if cookie = 12346 then
       sbind (need ''roaring bitmap: no container count'' (r_u32 bs1)) (\<lambda>(containers, bs2).
         Inr (containers, [], True, bs2))
     else if cookie AND 0xFFFF = 12347 then
       let containers = drop_bit 16 cookie + 1; flag_bytes = unat ((containers + 7) div 8) in
       if length bs1 < flag_bytes then Inl ''roaring bitmap: truncated run flags''
       else Inr (containers, take flag_bytes bs1, containers \<ge> 4, drop flag_bytes bs1)
     else Inl (''roaring bitmap: unknown cookie '' @ to_string (unat cookie)))"

definition decode_prefix :: "byte list \<Rightarrow> (u32 list \<times> byte list) result" where
  "decode_prefix bs =
     sbind (read_cookie bs) (\<lambda>(containers, run_flags, offsets, bs1).
     if containers > 65536 \<or> unat containers > length bs1 div 4
     then Inl ''roaring bitmap: implausible container count''
     else sbind (read_headers (unat containers) None bs1) (\<lambda>(headers, bs2).
     sbind (if offsets then need ''roaring bitmap: truncated offsets'' (r_skip (unat containers * 4) bs2)
            else Inr bs2) (\<lambda>bs3.
     read_containers run_flags 0 headers bs3)))"

definition decode :: "byte list \<Rightarrow> u32 list result" where
  "decode bs = sbind (decode_prefix bs) (\<lambda>(ids, _). Inr ids)"

subsection \<open>encode\<close>

text \<open>The runs of ids that share their high 16 bits.\<close>

function spans :: "u32 list \<Rightarrow> u32 list list" where
  "spans [] = []"
| "spans (i # is) =
     (i # takeWhile (\<lambda>j. drop_bit 16 j = drop_bit 16 i) is) #
     spans (dropWhile (\<lambda>j. drop_bit 16 j = drop_bit 16 i) is)"
  by pat_completeness auto
termination
  by (relation "measure length") (auto simp: le_imp_less_Suc length_dropWhile_le)

definition put_header :: "u32 list \<Rightarrow> byte list" where
  "put_header s = put16 (drop_bit 16 (hd s)) @ put16 (of_nat (length s - 1))"

fun put_offsets :: "nat \<Rightarrow> u32 list list \<Rightarrow> byte list" where
  "put_offsets at [] = []"
| "put_offsets at (s # ss) =
     put32 (of_nat at) @ put_offsets (at + (if length s \<le> 4096 then length s * 2 else 8192)) ss"

definition set_id_bit :: "byte list \<Rightarrow> u32 \<Rightarrow> byte list" where
  "set_id_bit bits i =
     (let v = unat (i AND 0xFFFF) in bits[v div 8 := (bits ! (v div 8)) OR push_bit (v mod 8) 1])"

definition put_container :: "u32 list \<Rightarrow> byte list" where
  "put_container s =
     (if length s \<le> 4096 then concat (map (\<lambda>i. put16 (i AND 0xFFFF)) s)
      else foldl set_id_bit (replicate 8192 0) s)"

definition encode :: "u32 list \<Rightarrow> byte list" where
  "encode ids =
     (let ss = spans ids;
          head = put32 12346 @ put32 (of_nat (length ss)) @ concat (map put_header ss)
      in head @ put_offsets (length head + length ss * 4) ss @ concat (map put_container ss))"

subsection \<open>Treemaps\<close>

primrec read_keys :: "nat \<Rightarrow> byte list \<Rightarrow> u64 list result" where
  "read_keys 0 bs = Inr []"
| "read_keys (Suc n) bs =
     sbind (need ''roaring treemap: truncated key'' (r_u32 bs)) (\<lambda>(high, bs1).
     sbind (decode_prefix bs1) (\<lambda>(low, bs2).
     sbind (read_keys n bs2) (\<lambda>vs.
       Inr (map (\<lambda>v. push_bit 32 (ucast high) OR ucast v) low @ vs))))"

definition decode_treemap :: "byte list \<Rightarrow> u64 list result" where
  "decode_treemap bs =
     (if length bs < 8 then Inl ''roaring treemap: no key count''
      else let keys = le_word (take 8 bs) :: u64 in
        if unat keys > (length bs - 8) div 4 then Inl ''roaring treemap: implausible key count''
        else read_keys (unat keys) (drop 8 bs))"

function put_keys :: "u64 list \<Rightarrow> u64 \<times> byte list" where
  "put_keys [] = (0, [])"
| "put_keys (i # is) =
     (let high = ucast (drop_bit 32 i) :: u32;
          same = (\<lambda>j. (ucast (drop_bit 32 j) :: u32) = high);
          low = map ucast (i # takeWhile same is);
          (keys, out) = put_keys (dropWhile same is)
      in (keys + 1, le_bytes 4 high @ encode low @ out))"
  by pat_completeness auto
termination
  by (relation "measure length") (auto simp: le_imp_less_Suc length_dropWhile_le)

definition encode_treemap :: "u64 list \<Rightarrow> byte list" where
  "encode_treemap ids = (let (keys, out) = put_keys ids in le_bytes 8 keys @ out)"


subsection \<open>Integers read latest\<close>

lemma mask16: "(0xFFFF :: u32) = mask 16" by (simp add: mask_eq_exp_minus_1)
lemma mask8: "(0xFF :: u32) = mask 8" by (simp add: mask_eq_exp_minus_1)

lemma put16_eq: "put16 v = le_bytes 2 v"
proof -
  have "ucast (w AND mask 8 :: u32) = (ucast w :: byte)" for w
    by (rule bit_word_eqI) (auto simp: bit_simps)
  then show ?thesis by (simp add: put16_def mask8 numeral_2_eq_2)
qed

lemma put32_eq: "put32 v = le_bytes 4 v"
proof -
  have "le_bytes 4 v = le_bytes 2 v @ le_bytes 2 (drop_bit 16 v)"
    by (simp add: numeral_eq_Suc)
  moreover have "le_bytes 2 (v AND mask 16) = le_bytes 2 v"
    by (rule nth_equalityI) (auto simp: nth_le_bytes less_Suc_eq numeral_2_eq_2 intro!: bit_word_eqI, auto simp: bit_simps)
  ultimately show ?thesis by (simp add: put32_def put16_eq mask16)
qed

lemma length_put [simp, width_simps]: "length (put16 v) = 2" "length (put32 v) = 4"
  by (simp_all add: put16_eq put32_eq)

lemma r_u16_put16 [codec_simps]: "r_u16 (put16 v @ r) = Some (ucast v, r)"
proof -
  have "(ucast (take_bit 16 v) :: u16) = ucast v"
    by (rule bit_word_eqI) (auto simp: bit_simps)
  then show ?thesis by (simp add: r_u16_def put16_eq le_word_le_bytes)
qed

lemma r_u32_put32 [codec_simps]: "r_u32 (put32 v @ r) = Some (v, r)"
  by (simp add: r_u32_def put32_eq)

lemma r_u32_le_bytes [codec_simps]: "r_u32 (le_bytes 4 v @ r) = Some (v, r)" for v :: u32
  by (simp add: r_u32_def)

text \<open>A container's value as a number: its key times \<open>2 ^ 16\<close> plus its low half.\<close>

lemma unat_join:
  assumes "v < 65536"
  shows "unat (push_bit 16 (ucast (key :: u16)) OR of_nat v :: u32) = unat key * 65536 + v"
proof -
  have lt: "unat key < 65536" using unsigned_less [of key] by simp
  then have k: "unat (ucast key :: u32) = unat key"
    by (simp add: unsigned_ucast_eq take_bit_nat_eq_self)
  have "unat (of_nat v :: u32) = v" using assms by (simp add: unat_of_nat)
  then show ?thesis
    using assms unat_push_or [of "of_nat v :: u32" 16 "ucast key"] lt by (simp add: k)
qed

lemma unat_u16: "unat (v :: u16) < 65536"
  using unsigned_less [of v] by simp

lemma unat_join_u16: "unat (push_bit 16 (ucast (key :: u16)) OR ucast (v :: u16) :: u32) = unat key * 65536 + unat v"
  using unat_join [OF unat_u16, of key v] by simp

lemma join_split:
  "push_bit 16 (ucast (ucast (drop_bit 16 i) :: u16)) OR ucast (ucast (i AND 0xFFFF :: u32) :: u16) = i"
proof (rule bit_word_eqI)
  fix k assume "k < LENGTH(32)"
  then show "bit (push_bit 16 (ucast (ucast (drop_bit 16 i) :: u16)) OR ucast (ucast (i AND 0xFFFF) :: u16) :: u32) k = bit i k"
    unfolding mask16 by (cases "k < 16") (auto simp: bit_simps)
qed

subsection \<open>Containers hold ascending ids of their key\<close>

text \<open>Ids of one container: ascending, all with the same high half.\<close>

definition in_container :: "u16 \<Rightarrow> u32 list \<Rightarrow> bool" where
  "in_container key vs \<longleftrightarrow> sorted_wrt (<) vs \<and> (\<forall>v \<in> set vs. unat v div 65536 = unat key)"

lemma in_container_joins:
  assumes "sorted_wrt (<) ns" and "\<forall>n \<in> set ns. n < 65536"
  shows "in_container key (map (\<lambda>v. push_bit 16 (ucast key) OR of_nat v) ns)"
proof -
  have "sorted_wrt (\<lambda>x y. unat (push_bit 16 (ucast key) OR of_nat x :: u32) <
      unat (push_bit 16 (ucast key) OR of_nat y :: u32)) ns"
    using assms by (intro sorted_wrt_mono_rel [OF _ assms(1)]) (simp add: unat_join)
  then show ?thesis
    using assms(2) by (auto simp: in_container_def sorted_wrt_map word_less_nat_alt unat_join)
qed

lemma in_container_append:
  "in_container key vs \<Longrightarrow> in_container key ws \<Longrightarrow> (\<And>v w. v \<in> set vs \<Longrightarrow> w \<in> set ws \<Longrightarrow> v < w) \<Longrightarrow>
   in_container key (vs @ ws)"
  by (auto simp: in_container_def sorted_wrt_append)

lemma in_container_Cons:
  "unat v div 65536 = unat key \<Longrightarrow> in_container key ws \<Longrightarrow> (\<And>w. w \<in> set ws \<Longrightarrow> v < w) \<Longrightarrow>
   in_container key (v # ws)"
  by (auto simp: in_container_def)

lemma read_array_ascending:
  "read_array n latest (push_bit 16 (ucast key)) bs = Inr (vs, r) \<Longrightarrow>
   in_container key vs \<and> length vs = n \<and> (\<forall>b v. latest = Some b \<longrightarrow> v \<in> set vs \<longrightarrow> b < v)"
proof (induction n arbitrary: latest bs vs)
  case (Suc n)
  let ?hi = "push_bit 16 (ucast key) :: u32"
  from Suc.prems obtain v bs1 where v: "r_u16 bs = Some (v, bs1)"
    by (cases "r_u16 bs") auto
  with Suc.prems obtain ws where
    ws: "read_array n (Some (?hi OR ucast v)) ?hi bs1 = Inr (ws, r)" "vs = (?hi OR ucast v) # ws"
    and latest: "\<forall>b. latest = Some b \<longrightarrow> b < ?hi OR ucast v"
    by (auto simp: sbind_eq_Inr not_le split: if_splits option.splits)
  have "unat (?hi OR ucast v) div 65536 = unat key"
    using unat_u16 [of v] by (simp add: unat_join_u16)
  with Suc.IH [OF ws(1)] ws(2) latest show ?case
    by (fastforce intro: in_container_Cons)
qed (auto simp: in_container_def)

lemma read_runs_ascending:
  "read_runs n previous (push_bit 16 (ucast key)) bs = Inr (vs, r) \<Longrightarrow>
   in_container key vs \<and> (\<forall>p v. previous = Some p \<longrightarrow> v \<in> set vs \<longrightarrow> unat key * 65536 + unat p < unat v)"
proof (induction n arbitrary: previous bs vs)
  case (Suc n)
  let ?hi = "push_bit 16 (ucast key) :: u32"
  from Suc.prems obtain start bs1 where s: "r_u16 bs = Some (start, bs1)"
    by (cases "r_u16 bs") auto
  from Suc.prems s obtain len bs2 where l: "r_u16 bs1 = Some (len, bs2)"
    by (cases "r_u16 bs1") auto
  define stop :: u32 where stop: "stop = ucast start + ucast len"
  from Suc.prems s l obtain ws where le: "\<not> (0xFFFF :: u32) < stop"
    and ws: "read_runs n (Some stop) ?hi bs2 = Inr (ws, r)"
      "vs = map (\<lambda>v. ?hi OR of_nat v) [unat start..<unat stop + 1] @ ws"
    and prev: "\<forall>p. previous = Some p \<longrightarrow> p < ucast start"
    by (auto simp: sbind_eq_Inr not_le Let_def stop simp del: upt_Suc split: if_splits option.splits)
  let ?run = "map (\<lambda>v. ?hi OR of_nat v) [unat start..<unat stop + 1]"
  have small: "unat stop < 65536" using le by (simp add: word_less_nat_alt)
  then have lt: "\<forall>v \<in> set [unat start..<unat stop + 1]. v < 65536" by auto
  have run: "in_container key ?run" by (rule in_container_joins) (use lt in \<open>simp_all del: upt_Suc\<close>)
  have val: "\<exists>n. unat v = unat key * 65536 + n \<and> unat start \<le> n \<and> n \<le> unat stop" if "v \<in> set ?run" for v
    using that lt by (auto simp: unat_join simp del: upt_Suc)
  have pre: "unat p < unat start" if "previous = Some p" for p
    using prev that by (simp add: word_less_nat_alt unsigned_ucast_eq take_bit_nat_eq_self less_le_trans [OF unat_u16])
  have later: "unat key * 65536 + unat stop < unat w" if "w \<in> set ws" for w
    using Suc.IH [OF ws(1)] that by simp
  have "in_container key (?run @ ws)"
    using run Suc.IH [OF ws(1)] val later
    by (intro in_container_append) (auto simp: word_less_nat_alt simp del: upt_Suc, fastforce)
  moreover have "unat key * 65536 + unat p < unat v" if "previous = Some p" "v \<in> set (?run @ ws)" for p v
  proof (cases "v \<in> set ?run")
    case True
    with val [of v] pre [OF that(1)] show ?thesis by auto
  next
    case False
    with that have "unat key * 65536 + unat stop < unat v" by (intro later) auto
    moreover have "unat start \<le> unat stop"
      using stop small unat_u16 [of start] unat_u16 [of len]
      by (simp add: unat_word_ariths unsigned_ucast_eq take_bit_nat_eq_self)
    ultimately show ?thesis using pre [OF that(1)] by simp
  qed
  ultimately show ?case using ws(2) by blast
qed (auto simp: in_container_def)

lemma in_container_length: "in_container key vs \<Longrightarrow> length vs \<le> 65536"
proof -
  assume c: "in_container key vs"
  have "set (map unat vs) \<subseteq> {unat key * 65536..<unat key * 65536 + 65536}"
  proof
    fix n assume "n \<in> set (map unat vs)"
    with c have "n div 65536 = unat key" by (auto simp: in_container_def)
    with div_mult_mod_eq [of n 65536] mod_less_divisor [of 65536 n]
    show "n \<in> {unat key * 65536..<unat key * 65536 + 65536}" by simp
  qed
  then have "card (set (map unat vs)) \<le> 65536"
    by (rule order.trans [OF card_mono, rotated]) simp_all
  moreover have "distinct (map unat vs)"
    using c by (auto simp: in_container_def strict_sorted_iff distinct_map inj_on_def)
  ultimately show ?thesis using distinct_card by fastforce
qed

lemma read_container_ascending:
  assumes "read_container run key n bs = Inr (vs, r)"
  shows "in_container key vs" and "length vs = unat n"
proof -
  show "length vs = unat n"
    using assms by (auto simp: read_container_def sbind_eq_Inr Let_def split: if_splits)
  have bitmap: "in_container key vs" if "read_bitmap (push_bit 16 (ucast key)) bs = Inr (vs, r)"
    using that by (auto simp: read_bitmap_def split: if_splits intro!: in_container_joins sorted_wrt_filter)
  have "sorted_wrt (<) vs \<and> (\<forall>v \<in> set vs. unat v div 65536 = unat key) \<longleftrightarrow> in_container key vs"
    by (simp add: in_container_def)
  then show "in_container key vs"
    using assms bitmap
    by (auto simp: read_container_def sbind_eq_Inr Let_def
        dest: read_array_ascending read_runs_ascending split: if_splits)
qed

lemma read_headers_ascending:
  "read_headers n previous bs = Inr (hs, r) \<Longrightarrow>
   length hs = n \<and> sorted_wrt (<) (map fst hs) \<and>
   (\<forall>p k. previous = Some p \<longrightarrow> k \<in> set (map fst hs) \<longrightarrow> p < k)"
proof (induction n arbitrary: previous bs hs)
  case (Suc n)
  from Suc.prems obtain key bs1 where k: "r_u16 bs = Some (key, bs1)"
    by (cases "r_u16 bs") auto
  from Suc.prems k obtain c bs2 where c: "r_u16 bs1 = Some (c, bs2)"
    by (cases "r_u16 bs1") auto
  from Suc.prems k c obtain hs' where hs: "read_headers n (Some key) bs2 = Inr (hs', r)"
    "hs = (key, ucast c + 1) # hs'" and prev: "\<forall>p. previous = Some p \<longrightarrow> p < key"
    by (auto simp: sbind_eq_Inr not_le split: if_splits option.splits)
  with Suc.IH [OF hs(1)] show ?case by fastforce
qed auto

text \<open>Containers with ascending keys hold ascending ids.\<close>

lemma container_less:
  assumes "unat v div 65536 = unat k" "unat w div 65536 = unat l" "(k :: u16) < l"
  shows "(v :: u32) < w"
proof -
  have "unat v div 65536 < unat w div 65536" using assms by (simp add: word_less_nat_alt)
  then show ?thesis by (meson div_le_mono not_le word_less_nat_alt)
qed

lemma read_containers_ascending:
  "read_containers flags c hs bs = Inr (vs, r) \<Longrightarrow> sorted_wrt (<) (map fst hs) \<Longrightarrow>
   sorted_wrt (<) vs \<and> (\<forall>v \<in> set vs. \<exists>k \<in> set (map fst hs). unat v div 65536 = unat k) \<and>
   length vs \<le> 65536 * length hs"
proof (induction flags c hs bs arbitrary: vs rule: read_containers.induct)
  case (2 flags c key n hs bs)
  then obtain us bs1 ws where us: "read_container (is_run flags c) key n bs = Inr (us, bs1)"
    and ws: "read_containers flags (c + 1) hs bs1 = Inr (ws, r)" and vs: "vs = us @ ws"
    by (auto simp: sbind_eq_Inr)
  have key: "in_container key us" using us by (rule read_container_ascending)
  have IH: "sorted_wrt (<) ws" "\<forall>v \<in> set ws. \<exists>k \<in> set (map fst hs). unat v div 65536 = unat k"
    "length ws \<le> 65536 * length hs"
    using "2.IH" [of bs1 ws] ws "2.prems" by auto
  have "u < w" if "u \<in> set us" "w \<in> set ws" for u w
  proof -
    from that IH(2) obtain k where "k \<in> set (map fst hs)" "unat w div 65536 = unat k" by blast
    with key that "2.prems"(2) show ?thesis
      by (intro container_less [of u key w k]) (auto simp: in_container_def)
  qed
  with IH key in_container_length [OF key] vs show ?case
    by (auto simp: sorted_wrt_append in_container_def)
qed auto

text \<open>How much each reader takes.\<close>

lemma r_u16_length: "r_u16 bs = Some (v, r) \<Longrightarrow> length bs = length r + 2"
  by (auto simp: r_u16_def split: if_splits)

lemma r_u32_length: "r_u32 bs = Some (v, r) \<Longrightarrow> length bs = length r + 4"
  by (auto simp: r_u32_def split: if_splits)

lemma read_headers_length:
  "read_headers n previous bs = Inr (hs, r) \<Longrightarrow> length bs = length r + 4 * n"
proof (induction n arbitrary: previous bs hs)
  case (Suc n)
  from Suc.prems obtain key bs1 c bs2 hs' where "r_u16 bs = Some (key, bs1)"
    "r_u16 bs1 = Some (c, bs2)" "read_headers n (Some key) bs2 = Inr (hs', r)"
    by (auto simp: sbind_eq_Inr need_eq_Inr split: if_splits)
  with Suc.IH show ?case by (auto dest!: r_u16_length)
qed simp

lemma read_runs_length: "read_runs n previous high bs = Inr (vs, r) \<Longrightarrow> length r \<le> length bs"
proof (induction n arbitrary: previous bs vs)
  case (Suc n)
  from Suc.prems obtain s bs1 l bs2 p vs' where "r_u16 bs = Some (s, bs1)"
    "r_u16 bs1 = Some (l, bs2)" "read_runs n p high bs2 = Inr (vs', r)"
    by (auto simp: sbind_eq_Inr need_eq_Inr Let_def split: if_splits)
  with Suc.IH show ?case by (fastforce dest!: r_u16_length)
qed simp

lemma read_array_length: "read_array n latest high bs = Inr (vs, r) \<Longrightarrow> length r \<le> length bs"
proof (induction n arbitrary: latest bs vs)
  case (Suc n)
  from Suc.prems obtain v bs1 p vs' where "r_u16 bs = Some (v, bs1)"
    "read_array n p high bs1 = Inr (vs', r)"
    by (auto simp: sbind_eq_Inr need_eq_Inr Let_def split: if_splits)
  with Suc.IH show ?case by (fastforce dest!: r_u16_length)
qed simp

lemma read_container_length: "read_container run key n bs = Inr (vs, r) \<Longrightarrow> length r \<le> length bs"
  by (auto simp: read_container_def sbind_eq_Inr need_eq_Inr Let_def read_bitmap_def
      dest!: read_array_length read_runs_length r_u16_length split: if_splits)

lemma read_containers_length:
  "read_containers flags c hs bs = Inr (vs, r) \<Longrightarrow> length r \<le> length bs"
proof (induction flags c hs bs arbitrary: vs rule: read_containers.induct)
  case (2 flags c key n hs bs)
  then obtain us bs1 ws where us: "read_container (is_run flags c) key n bs = Inr (us, bs1)"
    and ws: "read_containers flags (c + 1) hs bs1 = Inr (ws, r)"
    by (auto simp: sbind_eq_Inr)
  with "2.IH" [OF ws] read_container_length [OF us] show ?case by simp
qed auto

lemma read_cookie_length: "read_cookie bs = Inr (n, flags, offs, r) \<Longrightarrow> length r < length bs"
proof -
  assume read: "read_cookie bs = Inr (n, flags, offs, r)"
  then obtain cookie bs1 where c: "r_u32 bs = Some (cookie, bs1)"
    by (cases "r_u32 bs") (auto simp: read_cookie_def)
  have "length r \<le> length bs1"
  proof (cases "cookie = 12346")
    case True
    with read c obtain m where "r_u32 bs1 = Some (m, r)"
      by (cases "r_u32 bs1") (auto simp: read_cookie_def)
    then show ?thesis by (simp add: r_u32_length)
  next
    case False
    with read c have "r = drop (unat ((drop_bit 16 cookie + 1 + 7) div 8)) bs1"
      unfolding read_cookie_def c need_simps sbind_simps prod.case Let_def
      by (simp split: if_splits)
    then show ?thesis by simp
  qed
  with r_u32_length [OF c] show ?thesis by simp
qed

lemma decode_prefix_ascending:
  assumes "decode_prefix bs = Inr (ids, r)"
  shows "sorted_wrt (<) ids" and "length r < length bs" and "length ids \<le> 65536 * (length bs div 4)"
proof -
  from assms obtain n flags offs bs1 hs bs2 bs3 where
    cookie: "read_cookie bs = Inr (n, flags, offs, bs1)" and n: "unat n \<le> length bs1 div 4"
    and hs: "read_headers (unat n) None bs1 = Inr (hs, bs2)"
    and skip: "bs3 = bs2 \<or> (\<exists>k. bs3 = drop k bs2)"
    and cs: "read_containers flags 0 hs bs3 = Inr (ids, r)"
    unfolding decode_prefix_def
    by (auto simp: sbind_eq_Inr need_eq_Inr r_skip_def not_less split: if_splits) blast+
  have asc: "sorted_wrt (<) (map fst hs)" "length hs = unat n"
    using read_headers_ascending [OF hs] by simp_all
  note c = read_containers_ascending [OF cs asc(1)]
  then show "sorted_wrt (<) ids" by simp
  have lens: "length bs1 < length bs" "length bs2 \<le> length bs1" "length r \<le> length bs3" "length bs3 \<le> length bs2"
    using read_cookie_length [OF cookie] read_headers_length [OF hs] read_containers_length [OF cs] skip
    by auto
  then show "length r < length bs" by simp
  have "unat n \<le> length bs div 4" using n lens(1) by (meson div_le_mono less_imp_le order.trans)
  with c asc(2) show "length ids \<le> 65536 * (length bs div 4)"
    by (metis mult_le_mono2 order.trans)
qed

subsection \<open>Round trip\<close>

definition span_key :: "u32 list \<Rightarrow> u16" where
  "span_key s = ucast (drop_bit 16 (hd s))"

lemma unat_high: "unat (ucast (drop_bit 16 i) :: u16) = unat (i :: u32) div 65536"
proof -
  have "unat i div 65536 < 65536" using unsigned_less [of i] by (simp add: div_less_iff_less_mult)
  then show ?thesis by (simp add: unsigned_ucast_eq unat_shr take_bit_nat_eq_self)
qed

lemma same_high: "drop_bit 16 j = drop_bit 16 i \<longleftrightarrow> unat j div 65536 = unat (i :: u32) div 65536"
  by (simp add: unat_shr flip: unat_inject)

lemma join_key:
  assumes "unat (i :: u32) div 65536 = unat (key :: u16)"
  shows "push_bit 16 (ucast key) OR ucast (ucast (i AND 0xFFFF) :: u16) = i"
proof -
  have "key = ucast (drop_bit 16 i)"
    by (rule word_unat_eq_iff [THEN iffD2]) (simp only: unat_high assms)
  then show ?thesis using join_split [of i] by (simp only:)
qed

lemma dropWhile_high:
  "sorted_wrt (<) ((i :: u32) # is) \<Longrightarrow> j \<in> set (dropWhile (\<lambda>j. drop_bit 16 j = drop_bit 16 i) is) \<Longrightarrow>
   unat i div 65536 < unat j div 65536"
  using dropWhile_greater [OF mono_unat_div, of i "is" j 65536] by (simp add: same_high)

lemma spans_nonempty: "s \<in> set (spans ids) \<Longrightarrow> s \<noteq> [] \<and> hd s \<in> set ids"
  by (induction ids rule: spans.induct) (auto dest: set_dropWhileD)

lemma concat_spans [simp]: "concat (spans ids) = ids"
  by (induction ids rule: spans.induct) simp_all

lemma spans_containers:
  "sorted_wrt (<) ids \<Longrightarrow> (\<forall>s \<in> set (spans ids). in_container (span_key s) s) \<and>
     sorted_wrt (<) (map span_key (spans ids))"
proof (induction ids rule: spans.induct)
  case (2 i "is")
  let ?P = "\<lambda>j. drop_bit 16 j = drop_bit 16 i"
  have "sorted_wrt (<) (takeWhile ?P is @ dropWhile ?P is)" using "2.prems" by simp
  then have srt: "sorted_wrt (<) (takeWhile ?P is)" "sorted_wrt (<) (dropWhile ?P is)"
    unfolding sorted_wrt_append by blast+
  have first: "in_container (span_key (i # takeWhile ?P is)) (i # takeWhile ?P is)"
    using srt(1) "2.prems"
    by (auto simp: in_container_def span_key_def unat_high same_high dest: set_takeWhileD)
  have "span_key (i # takeWhile ?P is) < span_key s" if "s \<in> set (spans (dropWhile ?P is))" for s
    using dropWhile_high [OF "2.prems", of "hd s"] spans_nonempty [OF that]
    by (simp add: span_key_def word_less_nat_alt unat_high)
  with "2.IH" srt(2) first show ?case by auto
qed simp

lemma read_headers_put:
  "\<forall>s \<in> set ss. s \<noteq> [] \<and> length s \<le> 65536 \<Longrightarrow> sorted_wrt (<) (map span_key ss) \<Longrightarrow>
   \<forall>p. previous = Some p \<longrightarrow> (\<forall>s \<in> set ss. p < span_key s) \<Longrightarrow>
   read_headers (length ss) previous (concat (map put_header ss) @ r) =
     Inr (map (\<lambda>s. (span_key s, of_nat (length s))) ss, r)"
proof (induction ss arbitrary: previous)
  case (Cons s ss)
  have "(ucast (ucast (of_nat (length s - 1) :: u32) :: u16) + 1 :: u32) = of_nat (length s)"
  proof -
    have "unat (of_nat (length s - 1) :: u32) < 2 ^ LENGTH(16)"
      using Cons.prems(1) by (simp add: unat_of_nat mod_less less_le_trans [of _ "length s"])
    then have "(ucast (ucast (of_nat (length s - 1) :: u32) :: u16) :: u32) = of_nat (length s - 1)"
      by (rule ucast_ucast_small)
    moreover have "length s = Suc (length s - 1)" using Cons.prems(1) by simp
    ultimately show ?thesis by (metis add.commute of_nat_Suc)
  qed
  moreover have "\<not> (case previous of None \<Rightarrow> False | Some p \<Rightarrow> span_key s \<le> p)"
    using Cons.prems(3) by (auto split: option.splits)
  ultimately show ?case
    using Cons by (simp add: put_header_def codec_simps flip: span_key_def)
qed simp

lemma read_array_put:
  "in_container key s \<Longrightarrow> \<forall>b. latest = Some b \<longrightarrow> (\<forall>v \<in> set s. b < v) \<Longrightarrow>
   read_array (length s) latest (push_bit 16 (ucast key)) (concat (map (\<lambda>i. put16 (i AND 0xFFFF)) s) @ r) =
     Inr (s, r)"
proof (induction s arbitrary: latest)
  case (Cons i s)
  then have i: "push_bit 16 (ucast key) OR ucast (ucast (i AND 0xFFFF) :: u16) = i"
    by (intro join_key) (simp add: in_container_def)
  have "\<not> (case latest of None \<Rightarrow> False | Some b \<Rightarrow> i \<le> b)"
    using Cons.prems(2) by (auto split: option.splits)
  moreover have "in_container key s" "\<forall>v \<in> set s. i < v"
    using Cons.prems(1) by (auto simp: in_container_def)
  ultimately show ?case
    using Cons.IH [of "Some i"] by (cases latest) (simp_all add: codec_simps i)
qed simp

lemma length_set_id_bits [simp]: "length (foldl set_id_bit bits s) = length bits"
  by (induction s arbitrary: bits) (simp_all add: set_id_bit_def Let_def)

lemma bit_at_set_id_bits:
  "length bits = 8192 \<Longrightarrow> v < 65536 \<Longrightarrow>
   bit_at (foldl set_id_bit bits s) v \<longleftrightarrow> bit_at bits v \<or> (\<exists>i \<in> set s. unat (i AND 0xFFFF) = v)"
proof (induction s arbitrary: bits)
  case (Cons i s)
  have "unat (i AND 0xFFFF) < 65536" by (simp add: mask16 unat_and_mask)
  then have "bit_at (set_id_bit bits i) v \<longleftrightarrow> v = unat (i AND 0xFFFF) \<or> bit_at bits v"
    using Cons.prems bit_at_set [of "unat (i AND 0xFFFF)" bits v]
    by (simp add: set_id_bit_def Let_def push_bit_eq_mult)
  moreover have "length (set_id_bit bits i) = 8192"
    using Cons.prems by (simp add: set_id_bit_def Let_def)
  ultimately show ?case using Cons by auto
qed simp


lemma join_mask:
  assumes "unat (i :: u32) div 65536 = unat (key :: u16)"
  shows "push_bit 16 (ucast key) OR (i AND 0xFFFF) = i"
proof -
  have "unat (i AND 0xFFFF) < 2 ^ LENGTH(16)" by (simp add: mask16 unat_and_mask)
  then have "ucast (ucast (i AND 0xFFFF) :: u16) = i AND 0xFFFF" by (rule ucast_ucast_small)
  with join_key [OF assms] show ?thesis by simp
qed

lemma read_bitmap_put:
  assumes s: "in_container key s"
  shows "read_bitmap (push_bit 16 (ucast key)) (foldl set_id_bit (replicate 8192 0) s @ r) = Inr (s, r)"
proof -
  let ?bits = "foldl set_id_bit (replicate 8192 0) s" and ?hi = "push_bit 16 (ucast key) :: u32"
  have bit: "((?bits @ r) ! (v div 8)) AND push_bit (v mod 8) 1 \<noteq> 0 \<longleftrightarrow> (\<exists>i \<in> set s. unat (i AND 0xFFFF) = v)"
    if "v < 65536" for v
  proof -
    have "v div 8 < 8192" using that by (simp add: div_less_iff_less_mult)
    then have "((?bits @ r) ! (v div 8)) AND push_bit (v mod 8) 1 \<noteq> 0 \<longleftrightarrow> bit_at ?bits v"
      unfolding bit_test by (simp add: bit_at_def nth_append)
    also have "\<dots> \<longleftrightarrow> bit_at (replicate 8192 0) v \<or> (\<exists>i \<in> set s. unat (i AND 0xFFFF) = v)"
      using that by (intro bit_at_set_id_bits) simp_all
    also have "bit_at (replicate 8192 0) v \<longleftrightarrow> False"
      using \<open>v div 8 < 8192\<close> by (simp add: bit_at_def)
    finally show ?thesis by simp
  qed
  let ?ns = "filter (\<lambda>v. ((?bits @ r) ! (v div 8)) AND push_bit (v mod 8) 1 \<noteq> 0) [0..<65536]"
  have ns: "set ?ns = (\<lambda>i. unat (i AND 0xFFFF)) ` set s"
  proof -
    have "unat (i AND 0xFFFF) < 65536" for i :: u32 by (simp add: mask16 unat_and_mask)
    then show ?thesis using bit by auto
  qed
  have hi: "?hi OR (i AND 0xFFFF) = i" if "i \<in> set s" for i
    using s that by (intro join_mask) (simp add: in_container_def)
  have "map (\<lambda>v. ?hi OR of_nat v) ?ns = s"
  proof (rule strict_sorted_equal)
    have "in_container key (map (\<lambda>v. ?hi OR of_nat v) ?ns)"
      by (rule in_container_joins) (auto intro: sorted_wrt_filter)
    then show "sorted_wrt (<) (map (\<lambda>v. ?hi OR of_nat v) ?ns)" by (simp only: in_container_def)
    show "sorted_wrt (<) s" using s by (simp add: in_container_def)
    show "set (map (\<lambda>v. ?hi OR of_nat v) ?ns) = set s"
      using hi by (simp only: set_map ns image_image) (simp add: image_def)
  qed
  then show ?thesis by (simp add: read_bitmap_def)
qed

lemma read_container_put:
  assumes "in_container key s"
  shows "read_container False key (of_nat (length s)) (put_container s @ r) = Inr (s, r)"
proof -
  have n: "unat (of_nat (length s) :: u32) = length s"
    using in_container_length [OF assms] by (simp add: unat_of_nat)
  then have "(of_nat (length s) :: u32) \<le> 4096 \<longleftrightarrow> length s \<le> 4096" by (simp add: word_le_nat_alt)
  with n show ?thesis
    using read_array_put [OF assms, of None r] read_bitmap_put [OF assms, of r]
    by (simp add: read_container_def put_container_def Let_def)
qed

lemma read_containers_put:
  "\<forall>s \<in> set ss. in_container (span_key s) s \<Longrightarrow>
   read_containers [] c (map (\<lambda>s. (span_key s, of_nat (length s))) ss) (concat (map put_container ss) @ r) =
     Inr (concat ss, r)"
  by (induction ss arbitrary: c) (simp_all add: is_run_def read_container_put)

lemma length_put_offsets: "length (put_offsets at ss) = 4 * length ss"
  by (induction ss arbitrary: at) simp_all

lemma length_put_headers: "length (concat (map put_header ss)) = 4 * length ss"
  by (induction ss) (simp_all add: put_header_def)

lemma length_spans: "sorted_wrt (<) ids \<Longrightarrow> length (spans ids) \<le> 65536"
proof -
  assume "sorted_wrt (<) ids"
  then have "distinct (map span_key (spans ids))"
    using spans_containers by (auto simp: strict_sorted_iff)
  then have "length (spans ids) = card (set (map span_key (spans ids)))"
    by (metis distinct_card length_map)
  also have "\<dots> \<le> card (UNIV :: u16 set)" by (rule card_mono) simp_all
  finally show ?thesis by (simp add: card_word)
qed

lemma decode_prefix_encode [codec_simps]:
  assumes "sorted_wrt (<) ids"
  shows "decode_prefix (encode ids @ rest) = Inr (ids, rest)"
proof -
  let ?ss = "spans ids" and ?at = "8 + 4 * length (spans ids) + length (spans ids) * 4"
  have c: "\<forall>s \<in> set ?ss. in_container (span_key s) s" "sorted_wrt (<) (map span_key ?ss)"
    using spans_containers [OF assms] by simp_all
  have n: "unat (of_nat (length ?ss) :: u32) = length ?ss"
    using length_spans [OF assms] by (simp add: unat_of_nat)
  have hdr: "read_headers (length ?ss) None (concat (map put_header ?ss) @ r) =
      Inr (map (\<lambda>s. (span_key s, of_nat (length s))) ?ss, r)" for r
    using c spans_nonempty [of _ ids] in_container_length by (intro read_headers_put) fastforce+
  have enc: "encode ids @ rest = put32 12346 @ put32 (of_nat (length ?ss)) @ concat (map put_header ?ss) @
      put_offsets ?at ?ss @ concat (map put_container ?ss) @ rest"
    by (simp add: encode_def Let_def length_put_headers)
  have "read_cookie (encode ids @ rest) = Inr (of_nat (length ?ss), [], True, concat (map put_header ?ss) @
      put_offsets ?at ?ss @ concat (map put_container ?ss) @ rest)"
    unfolding enc read_cookie_def by (simp add: codec_simps)
  moreover have "\<not> (of_nat (length ?ss) :: u32) > 65536"
    using length_spans [OF assms] n by (simp add: word_less_nat_alt)
  ultimately show ?thesis
    using hdr read_containers_put [OF c(1), of 0 rest]
    unfolding decode_prefix_def
    by (simp add: n length_put_headers length_put_offsets r_skip_def)
qed


subsection \<open>The contract of an id set codec\<close>

text \<open>What the callers of \<open>roaring::encode\<close> and \<open>roaring::decode_prefix\<close> rely on.\<close>

locale id_set_codec =
  fixes enc :: "'a::linorder list \<Rightarrow> byte list"
    and dec :: "byte list \<Rightarrow> ('a list \<times> byte list) result"
  assumes dec_enc: "sorted_wrt (<) ids \<Longrightarrow> dec (enc ids @ rest) = Inr (ids, rest)"
    and dec_ascending: "dec bs = Inr (ids, rest) \<Longrightarrow> sorted_wrt (<) ids"
    and dec_consumes: "dec bs = Inr (ids, rest) \<Longrightarrow> length rest < length bs"
begin

lemma dec_enc_whole: "sorted_wrt (<) ids \<Longrightarrow> dec (enc ids) = Inr (ids, [])"
  using dec_enc [of ids "[]"] by simp

lemma reencode: "dec bs = Inr (ids, rest) \<Longrightarrow> dec (enc ids @ rest) = Inr (ids, rest)"
  by (rule dec_enc) (rule dec_ascending)

lemma dec_distinct: "dec bs = Inr (ids, rest) \<Longrightarrow> distinct ids"
  using dec_ascending [of bs ids rest] by (simp add: strict_sorted_iff)

end

sublocale id_set_codec \<subseteq> prefix: prefix_codec enc
  "\<lambda>bs. case dec bs of Inl _ \<Rightarrow> None | Inr x \<Rightarrow> Some x" "sorted_wrt (<)"
  by unfold_locales (auto simp: dec_enc dec_consumes split: sum.splits)

interpretation rb: id_set_codec encode decode_prefix
  by unfold_locales (fact decode_prefix_encode decode_prefix_ascending)+

text \<open>C16: decoding an encoded set of ids gives the ids back and leaves what
  follows it, over array and bitmap containers, for every ascending list of 32-bit ids.\<close>

theorem roaring_round_trip:
  assumes "sorted_wrt (<) ids"
  shows "decode_prefix (encode ids @ rest) = Inr (ids, rest) \<and> decode (encode ids) = Inr ids"
  using assms by (simp add: decode_def rb.dec_enc rb.dec_enc_whole)

theorem roaring_round_trip_witness:
  "decode_prefix (encode [3, 70000] @ [9]) = Inr ([3, 70000], [9]) \<and> decode (encode [3, 70000]) = Inr [3, 70000]"
  by (rule roaring_round_trip) simp

text \<open>C19: whatever the bytes, a successful decode gives strictly ascending
  ids, at most \<open>2 ^ 14\<close> of them per input byte, and takes at least one byte.\<close>

theorem roaring_decode_safe:
  assumes "decode_prefix bs = Inr (ids, rest)"
  shows "sorted_wrt (<) ids \<and> length ids \<le> 16384 * length bs \<and> length rest < length bs"
proof -
  have "65536 * (length bs div 4) \<le> 16384 * length bs" by simp
  with decode_prefix_ascending [OF assms] show ?thesis by simp
qed

theorem roaring_decode_safe_witness:
  "sorted_wrt (<) [3, 70000 :: u32] \<and> length [3, 70000 :: u32] \<le> 16384 * length (encode [3, 70000]) \<and>
   length ([] :: byte list) < length (encode [3, 70000])"
  by (rule roaring_decode_safe) (simp add: rb.dec_enc_whole)

subsection \<open>Treemaps\<close>

lemma unat_high64: "unat (ucast (drop_bit 32 i) :: u32) = unat (i :: u64) div 2 ^ 32"
proof -
  have "unat i div 2 ^ 32 < 2 ^ 32" using unsigned_less [of i] by (simp add: div_less_iff_less_mult)
  then show ?thesis by (simp add: unsigned_ucast_eq unat_shr take_bit_nat_eq_self)
qed

lemma same_high64:
  "(ucast (drop_bit 32 (j :: u64)) :: u32) = ucast (drop_bit 32 (i :: u64)) \<longleftrightarrow>
     unat j div 2 ^ 32 = unat i div 2 ^ 32"
  by (simp add: unat_high64 flip: unat_inject)

lemma join_split64:
  "push_bit 32 (ucast (ucast (drop_bit 32 i) :: u32)) OR ucast (ucast i :: u32) = (i :: u64)"
proof (rule bit_word_eqI)
  fix k assume "k < LENGTH(64)"
  then show "bit (push_bit 32 (ucast (ucast (drop_bit 32 i) :: u32)) OR ucast (ucast i :: u32) :: u64) k = bit i k"
    by (cases "k < 32") (auto simp: bit_simps)
qed

lemma unat_low: "unat (ucast (i :: u64) :: u32) = unat i mod 2 ^ 32"
  by (simp add: unsigned_ucast_eq take_bit_nat_def)

text \<open>The ids that share a high half, in order: their low halves are in order.\<close>

lemma sorted_low:
  assumes "sorted_wrt (<) xs" and "\<forall>x \<in> set xs. unat (x :: u64) div 2 ^ 32 = h"
  shows "sorted_wrt (<) (map (\<lambda>x. ucast x :: u32) xs)"
proof -
  have "(ucast x :: u32) < ucast y" if "x \<in> set xs" "y \<in> set xs" "x < y" for x y :: u64
  proof -
    have "unat x = h * 2 ^ 32 + unat x mod 2 ^ 32" "unat y = h * 2 ^ 32 + unat y mod 2 ^ 32"
      using assms(2) that div_mult_mod_eq by metis+
    then show ?thesis using that(3) by (simp add: word_less_nat_alt unat_low)
  qed
  then show ?thesis
    using assms(1) by (auto simp: sorted_wrt_map intro: sorted_wrt_mono_rel)
qed

lemma read_put_keys:
  "sorted_wrt (<) ids \<Longrightarrow> \<exists>n out. put_keys ids = (of_nat n, out) \<and> read_keys n out = Inr ids \<and>
     4 * n \<le> length out \<and> (ids \<noteq> [] \<longrightarrow> n + unat (hd ids) div 2 ^ 32 \<le> 2 ^ 32)"
proof (induction ids rule: put_keys.induct)
  case (2 i "is")
  define same where "same = (\<lambda>j :: u64. (ucast (drop_bit 32 j) :: u32) = ucast (drop_bit 32 i))"
  let ?g = "i # takeWhile same is" and ?rest = "dropWhile same is"
  have "sorted_wrt (<) (takeWhile same is @ ?rest)" using "2.prems" by simp
  then have srt: "sorted_wrt (<) (takeWhile same is)" "sorted_wrt (<) ?rest"
    unfolding sorted_wrt_append by blast+
  with "2.IH" [OF refl same_def] obtain n out where IH: "put_keys ?rest = (of_nat n, out)"
    "read_keys n out = Inr ?rest" "4 * n \<le> length out"
    "?rest \<noteq> [] \<longrightarrow> n + unat (hd ?rest) div 2 ^ 32 \<le> 2 ^ 32"
    by blast
  have high: "\<forall>x \<in> set ?g. unat x div 2 ^ 32 = unat i div 2 ^ 32"
    by (auto simp: same_def same_high64 dest: set_takeWhileD)
  have g: "sorted_wrt (<) ?g"
    using srt(1) "2.prems" by (auto dest: set_takeWhileD)
  have low: "decode_prefix (encode (map ucast ?g) @ out) = Inr (map ucast ?g, out)"
    by (rule rb.dec_enc) (rule sorted_low [OF g high])
  have "push_bit 32 (ucast (ucast (drop_bit 32 i) :: u32)) OR ucast (ucast x :: u32) = x" if "x \<in> set ?g" for x
  proof -
    have "(ucast (drop_bit 32 x) :: u32) = ucast (drop_bit 32 i)"
      using high that by (simp only: same_high64)
    with join_split64 [of x] show ?thesis by simp
  qed
  then have join: "map (\<lambda>v. push_bit 32 (ucast (ucast (drop_bit 32 i) :: u32)) OR ucast v) (map (\<lambda>x. ucast x :: u32) ?g) = ?g"
    by (auto simp: comp_def intro!: map_idI)
  have bound: "Suc n + unat i div 2 ^ 32 \<le> 2 ^ 32"
  proof (cases "?rest = []")
    case True
    with IH have "n = 0" by simp
    moreover have "unat i div 2 ^ 32 < 2 ^ 32"
      using unsigned_less [of i] by (simp add: div_less_iff_less_mult)
    ultimately show ?thesis by simp
  next
    case False
    then have "hd ?rest \<in> set (dropWhile (\<lambda>j. unat j div 2 ^ 32 = unat i div 2 ^ 32) is)"
      by (simp add: same_def same_high64)
    from dropWhile_greater [OF mono_unat_div "2.prems" this] False IH(4) show ?thesis by simp
  qed
  have "put_keys (i # is) = (of_nat (Suc n), le_bytes 4 (ucast (drop_bit 32 i) :: u32) @ encode (map ucast ?g) @ out)"
    using IH(1) by (simp add: same_def Let_def)
  moreover have "read_keys (Suc n) (le_bytes 4 (ucast (drop_bit 32 i) :: u32) @ encode (map ucast ?g) @ out) = Inr (?g @ ?rest)"
    using low IH(2) join by (simp add: codec_simps del: list.map)
  ultimately show ?case
    using bound IH(3)
    by (intro exI [of _ "Suc n"]
        exI [of _ "le_bytes 4 (ucast (drop_bit 32 i) :: u32) @ encode (map ucast ?g) @ out"])
      (simp del: put_keys.simps read_keys.simps)
qed simp


text \<open>C25: decoding an encoded 64-bit id set gives the ids back, for every
  ascending list of ids.\<close>

theorem treemap_round_trip:
  assumes "sorted_wrt (<) ids"
  shows "decode_treemap (encode_treemap ids) = Inr ids"
proof -
  obtain n out where p: "put_keys ids = (of_nat n, out)" "read_keys n out = Inr ids"
    "4 * n \<le> length out" "ids \<noteq> [] \<longrightarrow> n + unat (hd ids) div 2 ^ 32 \<le> 2 ^ 32"
    using read_put_keys [OF assms] by blast
  have "n \<le> 2 ^ 32" using p by (cases ids) auto
  then have "unat (of_nat n :: u64) = n" by (simp add: unat_of_nat)
  with p show ?thesis
    by (simp add: decode_treemap_def encode_treemap_def Let_def)
qed

theorem treemap_round_trip_witness:
  "decode_treemap (encode_treemap [3, 5, 2 ^ 40]) = Inr [3, 5, 2 ^ 40]"
  by (rule treemap_round_trip) simp

text \<open>The treemap reader does not check that the high keys ascend:
  keys 1 and 0 in this order decode to ids that are not ascending.\<close>

lemma treemap_keys_unordered:
  "decode_treemap (le_bytes 8 (2 :: u64) @ (le_bytes 4 (1 :: u32) @ encode [0]) @ (le_bytes 4 (0 :: u32) @ encode [0])) =
     Inr [2 ^ 32, 0]"
proof -
  let ?keys = "(le_bytes 4 (1 :: u32) @ encode [0]) @ le_bytes 4 (0 :: u32) @ encode [0]"
  have fits: "\<not> (8 + 2 * length (encode [0])) div 4 < 2" by (simp add: div_less_iff_less_mult)
  have two: "unat (2 :: u64) = Suc (Suc 0)" by simp
  have "push_bit 32 1 OR 0 = (2 ^ 32 :: u64)" by (simp add: push_bit_eq_mult)
  moreover have "read_keys (Suc (Suc 0)) ?keys = Inr [push_bit 32 1 OR 0, 0]"
    by (simp add: codec_simps rb.dec_enc rb.dec_enc_whole)
  ultimately have keys: "read_keys (unat (2 :: u64)) ?keys = Inr [2 ^ 32, 0]"
    by (simp only: two)
  have "take 8 (le_bytes 8 (2 :: u64) @ ?keys) = le_bytes 8 (2 :: u64)"
    "drop 8 (le_bytes 8 (2 :: u64) @ ?keys) = ?keys"
    by simp_all
  then have "decode_treemap (le_bytes 8 (2 :: u64) @ ?keys) = read_keys (unat (2 :: u64)) ?keys"
    using fits unfolding decode_treemap_def Let_def by simp
  with keys show ?thesis by (simp only: append_assoc)
qed

end
