(* ===== verification/Base_Paths.thy ===== *)
theory Base_Paths
  imports Row_Id_Codec Manifest
begin

text \<open>
  Base paths, branches and base ids of \<open>src/src/table/base_paths.cpp\<close>: fields that live in the
  unknown bytes of a manifest, a data file, a deletion file or an index, and the directories
  they lead to. A \<open>std::filesystem::path\<close> is its string, \<open>p / name\<close> is \<open>path_join\<close>.
\<close>

subsection \<open>Fields of the unknown bytes\<close>

definition without_field :: "byte list \<Rightarrow> u32 \<Rightarrow> byte list" where
  "without_field unknown number =
     concat (map f_raw (filter (\<lambda>f. f_number f \<noteq> number) (fst (read_fields reader_next empty_field unknown))))"

definition varint_step :: "string \<Rightarrow> u32 \<Rightarrow> u32 option \<Rightarrow> field \<Rightarrow> u32 option result" where
  "varint_step too_large number out f =
     (if f_number f = number \<and> f_wire f = 0 then
        if f_value f > 0xFFFFFFFF then Inl too_large else Inr (Some (ucast (f_value f)))
      else Inr out)"

definition find_varint :: "byte list \<Rightarrow> u32 \<Rightarrow> u32 option result" where
  "find_varint unknown number =
     (let (fs, ok) = read_fields reader_next empty_field unknown in
      sbind (sfold (varint_step ''base_id does not fit in 32 bits'' number) None fs) (\<lambda>out.
        if \<not> ok then Inl ''malformed base_id'' else Inr out))"

definition put_base_id :: "byte list \<Rightarrow> u32 option \<Rightarrow> byte list" where
  "put_base_id unknown i =
     without_field unknown 7 @ (case i of None \<Rightarrow> [] | Some v \<Rightarrow> put_key 7 0 @ put_varint (ucast v))"

subsection \<open>Base paths and branches of a manifest\<close>

record base_path =
  bp_id :: u32
  bp_name :: string
  bp_has_name :: bool
  bp_is_dataset_root :: bool
  bp_path :: string

definition new_base_path :: base_path where
  "new_base_path = \<lparr>bp_id = 0, bp_name = [], bp_has_name = False, bp_is_dataset_root = False, bp_path = []\<rparr>"

definition base_path_step :: "base_path \<Rightarrow> field \<Rightarrow> base_path result" where
  "base_path_step out f =
     (if f_number f = 1 then
        if f_wire f \<noteq> 0 \<or> f_value f > 0xFFFFFFFF then Inl ''malformed base path id''
        else Inr (out\<lparr>bp_id := ucast (f_value f)\<rparr>)
      else if f_number f = 2 then Inr (out\<lparr>bp_has_name := True, bp_name := text_of (data_of f)\<rparr>)
      else if f_number f = 3 then Inr (out\<lparr>bp_is_dataset_root := f_value f \<noteq> 0\<rparr>)
      else if f_number f = 4 then Inr (out\<lparr>bp_path := text_of (data_of f)\<rparr>)
      else Inr out)"

definition decode_base_path :: "byte list \<Rightarrow> base_path result" where
  "decode_base_path bs =
     (let (fs, ok) = read_fields reader_next empty_field bs in
      sbind (sfold base_path_step new_base_path fs) (\<lambda>out.
        if \<not> ok then Inl ''malformed base path'' else Inr out))"

definition base_paths_step :: "base_path list \<Rightarrow> field \<Rightarrow> base_path list result" where
  "base_paths_step out f =
     (if f_number f \<noteq> 18 then Inr out
      else if f_wire f \<noteq> 2 then Inl ''malformed base paths''
      else sbind (decode_base_path (data_of f)) (\<lambda>base. Inr (out @ [base])))"

definition read_base_paths :: "manifest \<Rightarrow> base_path list result" where
  "read_base_paths m =
     (let (fs, ok) = read_fields reader_next empty_field (m_unknown m) in
      sbind (sfold base_paths_step [] fs) (\<lambda>out.
        if \<not> ok then Inl ''malformed manifest base paths'' else Inr out))"

definition branch_step :: "string \<Rightarrow> field \<Rightarrow> string" where
  "branch_step out f = (if f_number f = 20 \<and> f_wire f = 2 then text_of (data_of f) else out)"

definition read_manifest_branch :: "manifest \<Rightarrow> string result" where
  "read_manifest_branch m =
     (let (fs, ok) = read_fields reader_next empty_field (m_unknown m) in
      if \<not> ok then Inl ''malformed manifest branch'' else Inr (foldl branch_step [] fs))"

definition encode_base_path :: "base_path \<Rightarrow> byte list" where
  "encode_base_path base =
     (if bp_id base \<noteq> 0 then put_key 1 0 @ put_varint (ucast (bp_id base)) else [])
     @ (if bp_has_name base then put_bytes_field 2 (bytes_of (bp_name base)) else [])
     @ put_u64_field 3 (if bp_is_dataset_root base then 1 else 0)
     @ put_bytes_field 4 (bytes_of (bp_path base))"

definition write_base_paths :: "manifest \<Rightarrow> base_path list \<Rightarrow> manifest" where
  "write_base_paths m bases =
     m\<lparr>m_unknown := without_field (m_unknown m) 18
         @ concat (map (\<lambda>base. put_bytes_field 18 (encode_base_path base)) bases)\<rparr>"

definition write_manifest_branch :: "manifest \<Rightarrow> string \<Rightarrow> manifest" where
  "write_manifest_branch m branch =
     m\<lparr>m_unknown := without_field (m_unknown m) 20
         @ (if branch \<noteq> [] then put_bytes_field 20 (bytes_of branch) else [])\<rparr>"

subsection \<open>Base ids\<close>

definition data_file_base_id :: "data_file \<Rightarrow> u32 option result" where
  "data_file_base_id file = find_varint (df_unknown file) 7"

definition set_data_file_base_id :: "data_file \<Rightarrow> u32 option \<Rightarrow> data_file" where
  "set_data_file_base_id file i = file\<lparr>df_unknown := put_base_id (df_unknown file) i\<rparr>"

definition deletion_file_base_id :: "deletion_file \<Rightarrow> u32 option result" where
  "deletion_file_base_id file = find_varint (del_unknown file) 7"

definition set_deletion_file_base_id :: "deletion_file \<Rightarrow> u32 option \<Rightarrow> deletion_file" where
  "set_deletion_file_base_id file i = file\<lparr>del_unknown := put_base_id (del_unknown file) i\<rparr>"

definition set_index_base_id :: "index_metadata \<Rightarrow> u32 option \<Rightarrow> index_metadata" where
  "set_index_base_id index i =
     index\<lparr>ix_raw := without_field (ix_raw index) 9
        @ (case i of None \<Rightarrow> [] | Some v \<Rightarrow> put_key 9 0 @ put_varint (ucast v))\<rparr>"

definition index_base_id :: "index_metadata \<Rightarrow> u32 option result" where
  "index_base_id index =
     (let (fs, ok) = read_fields reader_next empty_field (ix_raw index) in
      sbind (sfold (varint_step ''index base_id does not fit in 32 bits'' 9) None fs) (\<lambda>out.
        if \<not> ok then Inl ''malformed index base_id'' else Inr out))"

subsection \<open>Directories\<close>

definition path_join :: "string \<Rightarrow> string \<Rightarrow> string" where
  "path_join p name = (if p = [] \<or> last p = CHR ''/'' then p @ name else p @ ''/'' @ name)"

definition find_base :: "base_path list \<Rightarrow> u32 \<Rightarrow> base_path result" where
  "find_base bases base_id =
     need (''refers to unknown base path '' @ to_string (unat base_id)) (find (\<lambda>b. bp_id b = base_id) bases)"

text \<open>\<open>error = prefix + error\<close> on failure.\<close>

definition with_prefix :: "string \<Rightarrow> 'a result \<Rightarrow> 'a result" where
  "with_prefix p r = (case r of Inl e \<Rightarrow> Inl (p @ e) | Inr x \<Rightarrow> Inr x)"

definition data_file_dir :: "string \<Rightarrow> base_path list \<Rightarrow> data_file \<Rightarrow> string result" where
  "data_file_dir dataset_path bases file =
     sbind (data_file_base_id file) (\<lambda>base_id.
     case base_id of
       None \<Rightarrow> Inr (path_join dataset_path ''data'')
     | Some b \<Rightarrow> sbind (with_prefix ''data file '' (find_base bases b)) (\<lambda>base.
         Inr (if bp_is_dataset_root base then path_join (bp_path base) ''data'' else bp_path base)))"

definition deletion_dir :: "string \<Rightarrow> base_path list \<Rightarrow> u32 option \<Rightarrow> string result" where
  "deletion_dir dataset_path bases base_id =
     (case base_id of
        None \<Rightarrow> Inr (path_join dataset_path ''_deletions'')
      | Some b \<Rightarrow> sbind (with_prefix ''deletion file '' (find_base bases b)) (\<lambda>base.
          if \<not> bp_is_dataset_root base then
            Inl (''deletion file names base path '' @ to_string (unat b) @ '', which is not a dataset root'')
          else Inr (path_join (bp_path base) ''_deletions'')))"

definition deletion_file_dir_of :: "string \<Rightarrow> base_path list \<Rightarrow> deletion_file \<Rightarrow> string result" where
  "deletion_file_dir_of dataset_path bases file =
     sbind (deletion_file_base_id file) (deletion_dir dataset_path bases)"

definition deletion_file_dir :: "string \<Rightarrow> manifest \<Rightarrow> deletion_file \<Rightarrow> string result" where
  "deletion_file_dir dataset_path m file =
     sbind (deletion_file_base_id file) (\<lambda>base_id.
     if base_id = None then deletion_dir dataset_path [] base_id
     else sbind (read_base_paths m) (\<lambda>bases. deletion_dir dataset_path bases base_id))"

definition indices_dir :: "string \<Rightarrow> base_path list \<Rightarrow> u32 option \<Rightarrow> string result" where
  "indices_dir dataset_path bases base_id =
     (case base_id of
        None \<Rightarrow> Inr (path_join dataset_path ''_indices'')
      | Some b \<Rightarrow> sbind (with_prefix ''index '' (find_base bases b)) (\<lambda>base.
          Inr (if bp_is_dataset_root base then path_join (bp_path base) ''_indices'' else bp_path base)))"

definition hex_digit :: "nat \<Rightarrow> char" where
  "hex_digit n = ''0123456789abcdef'' ! n"

definition uuid_string :: "byte list \<Rightarrow> string" where
  "uuid_string uuid = concat (map (\<lambda>(i, b).
     (if i = 4 \<or> i = 6 \<or> i = 8 \<or> i = 10 then ''-'' else []) @
     [hex_digit (unat (drop_bit 4 b)), hex_digit (unat (b AND 0x0F))]) (enumerate 0 uuid))"

definition index_dir_of :: "string \<Rightarrow> manifest \<Rightarrow> index_metadata \<Rightarrow> string result" where
  "index_dir_of dataset_path m index =
     sbind (index_base_id index) (\<lambda>base_id.
     sbind (if base_id \<noteq> None then read_base_paths m else Inr []) (\<lambda>bases.
     sbind (indices_dir dataset_path bases base_id) (\<lambda>dir.
       Inr (path_join dir (uuid_string (ix_uuid index))))))"

subsection \<open>Round trips\<close>

lemma without_field_drop: "without_field u n = drop_fields (\<lambda>k. k = n) u"
  by (simp add: without_field_def drop_fields_def)

lemma read_without_field:
  "\<exists>gs h. read_fields reader_next f (without_field u n @ t) = apfst ((@) gs) (read_fields reader_next h t) \<and>
     list_all2 same_field gs (filter (\<lambda>f. f_number f \<noteq> n) (fst (read_fields reader_next empty_field u))) \<and>
     (\<forall>g \<in> set gs. f_number g \<noteq> n)"
proof -
  obtain gs h where gs: "read_fields reader_next f (without_field u n @ t) = apfst ((@) gs) (read_fields reader_next h t)"
    "list_all2 same_field gs (filter (\<lambda>f. f_number f \<noteq> n) (fst (read_fields reader_next empty_field u)))"
    using read_drop_fields [of f "\<lambda>k. k = n" u t] unfolding without_field_drop by blast
  moreover have "\<forall>g \<in> set gs. f_number g \<noteq> n"
    using same_fields_all [OF gs(2), of "\<lambda>k. k \<noteq> n"] by simp
  ultimately show ?thesis by blast
qed

lemma sfold_varint_other: "\<forall>g \<in> set gs. f_number g \<noteq> n \<Longrightarrow> sfold (varint_step e n) out gs = Inr out"
  by (induction gs) (simp_all add: varint_step_def)

lemma ucast_u32_small: "\<not> (0xFFFFFFFF :: u64) < ucast (v :: u32)"
  using unat_u32 [of v] by (simp add: word_less_nat_alt unat_ucast_up)

text \<open>A varint field set in bytes that may hold it already, read back.\<close>

lemma read_put_varint:
  fixes i :: "u32 option"
  shows "\<exists>fs. read_fields reader_next empty_field
      (without_field u n @ (case i of None \<Rightarrow> [] | Some v \<Rightarrow> put_key n 0 @ put_varint (ucast v))) = (fs, True) \<and>
    sfold (varint_step e n) None fs = Inr i"
proof -
  let ?t = "case i of None \<Rightarrow> [] | Some v \<Rightarrow> put_key n 0 @ put_varint (ucast v)"
  obtain gs h where gs: "read_fields reader_next empty_field (without_field u n @ ?t) = apfst ((@) gs) (read_fields reader_next h ?t)"
    "\<forall>g \<in> set gs. f_number g \<noteq> n"
    using read_without_field by blast
  have "\<exists>ts. read_fields reader_next h ?t = (ts, True) \<and> sfold (varint_step e n) None ts = Inr i"
  proof (cases i)
    case None
    then show ?thesis by (simp add: codec_simps)
  next
    case (Some v)
    have "reader_next h (put_key n 0 @ put_varint (ucast v)) =
        Next (h\<lparr>f_number := n, f_wire := 0, f_value := ucast v, f_raw := put_key n 0 @ put_varint (ucast v)\<rparr>) []"
      using reader_next_varint [of h n "ucast v" "[]"] by simp
    then show ?thesis
      using Some ucast_u32_small [of v] ucast_up_down [of v, where 'b = 64]
      by (simp add: pr.read_fields_unfold [of h "put_key n 0 @ _"] codec_simps varint_step_def)
  qed
  with gs show ?thesis by (auto simp: sfold_append sfold_varint_other)
qed

lemma find_put_base_id: "find_varint (put_base_id u i) 7 = Inr i"
proof -
  obtain fs where "read_fields reader_next empty_field (put_base_id u i) = (fs, True)"
    "sfold (varint_step ''base_id does not fit in 32 bits'' 7) None fs = Inr i"
    unfolding put_base_id_def using read_put_varint by blast
  then show ?thesis by (simp add: find_varint_def)
qed

lemma index_put_base_id: "index_base_id (set_index_base_id index i) = Inr i"
proof -
  obtain fs where "read_fields reader_next empty_field (ix_raw (set_index_base_id index i)) = (fs, True)"
    "sfold (varint_step ''index base_id does not fit in 32 bits'' 9) None fs = Inr i"
    unfolding set_index_base_id_def using read_put_varint [of "ix_raw index" 9 i] by auto
  then show ?thesis by (simp add: index_base_id_def)
qed

text \<open>The base id set on a data file, a deletion file or an index is the one
  read back, zero included, whatever bytes the message carried before.\<close>

lemma base_id_round_trip:
  "data_file_base_id (set_data_file_base_id file i) = Inr i \<and>
   deletion_file_base_id (set_deletion_file_base_id deletion i) = Inr i \<and>
   index_base_id (set_index_base_id index i) = Inr i"
  by (simp add: data_file_base_id_def set_data_file_base_id_def deletion_file_base_id_def
      set_deletion_file_base_id_def find_put_base_id index_put_base_id)

text \<open>A base id of zero names base path 0 like any other id; it does
  not mean the dataset's own directory.\<close>

lemma base_id_zero_is_a_base:
  "data_file_dir dataset_path [] (set_data_file_base_id file (Some 0)) =
     Inl ''data file refers to unknown base path 0''"
proof -
  have "data_file_base_id (set_data_file_base_id file (Some 0)) = Inr (Some 0)"
    by (simp add: data_file_base_id_def set_data_file_base_id_def find_put_base_id)
  then show ?thesis
    by (simp add: data_file_dir_def find_base_def with_prefix_def to_string.simps) (code_simp)
qed

text \<open>What a reader sees of a base path: a name is kept only when it has one.\<close>

definition base_path_ok :: "base_path \<Rightarrow> bool" where
  "base_path_ok base \<longleftrightarrow> (\<not> bp_has_name base \<longrightarrow> bp_name base = []) \<and>
     length (bp_name base) < 2 ^ 60 \<and> length (bp_path base) < 2 ^ 60"

lemma decode_encode_base_path:
  assumes "base_path_ok base"
  shows "decode_base_path (encode_base_path base) = Inr base"
proof -
  let ?i = "bp_id base" and ?r = "(if bp_is_dataset_root base then 1 else 0) :: u64"
  let ?t = "(if bp_has_name base then put_bytes_field 2 (bytes_of (bp_name base)) else [])
     @ put_u64_field 3 ?r @ put_bytes_field 4 (bytes_of (bp_path base))"
  have len: "length (bytes_of (bp_name base)) < 2 ^ 64" "length (bytes_of (bp_path base)) < 2 ^ 64"
    using assms by (simp_all add: base_path_ok_def)
  have tail: "\<exists>fs. read_fields reader_next f ?t = (fs, True) \<and>
      sfold base_path_step (new_base_path\<lparr>bp_id := i\<rparr>) fs = Inr (base\<lparr>bp_id := i\<rparr>)" for f i
    using assms len
    by (cases base; cases "bp_has_name base"; cases "bp_is_dataset_root base")
      (auto simp: codec_simps base_path_step_def data_of_def new_base_path_def base_path_ok_def)
  have "\<exists>fs. read_fields reader_next empty_field (encode_base_path base) = (fs, True) \<and>
      sfold base_path_step new_base_path fs = Inr base"
  proof (cases "?i = 0")
    case True
    then have "encode_base_path base = ?t" by (simp add: encode_base_path_def)
    with tail [of empty_field 0] True show ?thesis by (cases base) (simp add: new_base_path_def)
  next
    case False
    let ?g = "empty_field\<lparr>f_number := 1, f_wire := 0, f_value := ucast ?i, f_raw := put_key 1 0 @ put_varint (ucast ?i)\<rparr>"
    obtain fs where fs: "read_fields reader_next ?g ?t = (fs, True)"
      "sfold base_path_step (new_base_path\<lparr>bp_id := ?i\<rparr>) fs = Inr (base\<lparr>bp_id := ?i\<rparr>)"
      using tail by blast
    have "encode_base_path base = put_key 1 0 @ put_varint (ucast ?i) @ ?t"
      using False by (simp add: encode_base_path_def)
    then have "read_fields reader_next empty_field (encode_base_path base) = (?g # fs, True)"
      using fs(1) by (simp add: pr.read_fields_unfold [of empty_field "put_key 1 0 @ _"] reader_next_varint)
    moreover have "base_path_step new_base_path ?g = Inr (new_base_path\<lparr>bp_id := ?i\<rparr>)"
      using ucast_u32_small [of ?i] ucast_up_down [of ?i, where 'b = 64] by (simp add: base_path_step_def)
    ultimately show ?thesis using fs(2) by simp
  qed
  then show ?thesis by (auto simp: decode_base_path_def)
qed

lemma length_encode_base_path: "base_path_ok base \<Longrightarrow> length (encode_base_path base) < 2 ^ 64"
  using length_put_bytes_field [of 2 "bytes_of (bp_name base)"] length_put_bytes_field [of 4 "bytes_of (bp_path base)"]
    length_put_u64_field [of 3 1] length_put_varint [of "ucast (bp_id base)"]
    length_put_varint [of "push_bit 3 (ucast (1 :: u32)) OR ucast (0 :: u32)"]
  by (auto simp: encode_base_path_def base_path_ok_def put_key_def put_u64_field_def)

lemma sfold_base_paths_other:
  "\<forall>g \<in> set gs. f_number g \<noteq> 18 \<Longrightarrow> sfold base_paths_step out gs = Inr out"
  by (induction gs) (simp_all add: base_paths_step_def)

lemma read_written_base_paths:
  "\<forall>base \<in> set bases. base_path_ok base \<Longrightarrow>
   \<exists>fs. read_fields reader_next f (concat (map (\<lambda>base. put_bytes_field 18 (encode_base_path base)) bases)) = (fs, True) \<and>
     sfold base_paths_step out fs = Inr (out @ bases)"
proof (induction bases arbitrary: f out)
  case (Cons base bases)
  let ?e = "encode_base_path base"
  let ?g = "f\<lparr>f_number := 18, f_wire := 2, f_data := Some ?e, f_raw := put_bytes_field 18 ?e\<rparr>"
  have "base_paths_step out ?g = Inr (out @ [base])"
    using Cons.prems by (simp add: base_paths_step_def data_of_def decode_encode_base_path)
  moreover obtain fs where
    "read_fields reader_next ?g (concat (map (\<lambda>base. put_bytes_field 18 (encode_base_path base)) bases)) = (fs, True)"
    "sfold base_paths_step (out @ [base]) fs = Inr ((out @ [base]) @ bases)"
    using Cons.IH [of ?g "out @ [base]"] Cons.prems by auto
  ultimately show ?case
    using length_encode_base_path [of base] Cons.prems by (simp add: pr.fields_bytes)
qed (simp add: codec_simps)

text \<open>C26: the base paths and the branch written into a manifest are the ones
  read back, whatever else its unknown bytes hold.\<close>

theorem base_paths_round_trip:
  assumes "\<forall>base \<in> set bases. base_path_ok base" and "length branch < 2 ^ 64"
  shows "read_base_paths (write_base_paths m bases) = Inr bases \<and>
    read_manifest_branch (write_manifest_branch m branch) = Inr branch"
proof
  let ?t = "concat (map (\<lambda>base. put_bytes_field 18 (encode_base_path base)) bases)"
  obtain gs h where gs: "read_fields reader_next empty_field (without_field (m_unknown m) 18 @ ?t) =
      apfst ((@) gs) (read_fields reader_next h ?t)" "\<forall>g \<in> set gs. f_number g \<noteq> 18"
    using read_without_field by blast
  obtain fs where "read_fields reader_next h ?t = (fs, True)" "sfold base_paths_step [] fs = Inr ([] @ bases)"
    using read_written_base_paths [OF assms(1)] by blast
  with gs show "read_base_paths (write_base_paths m bases) = Inr bases"
    by (simp add: read_base_paths_def write_base_paths_def sfold_append sfold_base_paths_other)
  let ?b = "if branch \<noteq> [] then put_bytes_field 20 (bytes_of branch) else []"
  obtain gs h where gs: "read_fields reader_next empty_field (without_field (m_unknown m) 20 @ ?b) =
      apfst ((@) gs) (read_fields reader_next h ?b)" "\<forall>g \<in> set gs. f_number g \<noteq> 20"
    using read_without_field by blast
  have "foldl branch_step [] gs = []"
    using gs(2) by (induction gs) (simp_all add: branch_step_def)
  moreover obtain fs where "read_fields reader_next h ?b = (fs, True)" "foldl branch_step [] fs = branch"
    using assms(2) by (cases "branch = []") (simp_all add: codec_simps branch_step_def data_of_def)
  ultimately show "read_manifest_branch (write_manifest_branch m branch) = Inr branch"
    using gs(1) by (simp add: read_manifest_branch_def write_manifest_branch_def)
qed

theorem base_paths_round_trip_witness:
  "read_base_paths (write_base_paths new_manifest [new_base_path\<lparr>bp_id := 1, bp_path := ''/a''\<rparr>]) =
     Inr [new_base_path\<lparr>bp_id := 1, bp_path := ''/a''\<rparr>] \<and>
   read_manifest_branch (write_manifest_branch new_manifest ''dev'') = Inr ''dev''"
  by (rule base_paths_round_trip) (simp_all add: base_path_ok_def new_base_path_def)

end
