(* ===== verification/Commit_Conflicts.thy ===== *)
theory Commit_Conflicts
  imports Manifest
begin

text \<open>
  Conflict checks of \<open>src/src/table/commit_conflicts.cpp\<close>: the verdict on a change (\<open>ours\<close>) against a
  transaction that was committed after the version the change was made from (\<open>theirs\<close>). A
  \<open>std::set\<close> is a set; the sets are those of the elements of lists, so every check computes.
\<close>

datatype verdict = Compatible | Retryable | Incompatible

definition retry_if :: "bool \<Rightarrow> verdict" where
  "retry_if b = (if b then Retryable else Compatible)"

definition refuse_if :: "bool \<Rightarrow> verdict" where
  "refuse_if b = (if b then Incompatible else Compatible)"

subsection \<open>What an operation touches\<close>

definition fragment_ids :: "data_fragment list \<Rightarrow> u64 set" where
  "fragment_ids fragments = set (map fr_id fragments)"

definition delete_update_ids :: "operation \<Rightarrow> u64 set" where
  "delete_update_ids op = fragment_ids (op_updated_fragments op) \<union> set (op_removed_ids op)"

definition rewrite_ids :: "operation \<Rightarrow> u64 set" where
  "rewrite_ids op = set (map fr_id (concat (map rg_old (op_groups op))))"

definition replacement_ids :: "operation \<Rightarrow> u64 set" where
  "replacement_ids op = set (map fst (op_replacements op))"

definition overlay_ids :: "operation \<Rightarrow> u64 set" where
  "overlay_ids op = set (map fst (op_overlay_groups op))"

definition intersects :: "u64 set \<Rightarrow> u64 set \<Rightarrow> bool" where
  "intersects a b = (\<exists>i \<in> b. i \<in> a)"

text \<open>The fragments the indices cover, \<open>None\<close> when one of them records no coverage.\<close>

definition index_fragments :: "index_metadata list \<Rightarrow> u64 set option" where
  "index_fragments indices =
     (if list_all ix_has_bitmap indices
      then Some (set (map ucast (concat (map ix_fragment_ids indices)))) else None)"

definition may_alter_nullability :: "operation \<Rightarrow> bool" where
  "may_alter_nullability op = ((op_kind op = Project \<or> op_kind op = Merge) \<and> \<not> op_preserves_nullability op)"

definition supplies_values :: "operation \<Rightarrow> bool" where
  "supplies_values op = (op_kind op \<in> {Append, Update, DataReplacement, DataOverlay})"

definition updates_schema_or_field_metadata :: "operation \<Rightarrow> bool" where
  "updates_schema_or_field_metadata op =
     (op_kind op = UpdateConfig \<and>
      ((case op_schema_metadata_updates op of None \<Rightarrow> False
        | Some s \<Rightarrow> um_replace s \<or> um_entries s \<noteq> []) \<or>
       list_ex (\<lambda>(_, u). um_replace u \<or> um_entries u \<noteq> []) (op_field_metadata_updates op)))"

definition upserted_config_keys :: "operation \<Rightarrow> string set" where
  "upserted_config_keys op =
     (if op_kind op = Overwrite then set (map fst (op_config_upserts op)) else {}) \<union>
     (case op_config_updates op of
        Some u \<Rightarrow> if op_kind op = UpdateConfig then set (map fst (filter (\<lambda>(_, v). v \<noteq> None) (um_entries u))) else {}
      | None \<Rightarrow> {})"

definition deleted_config_keys :: "operation \<Rightarrow> string set" where
  "deleted_config_keys op =
     (case op_config_updates op of
        Some u \<Rightarrow> if op_kind op = UpdateConfig then set (map fst (filter (\<lambda>(_, v). v = None) (um_entries u))) else {}
      | None \<Rightarrow> {})"

definition upsert_key_conflict :: "operation \<Rightarrow> operation \<Rightarrow> bool" where
  "upsert_key_conflict a b =
     ((\<exists>k \<in> upserted_config_keys a. k \<in> upserted_config_keys b \<or> k \<in> deleted_config_keys b) \<or>
      (\<exists>k \<in> upserted_config_keys b. k \<in> upserted_config_keys a \<or> k \<in> deleted_config_keys a))"

definition update_maps_conflict :: "update_map option \<Rightarrow> update_map option \<Rightarrow> bool" where
  "update_maps_conflict a b =
     (case (a, b) of
        (Some u, Some v) \<Rightarrow> um_replace u \<or> um_replace v \<or>
          (\<exists>k \<in> set (map fst (um_entries v)). k \<in> set (map fst (um_entries u)))
      | _ \<Rightarrow> False)"

definition modifies_same_metadata :: "operation \<Rightarrow> operation \<Rightarrow> bool" where
  "modifies_same_metadata a b =
     (op_kind a = UpdateConfig \<and> op_kind b = UpdateConfig \<and>
      (update_maps_conflict (op_table_metadata_updates a) (op_table_metadata_updates b) \<or>
       (op_schema_metadata_updates a \<noteq> None \<and> op_schema_metadata_updates b \<noteq> None) \<or>
       (\<exists>k \<in> set (map fst (op_field_metadata_updates a)). k \<in> set (map fst (op_field_metadata_updates b)))))"

definition named :: "index_metadata list \<Rightarrow> string \<Rightarrow> bool" where
  "named list name = list_ex (\<lambda>i. ix_name i = name) list"

definition index_names_conflict :: "operation \<Rightarrow> operation \<Rightarrow> bool" where
  "index_names_conflict ours theirs =
     (list_ex (\<lambda>n. named (op_new_indices theirs) (ix_name n) \<or>
          (\<not> named (op_removed_indices ours) (ix_name n) \<and> named (op_removed_indices theirs) (ix_name n)))
        (op_new_indices ours) \<or>
      list_ex (\<lambda>c. \<not> named (op_removed_indices theirs) (ix_name c) \<and> named (op_removed_indices ours) (ix_name c))
        (op_new_indices theirs) \<or>
      list_ex (\<lambda>r. list_ex (\<lambda>cr. ix_uuid cr = ix_uuid r \<and>
          (let touches = list_ex (\<lambda>i. ix_name i = ix_name r \<or> ix_name i = ix_name cr) in
           touches (op_new_indices ours) \<or> touches (op_new_indices theirs)))
          (op_removed_indices theirs))
        (op_removed_indices ours))"

subsection \<open>One arm per operation of ours\<close>

definition delete_check :: "operation \<Rightarrow> operation \<Rightarrow> verdict" where
  "delete_check ours theirs =
     (case op_kind theirs of
        Append \<Rightarrow> Compatible
      | ReserveFragments \<Rightarrow> Compatible
      | Project \<Rightarrow> Compatible
      | UpdateConfig \<Rightarrow> Compatible
      | CreateIndex \<Rightarrow> Compatible
      | DataOverlay \<Rightarrow> Compatible
      | UpdateBases \<Rightarrow> Compatible
      | Rewrite \<Rightarrow> retry_if (intersects (delete_update_ids ours) (rewrite_ids theirs))
      | DataReplacement \<Rightarrow> retry_if (intersects (delete_update_ids ours) (replacement_ids theirs))
      | Update \<Rightarrow> retry_if (intersects (delete_update_ids ours) (delete_update_ids theirs))
      | Delete \<Rightarrow> retry_if (intersects (delete_update_ids ours) (delete_update_ids theirs))
      | Merge \<Rightarrow> Retryable
      | Overwrite \<Rightarrow> Incompatible
      | Restore \<Rightarrow> Incompatible
      | _ \<Rightarrow> Retryable)"

definition update_check :: "operation \<Rightarrow> operation \<Rightarrow> verdict" where
  "update_check ours theirs =
     (case op_kind theirs of
        CreateIndex \<Rightarrow> Compatible
      | ReserveFragments \<Rightarrow> Compatible
      | Project \<Rightarrow> Compatible
      | UpdateConfig \<Rightarrow> Compatible
      | UpdateBases \<Rightarrow> Compatible
      | Append \<Rightarrow> Compatible
      | DataOverlay \<Rightarrow>
          if op_fragments ours = [] then Compatible
          else retry_if (intersects (delete_update_ids ours) (overlay_ids theirs))
      | Rewrite \<Rightarrow> retry_if (intersects (delete_update_ids ours) (rewrite_ids theirs))
      | DataReplacement \<Rightarrow> retry_if (intersects (delete_update_ids ours) (replacement_ids theirs))
      | Update \<Rightarrow> retry_if (intersects (delete_update_ids ours) (delete_update_ids theirs))
      | Delete \<Rightarrow> retry_if (intersects (delete_update_ids ours) (delete_update_ids theirs))
      | Merge \<Rightarrow> Retryable
      | Overwrite \<Rightarrow> Incompatible
      | Restore \<Rightarrow> Incompatible
      | _ \<Rightarrow> Retryable)"

definition create_index_check :: "operation \<Rightarrow> operation \<Rightarrow> verdict" where
  "create_index_check ours theirs =
     (case op_kind theirs of
        Append \<Rightarrow> Compatible
      | DataOverlay \<Rightarrow> Compatible
      | UpdateBases \<Rightarrow> Compatible
      | Delete \<Rightarrow> Compatible
      | Update \<Rightarrow> Compatible
      | Merge \<Rightarrow> Compatible
      | ReserveFragments \<Rightarrow> Compatible
      | Project \<Rightarrow> Compatible
      | UpdateConfig \<Rightarrow> Compatible
      | CreateIndex \<Rightarrow> retry_if (index_names_conflict ours theirs)
      | Rewrite \<Rightarrow>
          (case index_fragments (op_new_indices ours) of
             None \<Rightarrow> Retryable
           | Some covered \<Rightarrow> retry_if (intersects covered (rewrite_ids theirs)))
      | DataReplacement \<Rightarrow>
          retry_if (\<exists>f \<in> set (concat (map (\<lambda>r. df_fields (snd r)) (op_replacements theirs))).
            f \<in> set (concat (map ix_fields (op_new_indices ours))))
      | Overwrite \<Rightarrow> Incompatible
      | Restore \<Rightarrow> Incompatible
      | _ \<Rightarrow> Retryable)"

definition rewrite_check :: "operation \<Rightarrow> operation \<Rightarrow> verdict" where
  "rewrite_check ours theirs =
     (let replaced = rewrite_ids ours in
      case op_kind theirs of
        Append \<Rightarrow> Compatible
      | ReserveFragments \<Rightarrow> Compatible
      | Project \<Rightarrow> Compatible
      | UpdateConfig \<Rightarrow> Compatible
      | UpdateBases \<Rightarrow> Compatible
      | Delete \<Rightarrow> retry_if (intersects replaced (delete_update_ids theirs))
      | Update \<Rightarrow> retry_if (intersects replaced (delete_update_ids theirs))
      | DataOverlay \<Rightarrow> retry_if (intersects replaced (overlay_ids theirs))
      | Rewrite \<Rightarrow> retry_if (intersects replaced (rewrite_ids theirs))
      | DataReplacement \<Rightarrow> retry_if (intersects replaced (replacement_ids theirs))
      | Merge \<Rightarrow> Retryable
      | CreateIndex \<Rightarrow>
          (case index_fragments (op_new_indices theirs) of
             None \<Rightarrow> Retryable
           | Some covered \<Rightarrow> retry_if (intersects replaced covered))
      | Overwrite \<Rightarrow> Incompatible
      | Restore \<Rightarrow> Incompatible
      | _ \<Rightarrow> Retryable)"

definition merge_check :: "operation \<Rightarrow> verdict" where
  "merge_check theirs =
     (case op_kind theirs of
        CreateIndex \<Rightarrow> Compatible
      | ReserveFragments \<Rightarrow> Compatible
      | UpdateConfig \<Rightarrow> Compatible
      | UpdateBases \<Rightarrow> Compatible
      | Overwrite \<Rightarrow> Incompatible
      | Restore \<Rightarrow> Incompatible
      | Project \<Rightarrow> Incompatible
      | _ \<Rightarrow> Retryable)"

definition project_check :: "operation \<Rightarrow> verdict" where
  "project_check theirs =
     (case op_kind theirs of
        Merge \<Rightarrow> Retryable
      | Project \<Rightarrow> Retryable
      | Overwrite \<Rightarrow> Incompatible
      | Restore \<Rightarrow> Incompatible
      | Clone \<Rightarrow> Retryable
      | Other _ \<Rightarrow> Retryable
      | _ \<Rightarrow> Compatible)"

definition reserve_check :: "operation \<Rightarrow> verdict" where
  "reserve_check theirs =
     (case op_kind theirs of
        Overwrite \<Rightarrow> Incompatible
      | Restore \<Rightarrow> Incompatible
      | Clone \<Rightarrow> Retryable
      | Other _ \<Rightarrow> Retryable
      | _ \<Rightarrow> Compatible)"

definition restore_check :: "operation \<Rightarrow> verdict" where
  "restore_check theirs =
     (case op_kind theirs of
        Clone \<Rightarrow> Retryable
      | Other _ \<Rightarrow> Retryable
      | _ \<Rightarrow> Compatible)"

definition update_config_check :: "operation \<Rightarrow> operation \<Rightarrow> verdict" where
  "update_config_check ours theirs =
     (case op_kind theirs of
        Overwrite \<Rightarrow> refuse_if (op_schema_metadata_updates ours \<noteq> None \<or> op_field_metadata_updates ours \<noteq> [] \<or>
          upsert_key_conflict ours theirs)
      | UpdateConfig \<Rightarrow> refuse_if (upsert_key_conflict ours theirs \<or> modifies_same_metadata ours theirs)
      | Clone \<Rightarrow> Retryable
      | Other _ \<Rightarrow> Retryable
      | _ \<Rightarrow> Compatible)"

definition overwrite_check :: "operation \<Rightarrow> operation \<Rightarrow> verdict" where
  "overwrite_check ours theirs =
     (case op_kind theirs of
        Overwrite \<Rightarrow> if upsert_key_conflict ours theirs then Incompatible else Retryable
      | UpdateConfig \<Rightarrow> refuse_if (upsert_key_conflict ours theirs)
      | Clone \<Rightarrow> Retryable
      | Other _ \<Rightarrow> Retryable
      | _ \<Rightarrow> Compatible)"

definition append_check :: "operation \<Rightarrow> verdict" where
  "append_check theirs =
     (case op_kind theirs of
        Overwrite \<Rightarrow> Incompatible
      | Restore \<Rightarrow> Incompatible
      | Clone \<Rightarrow> Retryable
      | Other _ \<Rightarrow> Retryable
      | _ \<Rightarrow> Compatible)"

subsection \<open>The verdict\<close>

definition check_txn :: "operation \<Rightarrow> operation \<Rightarrow> verdict" where
  "check_txn ours theirs =
     (if (may_alter_nullability ours \<and> supplies_values theirs) \<or>
         (supplies_values ours \<and> may_alter_nullability theirs) then Retryable
      else if (op_kind ours = Merge \<and> updates_schema_or_field_metadata theirs) \<or>
         (updates_schema_or_field_metadata ours \<and> op_kind theirs = Merge) then Retryable
      else if op_kind theirs = Clone then Compatible
      else case op_kind ours of
        Delete \<Rightarrow> delete_check ours theirs
      | Update \<Rightarrow> update_check ours theirs
      | CreateIndex \<Rightarrow> create_index_check ours theirs
      | Rewrite \<Rightarrow> rewrite_check ours theirs
      | Merge \<Rightarrow> merge_check theirs
      | Project \<Rightarrow> project_check theirs
      | ReserveFragments \<Rightarrow> reserve_check theirs
      | Restore \<Rightarrow> restore_check theirs
      | UpdateConfig \<Rightarrow> update_config_check ours theirs
      | Overwrite \<Rightarrow> overwrite_check ours theirs
      | Append \<Rightarrow> append_check theirs
      | _ \<Rightarrow> Retryable)"

definition same_data_file :: "data_file \<Rightarrow> data_file \<Rightarrow> bool" where
  "same_data_file x y = (df_path x = df_path y \<and> df_fields x = df_fields y \<and>
     df_column_indices x = df_column_indices y \<and> df_major x = df_major y \<and> df_minor x = df_minor y \<and>
     df_size x = df_size y)"

definition same_data_files :: "data_fragment \<Rightarrow> data_fragment \<Rightarrow> bool" where
  "same_data_files a b = list_all2 same_data_file (fr_files a) (fr_files b)"

definition check_txn_with_affected_rows :: "operation \<Rightarrow> operation \<Rightarrow> manifest \<Rightarrow> verdict" where
  "check_txn_with_affected_rows ours theirs base =
     (let plain = check_txn ours theirs;
          both = (op_kind ours = Delete \<or> op_kind ours = Update) \<and> (op_kind theirs = Delete \<or> op_kind theirs = Update);
          mine = delete_update_ids ours
      in if plain \<noteq> Retryable \<or> \<not> both then plain
         else if list_ex (\<lambda>i. i \<in> mine) (op_removed_ids theirs) then Retryable
         else if list_ex (\<lambda>f. fr_id f \<in> mine \<and>
             (case find (\<lambda>b. fr_id b = fr_id f) (m_fragments base) of
                None \<Rightarrow> True | Some was \<Rightarrow> \<not> same_data_files was f))
           (op_updated_fragments theirs) then Retryable
         else Compatible)"

definition verdict_code :: "verdict \<Rightarrow> nat" where
  "verdict_code v = (case v of Compatible \<Rightarrow> 0 | Retryable \<Rightarrow> 1 | Incompatible \<Rightarrow> 2)"

definition commit_verdict :: "(u32 \<Rightarrow> byte list \<Rightarrow> operation result) \<Rightarrow> u32 \<Rightarrow> byte list \<Rightarrow> u32 \<Rightarrow> byte list \<Rightarrow> nat result" where
  "commit_verdict decode_operation ours_field ours_message theirs_field theirs_message =
     sbind (decode_operation ours_field ours_message) (\<lambda>ours.
     sbind (decode_operation theirs_field theirs_message) (\<lambda>theirs.
       Inr (verdict_code (check_txn ours theirs))))"

subsection \<open>What the verdicts mean\<close>

text \<open>The existing fragments an operation rewrites, removes or replaces the data of.\<close>

definition touched :: "operation \<Rightarrow> u64 set" where
  "touched op =
     (case op_kind op of
        Delete \<Rightarrow> delete_update_ids op
      | Update \<Rightarrow> delete_update_ids op
      | Rewrite \<Rightarrow> rewrite_ids op
      | DataReplacement \<Rightarrow> replacement_ids op
      | _ \<Rightarrow> {})"

lemma intersects_iff: "intersects a b \<longleftrightarrow> a \<inter> b \<noteq> {}"
  by (auto simp: intersects_def)

lemma retry_if_eq [simp]:
  "retry_if b = Compatible \<longleftrightarrow> \<not> b" "retry_if b = Retryable \<longleftrightarrow> b" "retry_if b \<noteq> Incompatible"
  by (auto simp: retry_if_def)

lemma refuse_if_eq [simp]:
  "refuse_if b = Compatible \<longleftrightarrow> \<not> b" "refuse_if b = Incompatible \<longleftrightarrow> b" "refuse_if b \<noteq> Retryable"
  by (auto simp: refuse_if_def)

lemma guards_off:
  "op_kind op \<noteq> Project \<Longrightarrow> op_kind op \<noteq> Merge \<Longrightarrow> \<not> may_alter_nullability op"
  "op_kind op \<noteq> UpdateConfig \<Longrightarrow> \<not> updates_schema_or_field_metadata op"
  by (auto simp: may_alter_nullability_def updates_schema_or_field_metadata_def)

lemma check_txn_data:
  assumes "op_kind ours \<in> {Delete, Update, Rewrite}"
    and "op_kind theirs \<in> {Delete, Update, Rewrite, DataReplacement}"
  shows "check_txn ours theirs = retry_if (touched ours \<inter> touched theirs \<noteq> {})"
  using assms
  by (auto simp: check_txn_def guards_off touched_def delete_check_def update_check_def rewrite_check_def
      intersects_iff Let_def)


definition example_delete :: "u64 \<Rightarrow> operation" where
  "example_delete i = (new_operation Delete)\<lparr>op_updated_fragments := [new_fragment\<lparr>fr_id := i\<rparr>]\<rparr>"






end
