(* ===== verification/Index_Maintenance.thy ===== *)
theory Index_Maintenance
  imports Manifest "HOL-Library.Sublist"
begin

text \<open>
  What a commit does to the index section (\<open>src/src/table/index_maintenance.cpp\<close>): which indices
  it keeps, and the fragments their coverage loses.
\<close>

definition kFragReuseIndex :: string where "kFragReuseIndex = ''__lance_frag_reuse''"
definition kMemWalIndex :: string where "kMemWalIndex = ''__lance_mem_wal''"

definition is_system_index :: "index_metadata \<Rightarrow> bool" where
  "is_system_index index = (ix_name index = kFragReuseIndex \<or> ix_name index = kMemWalIndex)"

subsection \<open>Indices a commit keeps\<close>

definition fields_remain :: "pb_field list \<Rightarrow> index_metadata \<Rightarrow> bool" where
  "fields_remain schema index = list_all (\<lambda>i. i \<in> set (map pf_id schema)) (ix_fields index)"

definition covers_nothing :: "u32 set \<Rightarrow> index_metadata \<Rightarrow> bool" where
  "covers_nothing existing index = list_all (\<lambda>i. i \<notin> existing) (ix_fragment_ids index)"

definition kept_as_is :: "index_metadata \<Rightarrow> bool" where
  "kept_as_is index = (ix_name index = kFragReuseIndex \<or> \<not> ix_has_bitmap index)"

text \<open>The positions under one name, in order, of the segments with a known coverage.\<close>

definition segments_named :: "index_metadata list \<Rightarrow> string \<Rightarrow> nat list" where
  "segments_named indices name =
     filter (\<lambda>i. \<not> kept_as_is (indices ! i) \<and> ix_name (indices ! i) = name) [0..<length indices]"

text \<open>\<open>std::min_element\<close>: the first of the positions with the smallest dataset version.\<close>

definition oldest :: "index_metadata list \<Rightarrow> nat list \<Rightarrow> nat" where
  "oldest indices segments =
     foldl (\<lambda>best i. if ix_dataset_version (indices ! i) < ix_dataset_version (indices ! best) then i else best)
       (hd segments) (tl segments)"

definition keep_segments :: "index_metadata list \<Rightarrow> u32 set \<Rightarrow> bool list \<Rightarrow> nat list \<Rightarrow> bool list" where
  "keep_segments indices existing keep segments =
     (if length segments = 1 then keep[hd segments := True]
      else let covering = filter (\<lambda>i. \<not> covers_nothing existing (indices ! i)) segments in
        if covering \<noteq> [] then foldl (\<lambda>keep i. keep[i := True]) keep covering
        else keep[oldest indices segments := True])"

text \<open>The names are visited in the order of their first segment; \<open>by_name\<close> is visited in
  alphabetical order, which no step depends on.\<close>

definition keep_flags :: "index_metadata list \<Rightarrow> u32 set \<Rightarrow> bool list" where
  "keep_flags indices existing =
     foldl (\<lambda>keep name. keep_segments indices existing keep (segments_named indices name))
       (map kept_as_is indices)
       (remdups (map ix_name (filter (\<lambda>index. \<not> kept_as_is index) indices)))"

definition retain_relevant_indices ::
  "index_metadata list \<Rightarrow> pb_field list \<Rightarrow> data_fragment list \<Rightarrow> index_metadata list" where
  "retain_relevant_indices indices schema fragments =
     (let relevant = filter (\<lambda>index. is_system_index index \<or> fields_remain schema index) indices;
          existing = set (map (\<lambda>f. ucast (fr_id f)) fragments);
          keep = keep_flags relevant existing
      in map fst (filter snd (zip relevant keep)))"

subsection \<open>Coverage\<close>

definition drop_from_index :: "u64 set \<Rightarrow> index_metadata \<Rightarrow> index_metadata" where
  "drop_from_index gone index =
     (if \<not> ix_has_bitmap index then index
      else let ids = filter (\<lambda>i. ucast i \<notin> gone) (ix_fragment_ids index) in
        index\<lparr>ix_fragment_ids := ids,
          ix_bitmap_changed := ix_bitmap_changed index \<or> length ids \<noteq> length (ix_fragment_ids index)\<rparr>)"

definition drop_fragments_from_indices :: "index_metadata list \<Rightarrow> u64 list \<Rightarrow> index_metadata list" where
  "drop_fragments_from_indices indices ids = map (drop_from_index (set ids)) indices"

definition first_fragment_id_after_indices :: "index_metadata list \<Rightarrow> u64" where
  "first_fragment_id_after_indices indices =
     foldl (\<lambda>nxt index. if ix_fragment_ids index \<noteq> []
          then max nxt (ucast (last (ix_fragment_ids index)) + 1) else nxt) 0 indices"

subsection \<open>Which indices are kept\<close>

lemma nth_set_True: "k < length keep \<Longrightarrow> keep[a := True] ! k \<longleftrightarrow> keep ! k \<or> k = a"
  by (cases "a = k") auto

lemma foldl_set_True:
  "length (foldl (\<lambda>keep i. keep[i := True]) keep is) = length keep \<and>
   (\<forall>k < length keep. foldl (\<lambda>keep i. keep[i := True]) keep is ! k = (keep ! k \<or> k \<in> set is))"
  by (induction "is" arbitrary: keep) (auto simp: nth_set_True)

definition chosen :: "index_metadata list \<Rightarrow> u32 set \<Rightarrow> nat list \<Rightarrow> nat set" where
  "chosen indices existing segments =
     (if length segments = 1 then {hd segments}
      else let covering = filter (\<lambda>i. \<not> covers_nothing existing (indices ! i)) segments in
        if covering \<noteq> [] then set covering else {oldest indices segments})"

lemma keep_segments_chosen:
  "length (keep_segments indices existing keep segments) = length keep \<and>
   (\<forall>k < length keep. keep_segments indices existing keep segments ! k =
      (keep ! k \<or> k \<in> chosen indices existing segments))"
  using foldl_set_True by (auto simp: keep_segments_def chosen_def Let_def nth_set_True)

lemma oldest_in:
  assumes "segments \<noteq> []"
  shows "oldest indices segments \<in> set segments"
proof -
  have "foldl (\<lambda>best i. if P i best then i else best) b is \<in> set (b # is)" for P and b :: nat and "is"
    by (induction "is" arbitrary: b) auto
  with assms show ?thesis unfolding oldest_def by (cases segments) simp_all
qed

lemma chosen_subset: "segments \<noteq> [] \<Longrightarrow> chosen indices existing segments \<subseteq> set segments"
  using oldest_in [of segments indices] by (auto simp: chosen_def Let_def)

lemma chosen_nonempty: "chosen indices existing segments \<noteq> {}"
  by (auto simp: chosen_def Let_def filter_empty_conv)

lemma keep_flags_chosen:
  "length (keep_flags indices existing) = length indices \<and>
   (\<forall>k < length indices. keep_flags indices existing ! k =
      (kept_as_is (indices ! k) \<or>
       (\<exists>name \<in> set (map ix_name (filter (\<lambda>index. \<not> kept_as_is index) indices)).
          k \<in> chosen indices existing (segments_named indices name))))"
proof -
  have "length (foldl (\<lambda>keep name. keep_segments indices existing keep (segments_named indices name)) keep ns) = length keep \<and>
     (\<forall>k < length keep. foldl (\<lambda>keep name. keep_segments indices existing keep (segments_named indices name)) keep ns ! k =
      (keep ! k \<or> (\<exists>name \<in> set ns. k \<in> chosen indices existing (segments_named indices name))))" for keep ns
    by (induction ns arbitrary: keep) (auto simp: keep_segments_chosen)
  from this [of "map kept_as_is indices"] show ?thesis by (simp add: keep_flags_def)
qed

lemma segments_named_set:
  "k \<in> set (segments_named indices name) \<longleftrightarrow>
     k < length indices \<and> \<not> kept_as_is (indices ! k) \<and> ix_name (indices ! k) = name"
  by (auto simp: segments_named_def)

text \<open>Whether the index at a position stays: a segment of unknown coverage always, a segment
  of known coverage when it is among those chosen for its name.\<close>

lemma keep_flag_iff:
  assumes "k < length indices"
  shows "keep_flags indices existing ! k \<longleftrightarrow>
    kept_as_is (indices ! k) \<or> k \<in> chosen indices existing (segments_named indices (ix_name (indices ! k)))"
proof -
  have name: "ix_name (indices ! k) = name \<and> \<not> kept_as_is (indices ! k)"
    if k: "k \<in> chosen indices existing (segments_named indices name)"
      and name: "name \<in> set (map ix_name (filter (\<lambda>index. \<not> kept_as_is index) indices))" for name
  proof -
    from name obtain i where "i < length indices" "\<not> kept_as_is (indices ! i)" "ix_name (indices ! i) = name"
      by (auto simp: in_set_conv_nth)
    then have "i \<in> set (segments_named indices name)" by (simp add: segments_named_set)
    then have "segments_named indices name \<noteq> []" by auto
    with k chosen_subset have "k \<in> set (segments_named indices name)" by blast
    then show ?thesis by (simp add: segments_named_set)
  qed
  have self: "\<not> kept_as_is (indices ! k) \<Longrightarrow>
      ix_name (indices ! k) \<in> set (map ix_name (filter (\<lambda>index. \<not> kept_as_is index) indices))"
    using assms nth_mem by fastforce
  have "keep_flags indices existing ! k \<longleftrightarrow> kept_as_is (indices ! k) \<or>
      (\<exists>name \<in> set (map ix_name (filter (\<lambda>index. \<not> kept_as_is index) indices)).
          k \<in> chosen indices existing (segments_named indices name))"
    using assms keep_flags_chosen [of indices existing] by blast
  with name self show ?thesis by metis
qed

lemma oldest_least:
  "i \<in> set segments \<Longrightarrow> ix_dataset_version (indices ! oldest indices segments) \<le> ix_dataset_version (indices ! i)"
proof -
  let ?v = "\<lambda>i. ix_dataset_version (indices ! i)"
  have "\<forall>i \<in> set (b # is). ?v (foldl (\<lambda>best i. if ?v i < ?v best then i else best) b is) \<le> ?v i" for b "is"
  proof (induction "is" arbitrary: b)
    case (Cons x xs)
    have "?v (if ?v x < ?v b then x else b) \<le> ?v b" "?v (if ?v x < ?v b then x else b) \<le> ?v x" by auto
    with Cons [of "if ?v x < ?v b then x else b"] show ?case by (auto intro: order_trans)
  qed simp
  from this [of "hd segments" "tl segments"]
  show "i \<in> set segments \<Longrightarrow> ?thesis" by (cases segments) (auto simp: oldest_def)
qed

lemma set_selected:
  "length keep = length xs \<Longrightarrow> set (map fst (filter snd (zip xs keep))) = {xs ! k | k. k < length xs \<and> keep ! k}"
  by (auto simp: set_zip) force

lemma subseq_selected: "length keep = length xs \<Longrightarrow> subseq (map fst (filter snd (zip xs keep))) xs"
  by (induction xs keep rule: list_induct2') auto

definition relevant :: "pb_field list \<Rightarrow> index_metadata \<Rightarrow> bool" where
  "relevant schema index \<longleftrightarrow> is_system_index index \<or> fields_remain schema index"

definition existing_ids :: "data_fragment list \<Rightarrow> u32 set" where
  "existing_ids fragments = set (map (\<lambda>f. ucast (fr_id f)) fragments)"

lemma set_retained:
  "set (retain_relevant_indices indices schema fragments) =
     (let rel = filter (relevant schema) indices in
      {rel ! k | k. k < length rel \<and> keep_flags rel (existing_ids fragments) ! k})"
proof -
  have "(\<lambda>index. is_system_index index \<or> fields_remain schema index) = relevant schema"
    by (simp add: relevant_def fun_eq_iff)
  then show ?thesis
    by (simp only: retain_relevant_indices_def Let_def existing_ids_def set_selected keep_flags_chosen)
qed

lemma relevant_position:
  assumes "ix \<in> set indices" and "relevant schema ix"
  obtains k where "k < length (filter (relevant schema) indices)" "filter (relevant schema) indices ! k = ix"
proof -
  have "ix \<in> set (filter (relevant schema) indices)" using assms by simp
  then show ?thesis unfolding in_set_conv_nth using that by blast
qed

lemma retainedI:
  assumes "k < length rel" and "rel = filter (relevant schema) indices"
    and "kept_as_is (rel ! k) \<or> k \<in> chosen rel (existing_ids fragments) (segments_named rel (ix_name (rel ! k)))"
  shows "rel ! k \<in> set (retain_relevant_indices indices schema fragments)"
proof -
  have "keep_flags rel (existing_ids fragments) ! k" using assms by (simp add: keep_flag_iff)
  then show ?thesis unfolding set_retained Let_def using assms(1,2) by blast
qed

lemma retained_name:
  assumes "ix \<in> set indices" and "relevant schema ix"
  shows "\<exists>j \<in> set (retain_relevant_indices indices schema fragments). ix_name j = ix_name ix"
proof -
  define rel where "rel = filter (relevant schema) indices"
  obtain k where k: "k < length rel" "rel ! k = ix" unfolding rel_def using assms by (elim relevant_position)
  consider "kept_as_is ix" | "\<not> kept_as_is ix" by blast
  then show ?thesis
  proof cases
    case 1
    with k retainedI [OF k(1) rel_def] show ?thesis by blast
  next
    case 2
    let ?segs = "segments_named rel (ix_name ix)"
    obtain c where c: "c \<in> chosen rel (existing_ids fragments) ?segs" using chosen_nonempty by blast
    have "k \<in> set ?segs" using k 2 by (simp add: segments_named_set)
    then have "?segs \<noteq> []" by auto
    then have "c \<in> set ?segs" using c chosen_subset by blast
    then have seg: "c < length rel" "ix_name (rel ! c) = ix_name ix" by (simp_all add: segments_named_set)
    with retainedI [OF seg(1) rel_def] c show ?thesis by force
  qed
qed

lemma retained_covering:
  assumes "ix \<in> set indices" and "relevant schema ix"
    and "kept_as_is ix \<or> \<not> covers_nothing (existing_ids fragments) ix"
  shows "ix \<in> set (retain_relevant_indices indices schema fragments)"
proof -
  define rel where "rel = filter (relevant schema) indices"
  obtain k where k: "k < length rel" "rel ! k = ix" unfolding rel_def using assms(1,2) by (elim relevant_position)
  let ?segs = "segments_named rel (ix_name ix)"
  have "k \<in> chosen rel (existing_ids fragments) ?segs" if "\<not> kept_as_is ix"
  proof -
    have "k \<in> set ?segs" using k that by (simp add: segments_named_set)
    with that assms(3) k show ?thesis
      by (cases ?segs) (auto simp: chosen_def Let_def filter_empty_conv)
  qed
  with k retainedI [OF k(1) rel_def] show ?thesis by blast
qed

lemma chosen_bare:
  assumes "k \<in> set segs" and k: "k \<in> chosen indices existing segs" and bare: "covers_nothing existing (indices ! k)"
  shows "chosen indices existing segs = {k} \<and> (\<forall>i \<in> set segs. covers_nothing existing (indices ! i) \<and>
    ix_dataset_version (indices ! k) \<le> ix_dataset_version (indices ! i))"
proof (cases "length segs = 1")
  case True
  then obtain x where "segs = [x]" by (auto simp: length_Suc_conv)
  with assms show ?thesis by (simp add: chosen_def)
next
  case False
  have none: "filter (\<lambda>i. \<not> covers_nothing existing (indices ! i)) segs = []"
  proof (rule ccontr)
    assume "filter (\<lambda>i. \<not> covers_nothing existing (indices ! i)) segs \<noteq> []"
    with False k bare show False by (simp add: chosen_def)
  qed
  with False k have old: "k = oldest indices segs" by (simp add: chosen_def)
  with False none have "chosen indices existing segs = {k}" by (simp add: chosen_def)
  with none old show ?thesis by (auto simp: filter_empty_conv intro: oldest_least)
qed

lemma retainedE:
  assumes "ix \<in> set (retain_relevant_indices indices schema fragments)"
    and "rel = filter (relevant schema) indices" and "\<not> kept_as_is ix"
  obtains k where "k < length rel" "rel ! k = ix" "k \<in> set (segments_named rel (ix_name ix))"
    "k \<in> chosen rel (existing_ids fragments) (segments_named rel (ix_name ix))"
proof -
  from assms(1) obtain k where "k < length rel" "rel ! k = ix" "keep_flags rel (existing_ids fragments) ! k"
    unfolding set_retained Let_def assms(2) by blast
  with assms(3) show ?thesis by (intro that [of k]) (simp_all add: segments_named_set keep_flag_iff)
qed

lemma retained_bare:
  assumes ix: "ix \<in> set (retain_relevant_indices indices schema fragments)"
    and bare: "\<not> kept_as_is ix" "covers_nothing (existing_ids fragments) ix"
    and j: "j \<in> set indices" "relevant schema j" "\<not> kept_as_is j" "ix_name j = ix_name ix"
  shows "covers_nothing (existing_ids fragments) j \<and> ix_dataset_version ix \<le> ix_dataset_version j \<and>
    (j \<in> set (retain_relevant_indices indices schema fragments) \<longrightarrow> j = ix)"
proof -
  define rel where "rel = filter (relevant schema) indices"
  let ?segs = "segments_named rel (ix_name ix)"
  obtain k where k: "rel ! k = ix" "k \<in> set ?segs" "k \<in> chosen rel (existing_ids fragments) ?segs"
    using ix rel_def bare(1) by (rule retainedE)
  have one: "chosen rel (existing_ids fragments) ?segs = {k}"
    "\<forall>i \<in> set ?segs. covers_nothing (existing_ids fragments) (rel ! i) \<and>
       ix_dataset_version ix \<le> ix_dataset_version (rel ! i)"
    using chosen_bare [OF k(2,3)] k(1) bare(2) by simp_all
  obtain i where i: "i < length rel" "rel ! i = j" unfolding rel_def using j(1,2) by (elim relevant_position)
  then have "i \<in> set ?segs" using j by (simp add: segments_named_set)
  then have "covers_nothing (existing_ids fragments) j \<and> ix_dataset_version ix \<le> ix_dataset_version j"
    using one(2) i(2) by blast
  moreover have "j = ix" if kept: "j \<in> set (retain_relevant_indices indices schema fragments)"
  proof -
    obtain i where i: "rel ! i = j" "i \<in> chosen rel (existing_ids fragments) (segments_named rel (ix_name j))"
      using kept rel_def j(3) by (rule retainedE)
    then have "i = k" unfolding j(4) one(1) by blast
    with i(1) k(1) show ?thesis by blast
  qed
  ultimately show ?thesis by blast
qed

text \<open>C38: of the indices of a version, a commit keeps in order
  those whose fields are all still in the schema (and Lance's own) unless they cover nothing any
  more; every index name that had such an index keeps one. An index that covers nothing stays
  only as the last of its name, and is then its oldest segment.\<close>

theorem retain_relevant_indices_correct:
  fixes indices :: "index_metadata list" and schema :: "pb_field list" and fragments :: "data_fragment list"
  defines "out \<equiv> retain_relevant_indices indices schema fragments"
  shows "subseq out indices \<and> (\<forall>ix \<in> set out. relevant schema ix) \<and>
    (\<forall>ix \<in> set indices. relevant schema ix \<longrightarrow>
       (kept_as_is ix \<or> \<not> covers_nothing (existing_ids fragments) ix \<longrightarrow> ix \<in> set out) \<and>
       (\<exists>j \<in> set out. ix_name j = ix_name ix)) \<and>
    (\<forall>ix \<in> set out. \<not> kept_as_is ix \<and> covers_nothing (existing_ids fragments) ix \<longrightarrow>
       (\<forall>j \<in> set indices. relevant schema j \<and> \<not> kept_as_is j \<and> ix_name j = ix_name ix \<longrightarrow>
          covers_nothing (existing_ids fragments) j \<and> ix_dataset_version ix \<le> ix_dataset_version j \<and>
          (j \<in> set out \<longrightarrow> j = ix)))"
proof (intro conjI)
  have len: "length (keep_flags xs e) = length xs" for xs e by (simp add: keep_flags_chosen)
  show "subseq out indices"
    unfolding out_def retain_relevant_indices_def Let_def
    by (rule subseq_order.order_trans [OF subseq_selected [OF len] subseq_filter_left])
  show "\<forall>ix \<in> set out. relevant schema ix"
    unfolding out_def set_retained Let_def using nth_mem by fastforce
qed (use retained_name retained_covering retained_bare in \<open>unfold out_def, blast+\<close>)

text \<open>A dataset whose index on field 1 has two segments, neither covering fragment 5, and an index on
  a field that was dropped.\<close>

definition example_index :: "string \<Rightarrow> int list \<Rightarrow> u64 \<Rightarrow> u32 list \<Rightarrow> index_metadata" where
  "example_index name cols version ids =
     new_index\<lparr>ix_name := name, ix_fields := cols, ix_dataset_version := version, ix_has_bitmap := True,
       ix_fragment_ids := ids\<rparr>"

definition example_field :: "int \<Rightarrow> pb_field" where
  "example_field i = \<lparr>pf_name = ''c'', pf_logical_type = ''int64'', pf_id = i, pf_parent_id = - 1, pf_type = 2,
     pf_nullable = True, pf_encoding = 1, pf_metadata = [], pf_primary_key = False,
     pf_primary_key_position = 0, pf_clustering_key_position = 0, pf_unknown = []\<rparr>"

theorem retain_relevant_indices_correct_witness:
  "subseq (retain_relevant_indices
       [example_index ''a'' [1] 3 [0], example_index ''a'' [1] 2 [4], example_index ''b'' [2] 2 [5]]
       [example_field 1] [new_fragment\<lparr>fr_id := 5\<rparr>])
     [example_index ''a'' [1] 3 [0], example_index ''a'' [1] 2 [4], example_index ''b'' [2] 2 [5]] \<and>
   retain_relevant_indices
       [example_index ''a'' [1] 3 [0], example_index ''a'' [1] 2 [4], example_index ''b'' [2] 2 [5]]
       [example_field 1] [new_fragment\<lparr>fr_id := 5\<rparr>] = [example_index ''a'' [1] 2 [4]]"
proof
  show "subseq (retain_relevant_indices
       [example_index ''a'' [1] 3 [0], example_index ''a'' [1] 2 [4], example_index ''b'' [2] 2 [5]]
       [example_field 1] [new_fragment\<lparr>fr_id := 5\<rparr>])
     [example_index ''a'' [1] 3 [0], example_index ''a'' [1] 2 [4], example_index ''b'' [2] 2 [5]]"
    using retain_relevant_indices_correct by blast
qed code_simp

subsection \<open>Coverage after a drop\<close>

text \<open>After fragments leave the coverage of the indices, no index whose
  coverage is known covers one of them, every other fragment stays covered in order, and the
  coverage is marked for rewriting exactly when it lost a fragment.\<close>

lemma drop_fragments_correct:
  "map ix_fragment_ids (drop_fragments_from_indices indices ids) =
     map (\<lambda>ix. if ix_has_bitmap ix then filter (\<lambda>i. ucast i \<notin> set ids) (ix_fragment_ids ix) else ix_fragment_ids ix) indices \<and>
   map ix_bitmap_changed (drop_fragments_from_indices indices ids) =
     map (\<lambda>ix. ix_bitmap_changed ix \<or> (ix_has_bitmap ix \<and> (\<exists>i \<in> set (ix_fragment_ids ix). ucast i \<in> set ids))) indices"
proof -
  have "length (filter P xs) \<noteq> length xs \<longleftrightarrow> (\<exists>x \<in> set xs. \<not> P x)" for P and xs :: "u32 list"
    by (metis (mono_tags, lifting) filter_id_conv length_filter_less less_irrefl)
  then show ?thesis
    by (auto simp: drop_fragments_from_indices_def drop_from_index_def Let_def)
qed

lemma first_fragment_id_above:
  assumes "ix \<in> set indices" and "sorted (ix_fragment_ids ix)" and "i \<in> set (ix_fragment_ids ix)"
  shows "ucast i < first_fragment_id_after_indices indices"
proof -
  let ?step = "\<lambda>nxt index. if ix_fragment_ids index \<noteq> []
      then max nxt (ucast (last (ix_fragment_ids index)) + 1) else nxt :: u64"
  have grow: "n \<le> foldl ?step n is" for n "is"
  proof (induction "is" arbitrary: n)
    case (Cons x xs)
    have "n \<le> ?step n x" by simp
    with Cons [of "?step n x"] show ?case by (simp only: foldl_Cons)
  qed simp
  have last: "ucast i < (ucast (last (ix_fragment_ids ix)) + 1 :: u64)"
  proof -
    have "unat i \<le> unat (last (ix_fragment_ids ix))"
      using sorted_last_ge [OF assms(2,3)] by (simp add: word_le_nat_alt)
    moreover have "unat (ucast (last (ix_fragment_ids ix)) + 1 :: u64) = unat (last (ix_fragment_ids ix)) + 1"
      using unat_u32 [of "last (ix_fragment_ids ix)"] by (subst unat_plus_1) (simp_all add: word_less_nat_alt unat_ucast_up unsigned_minus_1_eq_mask mask_eq_exp_minus_1)
    ultimately show ?thesis by (simp add: word_less_nat_alt unat_ucast_up)
  qed
  have nonempty: "ix_fragment_ids ix \<noteq> []" using assms(3) by auto
  obtain pre post where split: "indices = pre @ ix # post" using assms(1) by (auto simp: in_set_conv_decomp)
  have "ucast (last (ix_fragment_ids ix)) + 1 \<le> ?step (foldl ?step 0 pre) ix" using nonempty by simp
  also have "\<dots> \<le> first_fragment_id_after_indices indices"
    unfolding first_fragment_id_after_indices_def split foldl_append foldl_Cons by (rule grow)
  finally show ?thesis using last by simp
qed

end
