(* ===== verification/Overlays.thy ===== *)
theory Overlays
  imports Row_Id_Codec Roaring Manifest
begin

text \<open>
  Data overlay files (\<open>src/src/table/overlays.cpp\<close>): the overlays a fragment carries as field 11 of
  its unknown bytes, read, appended by a commit, and compared with an index's version. Decoding
  a data file message (\<open>pb::decode_data_file\<close>) goes through the protobuf library and is an argument
  of the definitions (\<open>decode_data_file\<close>).
\<close>

definition new_data_file :: data_file where
  "new_data_file = \<lparr>df_path = [], df_fields = [], df_column_indices = [], df_major = 0, df_minor = 0,
     df_size = 0, df_unknown = []\<rparr>"

record data_overlay =
  ov_data_file :: data_file
  ov_shared :: bool
  ov_shared_offsets :: "u32 list"
  ov_field_offsets :: "u32 list list"
  ov_committed_version :: u64

definition new_overlay :: data_overlay where
  "new_overlay = \<lparr>ov_data_file = new_data_file, ov_shared = True, ov_shared_offsets = [],
     ov_field_offsets = [], ov_committed_version = 0\<rparr>"

definition offsets_for :: "data_overlay \<Rightarrow> nat \<Rightarrow> u32 list" where
  "offsets_for overlay i =
     (if ov_shared overlay \<or> i \<ge> length (ov_field_offsets overlay) then ov_shared_offsets overlay
      else ov_field_offsets overlay ! i)"

definition kFlagDataOverlays :: u64 where "kFlagDataOverlays = 64"

subsection \<open>Reading\<close>

definition coverage_step :: "u32 list list \<Rightarrow> field \<Rightarrow> u32 list list result" where
  "coverage_step out g =
     (if f_number g = 1 \<and> f_wire g = 2 then sbind (decode (data_of g)) (\<lambda>ids. Inr (out @ [ids]))
      else Inr out)"

definition decode_coverage :: "byte list \<Rightarrow> u32 list list result" where
  "decode_coverage bs =
     (let (gs, ok) = read_fields reader_next empty_field bs in
      sbind (sfold coverage_step [] gs) (\<lambda>out.
        if \<not> ok then Inl ''malformed data overlay field coverage'' else Inr out))"

definition overlay_step ::
  "(byte list \<Rightarrow> data_file option) \<Rightarrow> data_overlay \<times> bool \<Rightarrow> field \<Rightarrow> (data_overlay \<times> bool) result" where
  "overlay_step decode_data_file = (\<lambda>(out, has_file) f.
     if f_number f = 1 \<and> f_wire f = 2 then
       (case decode_data_file (data_of f) of
          None \<Rightarrow> Inl ''malformed data overlay: its data file''
        | Some file \<Rightarrow> Inr (out\<lparr>ov_data_file := file\<rparr>, True))
     else if f_number f = 2 \<and> f_wire f = 2 then
       sbind (decode (data_of f)) (\<lambda>ids. Inr (out\<lparr>ov_shared := True, ov_shared_offsets := ids\<rparr>, has_file))
     else if f_number f = 3 \<and> f_wire f = 0 then
       Inr (out\<lparr>ov_committed_version := f_value f\<rparr>, has_file)
     else if f_number f = 4 \<and> f_wire f = 2 then
       sbind (decode_coverage (data_of f)) (\<lambda>sets.
         Inr (out\<lparr>ov_shared := False, ov_field_offsets := sets\<rparr>, has_file))
     else Inr (out, has_file))"

definition decode_overlay :: "(byte list \<Rightarrow> data_file option) \<Rightarrow> byte list \<Rightarrow> data_overlay result" where
  "decode_overlay decode_data_file bs =
     (let (fs, ok) = read_fields reader_next empty_field bs in
      sbind (sfold (overlay_step decode_data_file) (new_overlay, False) fs) (\<lambda>(out, has_file).
        if \<not> ok \<or> \<not> has_file then Inl ''malformed data overlay'' else Inr out))"

definition overlays_step ::
  "(byte list \<Rightarrow> data_file option) \<Rightarrow> data_overlay list \<Rightarrow> field \<Rightarrow> data_overlay list result" where
  "overlays_step decode_data_file out f =
     (if f_number f = 11 \<and> f_wire f = 2
      then sbind (decode_overlay decode_data_file (data_of f)) (\<lambda>overlay. Inr (out @ [overlay]))
      else Inr out)"

definition read_fragment_overlays ::
  "(byte list \<Rightarrow> data_file option) \<Rightarrow> data_fragment \<Rightarrow> data_overlay list result" where
  "read_fragment_overlays decode_data_file fragment =
     (let (fs, ok) = read_fields reader_next empty_field (fr_unknown fragment) in
      sbind (sfold (overlays_step decode_data_file) [] fs) (\<lambda>out.
        if \<not> ok then Inl ''malformed fragment metadata'' else Inr out))"

definition fragment_has_overlays :: "data_fragment \<Rightarrow> bool" where
  "fragment_has_overlays fragment =
     list_ex (\<lambda>f. f_number f = 11) (fst (read_fields reader_next empty_field (fr_unknown fragment)))"

definition fragment_overlaid_fields_after ::
  "(byte list \<Rightarrow> data_file option) \<Rightarrow> data_fragment \<Rightarrow> u64 \<Rightarrow> int set result" where
  "fragment_overlaid_fields_after decode_data_file fragment version =
     (if \<not> fragment_has_overlays fragment then Inr {}
      else sbind (read_fragment_overlays decode_data_file fragment) (\<lambda>overlays.
        Inr (set (concat (map (\<lambda>overlay. df_fields (ov_data_file overlay))
          (filter (\<lambda>overlay. ov_committed_version overlay > version) overlays))))))"

definition fragments_stale_for_index ::
  "(byte list \<Rightarrow> data_file option) \<Rightarrow> manifest \<Rightarrow> int list \<Rightarrow> u64 \<Rightarrow> u32 set" where
  "fragments_stale_for_index decode_data_file m cols index_version =
     set (map (\<lambda>fragment. ucast (fr_id fragment)) (filter (\<lambda>fragment.
       fragment_has_overlays fragment \<and>
       (case fragment_overlaid_fields_after decode_data_file fragment index_version of
          Inl _ \<Rightarrow> True
        | Inr touched \<Rightarrow> list_ex (\<lambda>f. f \<in> touched) cols)) (m_fragments m)))"

subsection \<open>Appending\<close>

definition stamp_overlay :: "byte list \<Rightarrow> u64 \<Rightarrow> byte list" where
  "stamp_overlay message committed_version =
     concat (map f_raw (filter (\<lambda>f. f_number f \<noteq> 3) (fst (read_fields reader_next empty_field message))))
     @ put_u64_field 3 committed_version"

definition append_overlay ::
  "(byte list \<Rightarrow> data_file option) \<Rightarrow> u64 \<Rightarrow> data_fragment \<Rightarrow> byte list \<Rightarrow> data_fragment result" where
  "append_overlay decode_data_file committed_version fragment message =
     sbind (decode_overlay decode_data_file message) (\<lambda>overlay.
     let cols = length (df_fields (ov_data_file overlay)); sets = length (ov_field_offsets overlay) in
     if \<not> ov_shared overlay \<and> sets \<noteq> cols then
       Inl (''Invalid user input: a sparse data overlay needs one offset set per field ('' @ to_string cols @
            '' fields, '' @ to_string sets @ '' offset sets)'')
     else Inr (fragment\<lparr>fr_unknown := fr_unknown fragment @
            put_bytes_field 11 (stamp_overlay message committed_version)\<rparr>))"

definition append_fragment_overlays ::
  "(byte list \<Rightarrow> data_file option) \<Rightarrow> data_fragment \<Rightarrow> byte list list \<Rightarrow> u64 \<Rightarrow> data_fragment result" where
  "append_fragment_overlays decode_data_file fragment overlays committed_version =
     sfold (append_overlay decode_data_file committed_version) fragment overlays"

subsection \<open>What is read after an append\<close>

lemma same_field_data: "same_field g h \<Longrightarrow> f_wire h = 2 \<Longrightarrow> data_of g = data_of h"
  by (simp add: same_field_def data_of_def)

lemma overlay_step_same: "same_field g h \<Longrightarrow> overlay_step d s g = overlay_step d s h"
  by (cases s) (auto simp: overlay_step_def same_field_def data_of_def split: if_splits)

lemma overlays_step_same: "same_field g h \<Longrightarrow> overlays_step d s g = overlays_step d s h"
  by (auto simp: overlays_step_def same_field_def data_of_def split: if_splits)

lemma sfold_same:
  assumes "\<And>s g h. same_field g h \<Longrightarrow> step s g = step s h" and "list_all2 same_field gs hs"
  shows "sfold step s gs = sfold step s hs"
  using assms(2)
proof (induction arbitrary: s rule: list_all2_induct)
  case (Cons g gs h hs)
  from assms(1) [OF Cons(1)] Cons.IH show ?case by (simp add: sbind_def split: sum.splits)
qed simp

text \<open>Bytes that read without fault, followed by more: their fields come first.\<close>

lemma read_fields_append:
  assumes "snd (read_fields reader_next empty_field bs)"
  shows "\<exists>gs h. read_fields reader_next f (bs @ t) = apfst ((@) gs) (read_fields reader_next h t) \<and>
    list_all2 same_field gs (fst (read_fields reader_next empty_field bs))"
proof -
  let ?fs = "fst (read_fields reader_next empty_field bs)"
  have "bs = concat (map f_raw ?fs)"
    using assms read_fields_raw [of empty_field bs] by (cases "read_fields reader_next empty_field bs") auto
  moreover have "\<forall>g \<in> set ?fs. readable g" by (auto intro: read_fields_readable)
  ultimately show ?thesis using read_fields_copied [of ?fs f t] by simp
qed

lemma overlay_step_version:
  "overlay_step d (s, b) f = Inr (s', b') \<Longrightarrow> f_number f \<noteq> 3 \<Longrightarrow>
     overlay_step d (s\<lparr>ov_committed_version := c\<rparr>, b) f = Inr (s'\<lparr>ov_committed_version := c\<rparr>, b')"
  by (auto simp: overlay_step_def sbind_eq_Inr split: if_splits option.splits)

lemma overlay_step_number3:
  "overlay_step d (s, b) f = Inr (s', b') \<Longrightarrow> f_number f = 3 \<Longrightarrow>
     b' = b \<and> s\<lparr>ov_committed_version := c\<rparr> = s'\<lparr>ov_committed_version := c\<rparr>"
  by (auto simp: overlay_step_def split: if_splits)

lemma sfold_overlay_version:
  "sfold (overlay_step d) (s, b) fs = Inr (o', b') \<Longrightarrow>
     sfold (overlay_step d) (s\<lparr>ov_committed_version := c\<rparr>, b) (filter (\<lambda>f. f_number f \<noteq> 3) fs) =
       Inr (o'\<lparr>ov_committed_version := c\<rparr>, b')"
proof (induction fs arbitrary: s b)
  case (Cons f fs)
  then obtain s1 b1 where step: "overlay_step d (s, b) f = Inr (s1, b1)"
    and rest: "sfold (overlay_step d) (s1, b1) fs = Inr (o', b')"
    by (auto simp: sbind_eq_Inr)
  from Cons.IH [OF rest] show ?case
    using overlay_step_version [OF step, of c] overlay_step_number3 [OF step, of c] by auto
qed simp

lemma decode_stamped:
  assumes "decode_overlay d message = Inr overlay"
  shows "decode_overlay d (stamp_overlay message v) = Inr (overlay\<lparr>ov_committed_version := v\<rparr>)"
proof -
  let ?fs = "fst (read_fields reader_next empty_field message)"
  from assms have "sfold (overlay_step d) (new_overlay, False) ?fs = Inr (overlay, True)"
    by (auto simp: decode_overlay_def sbind_eq_Inr split: prod.splits if_splits)
  from sfold_overlay_version [OF this, of 0]
  have kept: "sfold (overlay_step d) (new_overlay, False) (filter (\<lambda>f. f_number f \<noteq> 3) ?fs) =
      Inr (overlay\<lparr>ov_committed_version := 0\<rparr>, True)"
    by (simp add: new_overlay_def)
  obtain gs h where gs: "read_fields reader_next empty_field (stamp_overlay message v) =
      apfst ((@) gs) (read_fields reader_next h (put_u64_field 3 v))"
    "list_all2 same_field gs (filter (\<lambda>f. f_number f \<noteq> 3) ?fs)"
    using read_drop_fields [of empty_field "\<lambda>n. n = 3" message "put_u64_field 3 v"]
    unfolding stamp_overlay_def drop_fields_def by blast
  have head: "sfold (overlay_step d) (new_overlay, False) gs = Inr (overlay\<lparr>ov_committed_version := 0\<rparr>, True)"
    unfolding kept [symmetric] by (rule sfold_same [OF overlay_step_same gs(2)])
  obtain ts where ts: "read_fields reader_next h (put_u64_field 3 v) = (ts, True)"
    "sfold (overlay_step d) (overlay\<lparr>ov_committed_version := 0\<rparr>, True) ts = Inr (overlay\<lparr>ov_committed_version := v\<rparr>, True)"
    by (cases "v = 0") (simp_all add: pr.fields_u64_last pr.fields_Nil overlay_step_def)
  from gs(1) ts(1) have "read_fields reader_next empty_field (stamp_overlay message v) = (gs @ ts, True)" by simp
  with head ts(2) show ?thesis by (simp add: decode_overlay_def sfold_append)
qed

lemma length_stamp_overlay: "length (stamp_overlay message v) \<le> length message + 20"
proof -
  let ?fs = "fst (read_fields reader_next empty_field message)"
  obtain r where "message = concat (map f_raw ?fs) @ r"
    using read_fields_raw [of empty_field message] by (cases "read_fields reader_next empty_field message") auto
  then have "length (concat (map f_raw ?fs)) \<le> length message" by (metis le_add1 length_append)
  moreover have "length (concat (map f_raw (filter P fs))) \<le> length (concat (map f_raw fs))" for P fs
    by (induction fs) auto
  ultimately show ?thesis
    using length_put_u64_field [of 3 v] unfolding stamp_overlay_def
    by (metis (no_types, lifting) add_mono length_append order_trans)
qed

lemma append_overlay_read:
  assumes "append_overlay d v fragment message = Inr fragment'"
    and "read_fragment_overlays d fragment = Inr old" and "length message < 2 ^ 63"
  obtains overlay where "decode_overlay d message = Inr overlay"
    "read_fragment_overlays d fragment' = Inr (old @ [overlay\<lparr>ov_committed_version := v\<rparr>])"
proof -
  let ?u = "fr_unknown fragment" and ?b = "stamp_overlay message v"
  from assms(1) obtain overlay where dec: "decode_overlay d message = Inr overlay"
    and fr: "fr_unknown fragment' = ?u @ put_bytes_field 11 ?b"
    by (auto simp: append_overlay_def sbind_eq_Inr Let_def split: if_splits)
  from assms(2) have ok: "snd (read_fields reader_next empty_field ?u)"
    and olds: "sfold (overlays_step d) [] (fst (read_fields reader_next empty_field ?u)) = Inr old"
    by (auto simp: read_fragment_overlays_def sbind_eq_Inr split: prod.splits if_splits)
  obtain gs h where gs: "read_fields reader_next empty_field (?u @ put_bytes_field 11 ?b) =
      apfst ((@) gs) (read_fields reader_next h (put_bytes_field 11 ?b))"
    "list_all2 same_field gs (fst (read_fields reader_next empty_field ?u))"
    using read_fields_append [OF ok] by blast
  have "length ?b < 2 ^ 64" using length_stamp_overlay [of message v] assms(3) by simp
  then obtain g where g: "read_fields reader_next h (put_bytes_field 11 ?b) = ([g], True)"
    "f_number g = 11" "f_wire g = 2" "data_of g = ?b"
    by (simp add: pr.fields_bytes_last data_of_def)
  have "sfold (overlays_step d) [] gs = Inr old"
    unfolding olds [symmetric] by (rule sfold_same [OF overlays_step_same gs(2)])
  with gs(1) g fr decode_stamped [OF dec, of v] have
    "read_fragment_overlays d fragment' = Inr (old @ [overlay\<lparr>ov_committed_version := v\<rparr>])"
    by (simp add: read_fragment_overlays_def sfold_append overlays_step_def)
  with dec show ?thesis by (rule that)
qed

text \<open>C36: a commit that appends overlays to a fragment leaves the overlays it had
  in place and adds the new ones after them in order, each as its message says but with the
  version of the commit.\<close>

theorem overlays_appended:
  assumes "append_fragment_overlays d fragment messages v = Inr fragment'"
    and "read_fragment_overlays d fragment = Inr old" and "\<forall>message \<in> set messages. length message < 2 ^ 63"
  shows "\<exists>added. list_all2 (\<lambda>message overlay. decode_overlay d message = Inr overlay) messages added \<and>
    read_fragment_overlays d fragment' = Inr (old @ map (ov_committed_version_update (\<lambda>_. v)) added)"
  using assms
proof (induction messages arbitrary: fragment old)
  case Nil
  then show ?case by (simp add: append_fragment_overlays_def)
next
  case (Cons message messages)
  from Cons.prems obtain mid where mid: "append_overlay d v fragment message = Inr mid"
    and rest: "append_fragment_overlays d mid messages v = Inr fragment'"
    by (auto simp: append_fragment_overlays_def sbind_eq_Inr)
  obtain overlay where ov: "decode_overlay d message = Inr overlay"
    "read_fragment_overlays d mid = Inr (old @ [overlay\<lparr>ov_committed_version := v\<rparr>])"
    using append_overlay_read [OF mid Cons.prems(2)] Cons.prems(3) by auto
  from Cons.IH [OF rest ov(2)] Cons.prems(3) obtain added where
    "list_all2 (\<lambda>message overlay. decode_overlay d message = Inr overlay) messages added"
    "read_fragment_overlays d fragment' =
       Inr ((old @ [overlay\<lparr>ov_committed_version := v\<rparr>]) @ map (ov_committed_version_update (\<lambda>_. v)) added)"
    by auto
  with ov(1) show ?case by (intro exI [of _ "overlay # added"]) simp
qed

text \<open>A data file codec for examples: the path of the file is the message.\<close>

definition example_data_file :: "byte list \<Rightarrow> data_file option" where
  "example_data_file bs = Some (new_data_file\<lparr>df_path := text_of bs, df_fields := [1]\<rparr>)"

definition example_overlay :: "byte list" where
  "example_overlay = put_bytes_field 1 [97] @ put_bytes_field 2 (encode [3, 5])"

theorem overlays_appended_witness:
  "\<exists>added. list_all2 (\<lambda>message overlay. decode_overlay example_data_file message = Inr overlay)
      [example_overlay, example_overlay] added \<and>
    read_fragment_overlays example_data_file
      (projr (append_fragment_overlays example_data_file new_fragment [example_overlay, example_overlay] 7)) =
    Inr ([] @ map (ov_committed_version_update (\<lambda>_. 7)) added)"
proof (rule overlays_appended)
  show "append_fragment_overlays example_data_file new_fragment [example_overlay, example_overlay] 7 =
      Inr (projr (append_fragment_overlays example_data_file new_fragment [example_overlay, example_overlay] 7))"
    by (rule Inr_projr) code_simp
  show "read_fragment_overlays example_data_file new_fragment = Inr []" by code_simp
  have "length example_overlay < 100" by code_simp
  then show "\<forall>message \<in> set [example_overlay, example_overlay]. length message < 2 ^ 63" by simp
qed

subsection \<open>Overlays an index does not know\<close>

lemma no_overlays_read:
  assumes "read_fragment_overlays d fragment = Inr overlays" and "\<not> fragment_has_overlays fragment"
  shows "overlays = []"
proof -
  have "sfold (overlays_step d) out fs = Inr out" if "\<forall>f \<in> set fs. f_number f \<noteq> 11" for out fs
    using that by (induction fs) (simp_all add: overlays_step_def)
  with assms show ?thesis
    by (auto simp: read_fragment_overlays_def fragment_has_overlays_def list_ex_iff sbind_eq_Inr
        split: prod.splits if_splits)
qed

text \<open>C37: for a version whose overlays can be read, an index over some
  fields built at a version is taken as stale on exactly the fragments with an overlay committed
  after it that supplies values of one of those fields.\<close>

theorem stale_fragments_correct:
  assumes "\<And>f. f \<in> set (m_fragments m) \<Longrightarrow> read_fragment_overlays d f = Inr (overlays f)"
  shows "fragments_stale_for_index d m cols v =
    {ucast (fr_id f) | f. f \<in> set (m_fragments m) \<and>
       (\<exists>overlay \<in> set (overlays f). v < ov_committed_version overlay \<and>
          set (df_fields (ov_data_file overlay)) \<inter> set cols \<noteq> {})}"
proof -
  have stale: "fragment_has_overlays f \<and>
       (case fragment_overlaid_fields_after d f v of Inl _ \<Rightarrow> True | Inr touched \<Rightarrow> list_ex (\<lambda>f. f \<in> touched) cols) \<longleftrightarrow>
     (\<exists>overlay \<in> set (overlays f). v < ov_committed_version overlay \<and>
          set (df_fields (ov_data_file overlay)) \<inter> set cols \<noteq> {})" if f: "f \<in> set (m_fragments m)" for f
  proof (cases "fragment_has_overlays f")
    case True
    then show ?thesis using assms [OF f]
      by (auto simp: fragment_overlaid_fields_after_def list_ex_iff)
  next
    case False
    then show ?thesis using no_overlays_read [OF assms [OF f]] by simp
  qed
  show ?thesis
    unfolding fragments_stale_for_index_def set_map set_filter image_Collect using stale by (metis (lifting))
qed

theorem stale_fragments_correct_witness:
  "fragments_stale_for_index example_data_file
     (new_manifest\<lparr>m_fragments := [new_fragment\<lparr>fr_id := 4, fr_unknown := put_bytes_field 11 (stamp_overlay example_overlay 7)\<rparr>]\<rparr>) [1] 6
   = {4}"
proof -
  let ?f = "new_fragment\<lparr>fr_id := 4, fr_unknown := put_bytes_field 11 (stamp_overlay example_overlay 7)\<rparr>"
  let ?ov = "new_overlay\<lparr>ov_data_file := new_data_file\<lparr>df_path := ''a'', df_fields := [1]\<rparr>,
     ov_shared_offsets := [3, 5], ov_committed_version := 7\<rparr>"
  have "read_fragment_overlays example_data_file ?f = Inr [?ov]" by code_simp
  then have "fragments_stale_for_index example_data_file (new_manifest\<lparr>m_fragments := [?f]\<rparr>) [1] 6 =
      {ucast (fr_id f) | f. f \<in> set (m_fragments (new_manifest\<lparr>m_fragments := [?f]\<rparr>)) \<and>
       (\<exists>overlay \<in> set [?ov]. 6 < ov_committed_version overlay \<and>
          set (df_fields (ov_data_file overlay)) \<inter> set [1] \<noteq> {})}"
    by (intro stale_fragments_correct) simp
  then show ?thesis by simp
qed

end
