(* ===== verification/Read_Safety.thy ===== *)
theory Read_Safety
  imports Prelude
begin

text \<open>
  Limits and overflow-checked arithmetic for reading untrusted files
  (\<open>src/include/nanolance/read_safety.hpp\<close>), on 64-bit words that wrap. \<open>std::size_t\<close> is 64 bits wide.
\<close>

definition kZstdMaxExpansion :: u64 where "kZstdMaxExpansion = 32768"

subsection \<open>Limits\<close>

record read_limits =
  max_uncompressed_bytes :: u64
  max_rows_per_column :: u64
  max_columns :: u32
  max_manifest_elements :: u64

definition initial_read_limits :: read_limits where
  "initial_read_limits = \<lparr>max_uncompressed_bytes = push_bit 30 8, max_rows_per_column = push_bit 34 1,
     max_columns = push_bit 20 1, max_manifest_elements = push_bit 24 1\<rparr>"

definition trusted_read_limits :: read_limits where
  "trusted_read_limits = \<lparr>max_uncompressed_bytes = - 1, max_rows_per_column = - 1,
     max_columns = - 1, max_manifest_elements = - 1\<rparr>"

text \<open>\<open>ScopedReadLimits\<close>: the thread's active limits, replaced for a read and put back after it. The
  body of the scope gets the limits in force and may itself change them.\<close>

definition scoped_read_limits :: "read_limits \<Rightarrow> (read_limits \<Rightarrow> 'a \<times> read_limits) \<Rightarrow> read_limits \<Rightarrow> 'a \<times> read_limits" where
  "scoped_read_limits limits body active = (fst (body limits), active)"

subsection \<open>Checked arithmetic\<close>

definition checked_add :: "u64 \<Rightarrow> u64 \<Rightarrow> u64 option" where
  "checked_add a b = (if a > - 1 - b then None else Some (a + b))"

definition checked_mul :: "u64 \<Rightarrow> u64 \<Rightarrow> u64 option" where
  "checked_mul a b = (if a \<noteq> 0 \<and> b > - 1 div a then None else Some (a * b))"

definition fits_size_t :: "u64 \<Rightarrow> bool" where
  "fits_size_t v = (v \<le> - 1)"

definition range_in_bounds :: "u64 \<Rightarrow> u64 \<Rightarrow> u64 \<Rightarrow> bool" where
  "range_in_bounds offset len tot = (case checked_add offset len of None \<Rightarrow> False | Some stop \<Rightarrow> stop \<le> tot)"

definition load_le :: "nat \<Rightarrow> byte list \<Rightarrow> nat \<Rightarrow> 'a::len word" where
  "load_le width bytes at = le_word (take width (drop at bytes))"

lemma unat_minus_1: "unat (- 1 :: u64) = 2 ^ 64 - 1"
  by (simp add: unsigned_minus_1_eq_mask mask_eq_exp_minus_1)

lemma checked_add_iff:
  "checked_add a b = (if unat a + unat b < 2 ^ 64 then Some (a + b) else None)"
  using le_max_minus [of b a] by (auto simp: checked_add_def)

lemma unat_checked_add: "checked_add a b = Some c \<Longrightarrow> unat c = unat a + unat b"
  by (auto simp: checked_add_iff unat_word_ariths split: if_splits)

lemma checked_mul_iff:
  "checked_mul a b = (if unat a * unat b < 2 ^ 64 then Some (a * b) else None)"
proof (cases "a = 0")
  case False
  then have pos: "0 < unat a" by (simp add: word_gt_0_no unat_gt_0)
  have "b > - 1 div a \<longleftrightarrow> (2 ^ 64 - 1) div unat a < unat b"
    by (simp add: word_less_nat_alt unat_div unat_minus_1)
  also have "\<dots> \<longleftrightarrow> 2 ^ 64 \<le> unat a * unat b"
    using pos by (simp add: div_less_iff_less_mult mult.commute) linarith
  finally show ?thesis using False by (auto simp: checked_mul_def)
qed (simp add: checked_mul_def)

lemma unat_checked_mul: "checked_mul a b = Some c \<Longrightarrow> unat c = unat a * unat b"
  by (auto simp: checked_mul_iff unat_word_ariths split: if_splits)

lemma range_in_bounds_iff: "range_in_bounds offset len tot \<longleftrightarrow> unat offset + unat len \<le> unat tot"
proof (cases "checked_add offset len")
  case None
  then have "2 ^ 64 \<le> unat offset + unat len" by (simp add: checked_add_iff split: if_splits)
  with None unat_u64 [of tot] show ?thesis by (simp add: range_in_bounds_def)
next
  case (Some stop)
  with unat_checked_add [OF Some] show ?thesis by (simp add: range_in_bounds_def word_le_nat_alt)
qed

text \<open>C40: the checked sum and product give the exact result when it fits in
  64 bits and refuse otherwise, and the bounds check accepts exactly the ranges that end inside the
  buffer, whatever the operands: no operand makes them wrap.\<close>

theorem checked_arithmetic_exact:
  "map_option unat (checked_add a b) = (if unat a + unat b < 2 ^ 64 then Some (unat a + unat b) else None) \<and>
   map_option unat (checked_mul a b) = (if unat a * unat b < 2 ^ 64 then Some (unat a * unat b) else None) \<and>
   (range_in_bounds a b c \<longleftrightarrow> unat a + unat b \<le> unat c)"
proof (intro conjI)
  show "map_option unat (checked_add a b) = (if unat a + unat b < 2 ^ 64 then Some (unat a + unat b) else None)"
    by (auto simp: checked_add_iff intro!: unat_checked_add)
  show "map_option unat (checked_mul a b) = (if unat a * unat b < 2 ^ 64 then Some (unat a * unat b) else None)"
    by (auto simp: checked_mul_iff intro!: unat_checked_mul)
qed (rule range_in_bounds_iff)

lemma load_le_bytes:
  "i < width \<Longrightarrow> at + width \<le> length bytes \<Longrightarrow> 8 * width \<le> LENGTH('a) \<Longrightarrow>
     ucast (drop_bit (8 * i) (load_le width bytes at :: 'a::len word)) = bytes ! (at + i)"
  by (rule bit_eqI) (auto simp: load_le_def bit_ucast_iff bit_drop_bit_eq bit_le_word bit_imp_le_length)

end
