(* ===== verification/Deletion_Vector.thy ===== *)
theory Deletion_Vector
  imports Read_Safety Roaring Base_Paths
begin

text \<open>
  Deletion files (\<open>src/src/table/deletion_vector.cpp\<close>): the row offsets a fragment has deleted, read
  from an Arrow IPC file or from a Roaring bitmap. Both are parsed at absolute positions of the
  whole file, which are natural numbers. The zstd library is an argument (\<open>zstd\<close>), as are the active read
  limits and opening a file; \<open>None\<close> of a bounds-checked read is the code's \<open>false\<close>.
\<close>

subsection \<open>Bounds-checked reads\<close>

definition read_u16 :: "byte list \<Rightarrow> nat \<Rightarrow> u16 option" where
  "read_u16 b at = (if at + 2 > length b then None else Some (le_word (take 2 (drop at b))))"

definition read_u32 :: "byte list \<Rightarrow> nat \<Rightarrow> u32 option" where
  "read_u32 b at = (if at + 4 > length b then None else Some (le_word (take 4 (drop at b))))"

definition read_i32 :: "byte list \<Rightarrow> nat \<Rightarrow> int option" where
  "read_i32 b at = map_option sint (read_u32 b at)"

definition read_i64 :: "byte list \<Rightarrow> nat \<Rightarrow> int option" where
  "read_i64 b at = (if at + 8 > length b then None else Some (sint (le_word (take 8 (drop at b)) :: u64)))"

subsection \<open>Flatbuffer tables\<close>

definition flatbuffer_byte :: "byte list \<Rightarrow> nat \<Rightarrow> byte \<Rightarrow> byte option" where
  "flatbuffer_byte b at fallback =
     (if at = 0 then Some fallback else if at \<ge> length b then None else Some (b ! at))"

text \<open>The absolute offset of a field in the table at \<open>table\<close>, 0 when the field is absent.\<close>

definition flatbuffer_field :: "byte list \<Rightarrow> nat \<Rightarrow> nat \<Rightarrow> nat option" where
  "flatbuffer_field b table field_id =
     (case read_i32 b table of
        None \<Rightarrow> None
      | Some vtable_delta \<Rightarrow>
          let vtable_signed = int table - vtable_delta in
          if vtable_signed < 0 \<or> vtable_signed > int (length b) then None
          else let vtable = nat vtable_signed; slot = 4 + field_id * 2 in
            case read_u16 b vtable of
              None \<Rightarrow> None
            | Some vtable_bytes \<Rightarrow>
                if vtable_bytes < 4 then None
                else if slot + 2 > unat vtable_bytes then Some 0
                else case read_u16 b (vtable + slot) of
                    None \<Rightarrow> None
                  | Some field_offset \<Rightarrow>
                      if field_offset = 0 then Some 0
                      else if table + unat field_offset < length b then Some (table + unat field_offset)
                      else None)"

definition flatbuffer_indirect :: "byte list \<Rightarrow> nat \<Rightarrow> nat option" where
  "flatbuffer_indirect b at =
     (case read_u32 b at of
        None \<Rightarrow> None
      | Some delta \<Rightarrow> if at + unat delta \<le> length b then Some (at + unat delta) else None)"

subsection \<open>Arrow IPC buffers\<close>

datatype frame_size = FrameSize u64 | FrameUnknown | FrameError

record zstd =
  getFrameContentSize :: "byte list \<Rightarrow> frame_size"
  decompress :: "byte list \<Rightarrow> nat \<Rightarrow> byte list option"

definition materialize_ipc_buffer ::
  "zstd \<Rightarrow> byte list \<Rightarrow> nat \<Rightarrow> nat \<Rightarrow> bool \<Rightarrow> u64 \<Rightarrow> byte list result" where
  "materialize_ipc_buffer z body offset len compressed max_bytes =
     (if offset > length body \<or> len > length body - offset then
        Inl ''deletion file buffer runs past the message body''
      else if \<not> compressed then Inr (take len (drop offset body))
      else if len = 0 then Inr []
      else case (if len < 8 then None else read_i64 body offset) of
        None \<Rightarrow> Inl ''deletion file buffer is too short for its compression prefix''
      | Some uncompressed \<Rightarrow>
          let payload = take (len - 8) (drop (offset + 8) body) in
          if uncompressed < 0 then Inr payload
          else if of_int uncompressed > of_nat (len - 8) * kZstdMaxExpansion then
            Inl ''deletion file declares more uncompressed bytes than its zstd frame can produce''
          else if of_int uncompressed > max_bytes then
            Inl ''deletion file declares an implausible uncompressed size''
          else case getFrameContentSize z payload of
            FrameError \<Rightarrow> Inl ''deletion file buffer is not a valid zstd frame''
          | FrameUnknown \<Rightarrow> Inl ''deletion file buffer's zstd frame declares no content size''
          | FrameSize content \<Rightarrow>
              if content \<noteq> of_int uncompressed then
                Inl (''deletion file buffer's zstd frame holds '' @ to_string (unat content) @
                     '' bytes but its Arrow prefix declares '' @ to_string (nat uncompressed))
              else case decompress z payload (nat uncompressed) of
                None \<Rightarrow> Inl ''failed to decompress a deletion file buffer''
              | Some out \<Rightarrow>
                  if length out \<noteq> nat uncompressed then Inl ''failed to decompress a deletion file buffer''
                  else Inr out)"

subsection \<open>Arrow IPC messages\<close>

text \<open>The zero padding between the magic and the first message, 8 bytes at a time.\<close>

function skip_padding :: "byte list \<Rightarrow> nat \<Rightarrow> nat result" where
  "skip_padding bytes pos =
     (if pos + 8 > length bytes then Inr pos
      else case read_u32 bytes pos of
        None \<Rightarrow> Inr pos
      | Some peek \<Rightarrow>
          if peek = 0xFFFFFFFF then Inr pos
          else if peek \<noteq> 0 then Inl ''unexpected bytes between the Arrow IPC magic and its first message''
          else skip_padding bytes (pos + 8))"
  by pat_completeness auto
termination by (relation "measure (\<lambda>(bytes, pos). length bytes - pos)") auto

declare skip_padding.simps [simp del]

text \<open>The optional 64-bit field of a table; absent means 0.\<close>

definition optional_i64 :: "string \<Rightarrow> byte list \<Rightarrow> nat \<Rightarrow> nat \<Rightarrow> int result" where
  "optional_i64 malformed bytes table field_id =
     sbind (need malformed (flatbuffer_field bytes table field_id)) (\<lambda>at.
       if at = 0 then Inr 0 else need malformed (read_i64 bytes at))"

text \<open>The end of a message's header, padded to 8 bytes, and the length of its body.\<close>

definition message_body :: "byte list \<Rightarrow> nat \<Rightarrow> nat \<Rightarrow> (nat \<times> nat) result" where
  "message_body bytes metadata_stop message =
     sbind (optional_i64 ''malformed Arrow IPC body length'' bytes message 3) (\<lambda>body_length.
     if body_length < 0 then Inl ''negative Arrow IPC body length''
     else let padded = (metadata_stop + 7) div 8 * 8 in
       if padded > length bytes \<or> nat body_length > length bytes - padded then
         Inl ''Arrow IPC message body runs past the file''
       else Inr (padded, nat body_length))"

definition batch_compression :: "byte list \<Rightarrow> nat \<Rightarrow> bool result" where
  "batch_compression bytes record_batch =
     sbind (need ''malformed Arrow IPC compression'' (flatbuffer_field bytes record_batch 3)) (\<lambda>compression_at.
     if compression_at = 0 then Inr False
     else sbind (need ''malformed Arrow IPC compression'' (flatbuffer_indirect bytes compression_at)) (\<lambda>compression.
       sbind (need ''malformed Arrow IPC compression codec'' (flatbuffer_field bytes compression 0)) (\<lambda>codec_at.
       sbind (need ''malformed Arrow IPC compression codec'' (flatbuffer_byte bytes codec_at 0)) (\<lambda>codec.
         if sint codec \<noteq> 1 then Inl ''deletion file uses an Arrow IPC compression codec nanolance does not read''
         else Inr True))))"

text \<open>Where the values buffer of the record batch is: the second entry of its buffer vector.\<close>

definition values_buffer :: "byte list \<Rightarrow> nat \<Rightarrow> (nat \<times> nat) result" where
  "values_buffer bytes record_batch =
     sbind (need ''Arrow IPC record batch has no buffers'' (flatbuffer_field bytes record_batch 2)) (\<lambda>buffers_at.
     if buffers_at = 0 then Inl ''Arrow IPC record batch has no buffers''
     else sbind (need ''malformed Arrow IPC buffer vector'' (flatbuffer_indirect bytes buffers_at)) (\<lambda>buffers.
       sbind (need ''Arrow IPC record batch does not look like one uint32 column'' (read_u32 bytes buffers)) (\<lambda>buffer_count.
       if buffer_count < 2 then Inl ''Arrow IPC record batch does not look like one uint32 column''
       else let values_entry = buffers + 4 + 16; malformed = ''malformed Arrow IPC values buffer descriptor'' in
         sbind (need malformed (read_i64 bytes values_entry)) (\<lambda>values_offset.
         sbind (need malformed (read_i64 bytes (values_entry + 8))) (\<lambda>values_length.
           if values_offset < 0 \<or> values_length < 0 then Inl malformed
           else Inr (nat values_offset, nat values_length))))))"

definition value_budget :: "read_limits \<Rightarrow> u64 \<Rightarrow> u64" where
  "value_budget limits max_values = (if max_values \<noteq> 0 then max_values else max_uncompressed_bytes limits div 4)"

definition read_record_batch ::
  "zstd \<Rightarrow> read_limits \<Rightarrow> byte list \<Rightarrow> u64 \<Rightarrow> nat \<Rightarrow> nat \<Rightarrow> nat \<Rightarrow> u32 list result" where
  "read_record_batch z limits bytes max_values message body_at body_length =
     sbind (need ''malformed Arrow IPC record batch'' (flatbuffer_field bytes message 2)) (\<lambda>header_at.
     if header_at = 0 then Inl ''malformed Arrow IPC record batch''
     else sbind (need ''malformed Arrow IPC record batch'' (flatbuffer_indirect bytes header_at)) (\<lambda>record_batch.
       sbind (optional_i64 ''malformed Arrow IPC record batch length'' bytes record_batch 0) (\<lambda>rows.
       if rows < 0 then Inl ''malformed Arrow IPC record batch length''
       else sbind (batch_compression bytes record_batch) (\<lambda>compressed.
         sbind (values_buffer bytes record_batch) (\<lambda>(values_offset, values_length).
         case checked_mul (value_budget limits max_values) 4 of
           None \<Rightarrow> Inl ''deletion file value budget overflows''
         | Some budget_bytes \<Rightarrow>
             sbind (materialize_ipc_buffer z (take body_length (drop body_at bytes)) values_offset values_length
                 compressed budget_bytes) (\<lambda>vals.
               case checked_mul (of_int rows) 4 of
                 None \<Rightarrow> Inl ''Arrow IPC values buffer is shorter than its row count''
               | Some needed_bytes \<Rightarrow>
                   if length vals < unat needed_bytes \<or> \<not> fits_size_t (of_int rows) then
                     Inl ''Arrow IPC values buffer is shorter than its row count''
                   else Inr (map (\<lambda>i. load_le 4 vals (i * 4)) [0..<nat rows])))))))"

text \<open>One message at \<open>pos\<close>: the values of a record batch (\<open>Inl\<close>) or the position after it (\<open>Inr\<close>);
  \<open>None\<close> where the messages stop.\<close>

definition read_message ::
  "zstd \<Rightarrow> read_limits \<Rightarrow> byte list \<Rightarrow> u64 \<Rightarrow> nat \<Rightarrow> (u32 list + nat) option result" where
  "read_message z limits bytes max_values pos =
     sbind (need ''truncated Arrow IPC message'' (read_u32 bytes pos)) (\<lambda>continuation.
     if continuation \<noteq> 0xFFFFFFFF then Inr None
     else sbind (need ''truncated Arrow IPC message header'' (read_u32 bytes (pos + 4))) (\<lambda>metadata_len.
     if metadata_len = 0 then Inr None
     else let metadata_at = pos + 8 in
       if unat metadata_len > length bytes - metadata_at then Inl ''Arrow IPC message header runs past the file''
       else sbind (need ''malformed Arrow IPC message'' (flatbuffer_indirect bytes metadata_at)) (\<lambda>message.
         sbind (need ''malformed Arrow IPC message header'' (flatbuffer_field bytes message 1)) (\<lambda>header_type_at.
         sbind (need ''malformed Arrow IPC message header'' (flatbuffer_byte bytes header_type_at 0)) (\<lambda>header_type.
         sbind (message_body bytes (metadata_at + unat metadata_len) message) (\<lambda>(padded_metadata, body_length).
           if header_type = 3 then
             sbind (read_record_batch z limits bytes max_values message padded_metadata body_length) (\<lambda>vals.
               Inr (Some (Inl vals)))
           else Inr (Some (Inr (padded_metadata + body_length)))))))))"

lemma message_body_after: "message_body bytes stop message = Inr (padded, len) \<Longrightarrow> stop \<le> padded"
  by (auto simp: message_body_def sbind_eq_Inr Let_def split: if_splits)

lemma read_message_after: "read_message z limits bytes max_values pos = Inr (Some (Inr next_pos)) \<Longrightarrow> pos + 8 \<le> next_pos"
  by (auto simp: read_message_def sbind_eq_Inr Let_def split: if_splits dest!: message_body_after)

function read_messages :: "zstd \<Rightarrow> read_limits \<Rightarrow> byte list \<Rightarrow> u64 \<Rightarrow> nat \<Rightarrow> u32 list result" where
  "read_messages z limits bytes max_values pos =
     (if pos + 8 > length bytes then Inl ''Arrow IPC file holds no record batch''
      else case read_message z limits bytes max_values pos of
        Inl e \<Rightarrow> Inl e
      | Inr None \<Rightarrow> Inl ''Arrow IPC file holds no record batch''
      | Inr (Some (Inl vals)) \<Rightarrow> Inr vals
      | Inr (Some (Inr next_pos)) \<Rightarrow> read_messages z limits bytes max_values next_pos)"
  by pat_completeness auto
termination
  by (relation "measure (\<lambda>(z, limits, bytes, max_values, pos). length bytes - pos)")
    (auto dest!: read_message_after)

declare read_messages.simps [simp del]

definition ipc_magic :: "byte list" where
  "ipc_magic = bytes_of ''ARROW1'' @ [0, 0]"

definition parse_arrow_ipc_uint32_column :: "zstd \<Rightarrow> read_limits \<Rightarrow> byte list \<Rightarrow> u64 \<Rightarrow> u32 list result" where
  "parse_arrow_ipc_uint32_column z limits bytes max_values =
     (if length bytes < 8 \<or> take 8 bytes \<noteq> ipc_magic then Inl ''deletion file is not an Arrow IPC file''
      else sbind (skip_padding bytes 8) (read_messages z limits bytes max_values))"

subsection \<open>Roaring bitmaps\<close>

text \<open>The cookie: whether there are run containers, the container count, the run flags and the
  position after them.\<close>

definition bitmap_cookie :: "byte list \<Rightarrow> (bool \<times> u32 \<times> byte list \<times> nat) result" where
  "bitmap_cookie bytes =
     sbind (need ''deletion bitmap is truncated'' (read_u32 bytes 0)) (\<lambda>cookie.
     if cookie AND 0xFFFF = 12347 then
       let container_count = (drop_bit 16 cookie AND 0xFFFF) + 1; flag_bytes = unat ((container_count + 7) div 8) in
       if 4 + flag_bytes > length bytes then Inl ''deletion bitmap run header is truncated''
       else Inr (True, container_count, take flag_bytes (drop 4 bytes), 4 + flag_bytes)
     else if cookie = 12346 then
       sbind (need ''deletion bitmap is truncated'' (read_u32 bytes 4)) (\<lambda>container_count.
         Inr (False, container_count, [], 8))
     else Inl ''deletion bitmap has an unrecognized cookie'')"

primrec bitmap_descriptors :: "nat \<Rightarrow> byte list \<Rightarrow> nat \<Rightarrow> ((u16 \<times> u32) list \<times> nat) result" where
  "bitmap_descriptors 0 bytes pos = Inr ([], pos)"
| "bitmap_descriptors (Suc n) bytes pos =
     sbind (need ''deletion bitmap descriptor header is truncated'' (read_u16 bytes pos)) (\<lambda>key.
     sbind (need ''deletion bitmap descriptor header is truncated'' (read_u16 bytes (pos + 2))) (\<lambda>cardinality_minus_one.
     sbind (bitmap_descriptors n bytes (pos + 4)) (\<lambda>(ds, stop).
       Inr ((key, ucast cardinality_minus_one + 1) # ds, stop))))"

definition over_budget :: string where
  "over_budget = ''deletion bitmap expands past the read budget''"

primrec bitmap_runs ::
  "nat \<Rightarrow> u64 \<Rightarrow> u32 \<Rightarrow> byte list \<Rightarrow> nat \<Rightarrow> u32 list \<Rightarrow> (u32 list \<times> nat) result" where
  "bitmap_runs 0 budget base bytes pos out = Inr (out, pos)"
| "bitmap_runs (Suc n) budget base bytes pos out =
     sbind (need ''deletion bitmap run container is truncated'' (read_u16 bytes pos)) (\<lambda>start.
     sbind (need ''deletion bitmap run container is truncated'' (read_u16 bytes (pos + 2))) (\<lambda>length_minus_one.
     if length out + (unat length_minus_one + 1) > unat budget then Inl over_budget
     else bitmap_runs n budget base bytes (pos + 4)
       (out @ map (\<lambda>v. base OR of_nat v) [unat start..<unat start + unat length_minus_one + 1])))"

definition popcount :: "byte \<Rightarrow> nat" where
  "popcount b = length (filter (bit b) [0..<8])"

definition declares :: "string \<Rightarrow> nat \<Rightarrow> u32 \<Rightarrow> string" where
  "declares what produced cardinality =
     ''deletion bitmap '' @ what @ ''container holds '' @ to_string produced @
     '' values but its header declares '' @ to_string (unat cardinality)"

definition bitmap_container ::
  "u64 \<Rightarrow> byte list \<Rightarrow> bool \<Rightarrow> u16 \<Rightarrow> u32 \<Rightarrow> nat \<Rightarrow> u32 list \<Rightarrow> (u32 list \<times> nat) result" where
  "bitmap_container budget bytes run key cardinality pos out =
     (let base = push_bit 16 (ucast key) :: u32 in
      if run then
        sbind (need ''deletion bitmap run container is truncated'' (read_u16 bytes pos)) (\<lambda>run_count.
        sbind (bitmap_runs (unat run_count) budget base bytes (pos + 2) out) (\<lambda>(out', pos').
          let produced = length out' - length out in
          if produced \<noteq> unat cardinality then Inl (declares ''run '' produced cardinality)
          else Inr (out', pos')))
      else if cardinality > 4096 then
        if pos + 8192 > length bytes then Inl ''deletion bitmap container is truncated''
        else let set_bits = sum_list (map popcount (take 8192 (drop pos bytes))) in
          if set_bits \<noteq> unat cardinality then Inl (declares [] set_bits cardinality)
          else if length out + set_bits > unat budget then Inl over_budget
          else Inr (out @ map (\<lambda>v. base OR of_nat v)
              (filter (\<lambda>v. (bytes ! (pos + v div 8)) AND push_bit (v mod 8) 1 \<noteq> 0) [0..<65536]), pos + 8192)
      else let needed = unat cardinality * 2 in
        if pos + needed > length bytes then Inl ''deletion bitmap array container is truncated''
        else if length out + unat cardinality > unat budget then Inl over_budget
        else sbind (sfold (\<lambda>out v.
            sbind (need ''deletion bitmap array container is truncated'' (read_u16 bytes (pos + v * 2))) (\<lambda>value.
              Inr (out @ [base OR ucast value]))) out [0..<unat cardinality]) (\<lambda>out'. Inr (out', pos + needed)))"

fun bitmap_containers ::
  "u64 \<Rightarrow> byte list \<Rightarrow> bool \<Rightarrow> byte list \<Rightarrow> nat \<Rightarrow> (u16 \<times> u32) list \<Rightarrow> nat \<Rightarrow> u32 list \<Rightarrow> u32 list result" where
  "bitmap_containers budget bytes has_runs run_flags i [] pos out = Inr out"
| "bitmap_containers budget bytes has_runs run_flags i ((key, cardinality) # ds) pos out =
     sbind (bitmap_container budget bytes
         (has_runs \<and> (run_flags ! (i div 8)) AND push_bit (i mod 8) 1 \<noteq> 0) key cardinality pos out) (\<lambda>(out', pos').
       bitmap_containers budget bytes has_runs run_flags (i + 1) ds pos' out')"

definition parse_roaring_bitmap :: "read_limits \<Rightarrow> byte list \<Rightarrow> u64 \<Rightarrow> u32 list result" where
  "parse_roaring_bitmap limits bytes max_values =
     sbind (bitmap_cookie bytes) (\<lambda>(has_runs, container_count, run_flags, pos).
     if container_count > 65536 then Inl ''deletion bitmap declares an implausible container count''
     else sbind (bitmap_descriptors (unat container_count) bytes pos) (\<lambda>(descriptors, pos1).
     let offset_bytes = unat container_count * 4; offsets = \<not> has_runs \<or> container_count \<ge> 4 in
     if offsets \<and> offset_bytes > length bytes - min pos1 (length bytes) then
       Inl ''deletion bitmap offset header is truncated''
     else let pos2 = (if offsets then pos1 + offset_bytes else pos1); budget = value_budget limits max_values in
       if sum_list (map (\<lambda>(_, cardinality). unat cardinality) descriptors) > unat budget then Inl over_budget
       else sbind (bitmap_containers budget bytes has_runs run_flags 0 descriptors pos2 []) (\<lambda>out.
         Inr (remdups_adj (sort out)))))"

subsection \<open>Deletion files\<close>

text \<open>Opening a file gives \<open>None\<close> when it cannot be opened and \<open>Some None\<close> when reading it fails.\<close>

type_synonym file_reader = "string \<Rightarrow> byte list option option"

definition deletion_file_name :: "u64 \<Rightarrow> deletion_file \<Rightarrow> string" where
  "deletion_file_name fragment_id file =
     to_string (unat fragment_id) @ ''-'' @ to_string (unat (del_read_version file)) @ ''-'' @
     to_string (unat (del_id file)) @ (if del_type file = 1 then ''.bin'' else ''.arrow'')"

definition read_deletion_vector ::
  "file_reader \<Rightarrow> zstd \<Rightarrow> read_limits \<Rightarrow> string \<Rightarrow> u64 \<Rightarrow> deletion_file \<Rightarrow> u32 list result" where
  "read_deletion_vector open_source z limits deletions_dir fragment_id file =
     (if \<not> del_present file then Inr []
      else let name = deletion_file_name fragment_id file in
        sbind (need (''failed to open deletion file '' @ name) (open_source (path_join deletions_dir name))) (\<lambda>source.
        sbind (need (''failed to read deletion file '' @ name) source) (\<lambda>bytes.
        sbind (if del_type file = 1 then parse_roaring_bitmap limits bytes (del_num_rows file)
               else sbind (parse_arrow_ipc_uint32_column z limits bytes (del_num_rows file))
                 (\<lambda>offsets. Inr (remdups_adj (sort offsets)))) (\<lambda>offsets.
          if del_num_rows file \<noteq> 0 \<and> length offsets \<noteq> unat (del_num_rows file) then
            Inl (''deletion file holds '' @ to_string (length offsets) @ '' offsets but the manifest claims '' @
                 to_string (unat (del_num_rows file)))
          else Inr offsets))))"

definition read_manifest_deletion_vector ::
  "file_reader \<Rightarrow> zstd \<Rightarrow> read_limits \<Rightarrow> string \<Rightarrow> manifest \<Rightarrow> u64 \<Rightarrow> deletion_file \<Rightarrow> u32 list result" where
  "read_manifest_deletion_vector open_source z limits dataset_path m fragment_id file =
     sbind (deletion_file_dir dataset_path m file) (\<lambda>deletions_dir.
       read_deletion_vector open_source z limits deletions_dir fragment_id file)"

subsection \<open>Writing\<close>

text \<open>The number in a new file's name: the clock, a counter of the process and fresh randomness.\<close>

definition deletion_file_id :: "u64 \<Rightarrow> u64 \<Rightarrow> u64 \<Rightarrow> u64 \<Rightarrow> u64" where
  "deletion_file_id now counter random fragment_id =
     (now * 0x9E3779B97F4A7C15) XOR (counter + 1) XOR push_bit 40 fragment_id XOR random"

text \<open>Building the Arrow IPC file and writing it out is an argument (\<open>write_column\<close>, path and offsets); it
  goes through nanoarrow.\<close>

definition write_deletion_file ::
  "(string \<Rightarrow> u32 list \<Rightarrow> unit result) \<Rightarrow> u64 \<Rightarrow> u64 \<Rightarrow> u64 \<Rightarrow> string \<Rightarrow> u64 \<Rightarrow> u64 \<Rightarrow> u32 list \<Rightarrow> deletion_file result" where
  "write_deletion_file write_column now counter random dataset_path fragment_id read_version deleted =
     (let i = deletion_file_id now counter random fragment_id AND 0x7FFFFFFFFFFFFFFF;
          name = to_string (unat fragment_id) @ ''-'' @ to_string (unat read_version) @ ''-'' @ to_string (unat i) @ ''.arrow''
      in sbind (write_column (path_join (path_join dataset_path ''_deletions'') name) deleted) (\<lambda>_.
        Inr (no_deletion_file\<lparr>del_present := True, del_type := 0, del_read_version := read_version, del_id := i,
          del_num_rows := of_nat (length deleted)\<rparr>)))"

subsection \<open>What a deletion file can make the reader allocate\<close>

lemma materialize_length:
  assumes "materialize_ipc_buffer z body offset len compressed max_bytes = Inr out"
  shows "length out \<le> max (length body) (unat max_bytes)"
proof -
  have "unat (of_int i :: u64) = nat i" if "read_i64 body offset = Some i" "0 \<le> i" for i
  proof -
    from that have "i < 2 ^ 63"
      using sint_lt [where 'a = 64] by (auto simp: read_i64_def split: if_splits)
    with \<open>0 \<le> i\<close> show ?thesis by (simp add: unat_eq_nat_uint uint_word_of_int)
  qed
  with assms show ?thesis
    by (auto simp: materialize_ipc_buffer_def Let_def word_less_nat_alt not_less
        split: if_splits option.splits frame_size.splits)
qed

lemma record_batch_length:
  assumes "read_record_batch z limits bytes max_values message body_at body_length = Inr vals"
  shows "4 * length vals \<le> max (length bytes) (4 * unat (value_budget limits max_values))"
proof -
  from assms obtain rows compressed values_offset values_length budget_bytes buffer needed_bytes where
    rows: "0 \<le> rows" "optional_i64 ''malformed Arrow IPC record batch length'' bytes
        (the (flatbuffer_indirect bytes (the (flatbuffer_field bytes message 2)))) 0 = Inr rows"
    and budget: "checked_mul (value_budget limits max_values) 4 = Some budget_bytes"
    and buffer: "materialize_ipc_buffer z (take body_length (drop body_at bytes)) values_offset values_length
       compressed budget_bytes = Inr buffer"
    and needed: "checked_mul (of_int rows) 4 = Some needed_bytes" "unat needed_bytes \<le> length buffer"
    and vals: "length vals = nat rows"
    unfolding read_record_batch_def
    by (auto simp: sbind_eq_Inr need_eq_Inr not_less split: if_splits option.splits)
  have "rows < 2 ^ 63"
    using rows sint_lt [where 'a = 64]
    by (auto simp: optional_i64_def sbind_eq_Inr need_eq_Inr read_i64_def split: if_splits)
  then have "unat (of_int rows :: u64) = nat rows" using rows(1) by (simp add: unat_eq_nat_uint uint_word_of_int)
  then have "unat needed_bytes = 4 * length vals" using unat_checked_mul [OF needed(1)] vals by simp
  moreover have "unat budget_bytes = 4 * unat (value_budget limits max_values)"
    using unat_checked_mul [OF budget] by simp
  moreover have "length (take body_length (drop body_at bytes)) \<le> length bytes" by simp
  ultimately show ?thesis using materialize_length [OF buffer] needed(2) by linarith
qed

lemma read_messages_length:
  "read_messages z limits bytes max_values pos = Inr vals \<Longrightarrow>
     4 * length vals \<le> max (length bytes) (4 * unat (value_budget limits max_values))"
proof (induction z limits bytes max_values pos rule: read_messages.induct)
  case (1 z limits bytes max_values pos)
  from "1.prems" consider
    "read_message z limits bytes max_values pos = Inr (Some (Inl vals))"
  | next_pos where "\<not> length bytes < pos + 8" "read_message z limits bytes max_values pos = Inr (Some (Inr next_pos))"
      "read_messages z limits bytes max_values next_pos = Inr vals"
    by (subst (asm) read_messages.simps) (auto split: if_splits sum.splits option.splits)
  then show ?case
  proof cases
    case 1
    then show ?thesis
      by (auto simp: read_message_def sbind_eq_Inr Let_def split: if_splits dest!: record_batch_length)
  next
    case 2
    then show ?thesis using "1.IH" by auto
  qed
qed


lemma strict_sorted_remdups_adj: "sorted_wrt (<) (remdups_adj (sort (xs :: 'a::linorder list)))"
proof -
  have "sorted xs \<Longrightarrow> sorted_wrt (<) (remdups_adj xs)" for xs :: "'a list"
    by (induction xs rule: remdups_adj.induct) (auto simp: less_le)
  then show ?thesis by simp
qed

lemma bitmap_runs_budget:
  "bitmap_runs n budget base bytes pos out = Inr (out', pos') \<Longrightarrow> length out \<le> unat budget \<Longrightarrow> length out' \<le> unat budget"
  by (induction n arbitrary: pos out) (auto simp: sbind_eq_Inr simp del: upt_Suc split: if_splits)

lemma sfold_append_length:
  assumes "sfold (\<lambda>out v. sbind (need e (f v)) (\<lambda>x. Inr (out @ [g x]))) out vs = Inr out'"
  shows "length out' = length out + length vs"
  using assms by (induction vs arbitrary: out) (auto simp: sbind_eq_Inr)

text \<open>The set bits of a bitmap, counted byte by byte and enumerated bit by bit.\<close>

lemma length_filter_bits:
  "length (filter (\<lambda>v. bit (xs ! (v div 8)) (v mod 8)) [0..<8 * length xs]) = sum_list (map popcount xs)"
proof (induction xs rule: rev_induct)
  case (snoc x xs)
  let ?n = "length xs"
  have "map (\<lambda>i. 8 * ?n + i) [0..<8] = [8 * ?n..<8 * ?n + 8]"
    using map_add_upt [of "8 * ?n" 8] by (simp add: add.commute)
  then have "[0..<8 * length (xs @ [x])] = [0..<8 * ?n] @ map (\<lambda>i. 8 * ?n + i) [0..<8]"
    using upt_add_eq_append [of 0 "8 * ?n" 8] by (simp add: add.commute)
  moreover have "filter (\<lambda>v. bit ((xs @ [x]) ! (v div 8)) (v mod 8)) [0..<8 * ?n] =
      filter (\<lambda>v. bit (xs ! (v div 8)) (v mod 8)) [0..<8 * ?n]"
    by (rule filter_cong) (auto simp: nth_append div_less_iff_less_mult mult.commute)
  moreover have "length (filter (\<lambda>v. bit ((xs @ [x]) ! (v div 8)) (v mod 8)) (map (\<lambda>i. 8 * ?n + i) [0..<8])) = popcount x"
  proof -
    have "filter (\<lambda>v. bit ((xs @ [x]) ! (v div 8)) (v mod 8)) (map (\<lambda>i. 8 * ?n + i) [0..<8]) =
        map (\<lambda>i. 8 * ?n + i) (filter (\<lambda>i. bit x i) [0..<8])"
      unfolding filter_map by (rule arg_cong [of _ _ "map _"], rule filter_cong) (auto simp: nth_append)
    then show ?thesis by (simp add: popcount_def)
  qed
  ultimately show ?case using snoc.IH by simp
qed simp

lemma length_bitmap_bits:
  assumes "pos + 8192 \<le> length bytes"
  shows "length (filter (\<lambda>v. (bytes ! (pos + v div 8)) AND push_bit (v mod 8) 1 \<noteq> 0) [0..<65536]) =
    sum_list (map popcount (take 8192 (drop pos bytes)))"
proof -
  let ?xs = "take 8192 (drop pos bytes)"
  have len: "length ?xs = 8192" using assms by simp
  have "filter (\<lambda>v. (bytes ! (pos + v div 8)) AND push_bit (v mod 8) 1 \<noteq> 0) [0..<65536] =
      filter (\<lambda>v. bit (?xs ! (v div 8)) (v mod 8)) [0..<8 * length ?xs]"
    unfolding len bit_test using assms
    by (intro filter_cong) (auto simp: div_less_iff_less_mult)
  then show ?thesis by (simp only: length_filter_bits)
qed

lemma bitmap_container_budget:
  assumes "bitmap_container budget bytes run key cardinality pos out = Inr (out', pos')" and "length out \<le> unat budget"
  shows "length out' \<le> unat budget"
proof -
  consider "run" | "\<not> run" "cardinality > 4096" | "\<not> run" "\<not> cardinality > 4096" by blast
  then show ?thesis
  proof cases
    case 1
    with assms show ?thesis
      by (auto simp: bitmap_container_def sbind_eq_Inr Let_def split: if_splits dest!: bitmap_runs_budget)
  next
    case 2
    with assms show ?thesis
      by (auto simp: bitmap_container_def Let_def length_bitmap_bits not_less simp del: upt_Suc push_bit_of_1 split: if_splits)
  next
    case 3
    with assms show ?thesis
      by (auto simp: bitmap_container_def sbind_eq_Inr Let_def simp del: upt_Suc split: if_splits dest!: sfold_append_length)
  qed
qed

lemma bitmap_containers_budget:
  "bitmap_containers budget bytes has_runs flags i ds pos out = Inr out' \<Longrightarrow> length out \<le> unat budget \<Longrightarrow>
     length out' \<le> unat budget"
proof (induction budget bytes has_runs flags i ds pos out rule: bitmap_containers.induct)
  case (2 budget bytes has_runs flags i key cardinality ds pos out)
  from "2.prems" obtain out1 pos1 where c: "bitmap_container budget bytes
      (has_runs \<and> (flags ! (i div 8)) AND push_bit (i mod 8) 1 \<noteq> 0) key cardinality pos out = Inr (out1, pos1)"
    "bitmap_containers budget bytes has_runs flags (i + 1) ds pos1 out1 = Inr out'"
    by (auto simp: sbind_eq_Inr)
  from "2.IH" [OF c(2)] bitmap_container_budget [OF c(1) "2.prems"(2)] show ?case by simp
qed simp


subsection \<open>The two Roaring readers agree\<close>

lemma read_u16_drop: "r_u16 (drop pos bytes) = Some (v, r) \<Longrightarrow>
    read_u16 bytes pos = Some v \<and> r = drop (pos + 2) bytes \<and> pos + 2 \<le> length bytes"
  by (auto simp: r_u16_def read_u16_def add.commute split: if_splits)

lemma read_u16_pair:
  assumes "r_u16 (drop pos bytes) = Some (a, bs1)" and "r_u16 bs1 = Some (b, bs2)"
  shows "read_u16 bytes pos = Some a \<and> read_u16 bytes (pos + 2) = Some b \<and> bs2 = drop (pos + 4) bytes \<and> pos + 4 \<le> length bytes"
proof -
  have four: "pos + 2 + 2 = pos + 4" by simp
  from read_u16_drop [OF assms(1)] have "read_u16 bytes pos = Some a" "r_u16 (drop (pos + 2) bytes) = Some (b, bs2)"
    using assms(2) by blast+
  with read_u16_drop [of "pos + 2"] show ?thesis unfolding four by blast
qed

lemma read_u32_drop: "r_u32 (drop pos bytes) = Some (v, r) \<Longrightarrow>
    read_u32 bytes pos = Some v \<and> r = drop (pos + 4) bytes \<and> pos + 4 \<le> length bytes"
  by (auto simp: r_u32_def read_u32_def add.commute split: if_splits)

lemma bitmap_cookie_drop:
  assumes "read_cookie bytes = Inr (n, flags, offsets, r)"
  shows "\<exists>has_runs pos. bitmap_cookie bytes = Inr (has_runs, n, flags, pos) \<and> r = drop pos bytes \<and>
    pos \<le> length bytes \<and> has_runs = (flags \<noteq> []) \<and> offsets = (\<not> has_runs \<or> n \<ge> 4)"
proof -
  from assms obtain cookie bs where u: "r_u32 bytes = Some (cookie, bs)"
    by (auto simp: read_cookie_def sbind_eq_Inr need_eq_Inr)
  with read_u32_drop [of 0 bytes] have c: "read_u32 bytes 0 = Some cookie" "bs = drop 4 bytes" "4 \<le> length bytes" by auto
  show ?thesis
  proof (cases "cookie = 12346")
    case True
    with assms u obtain r' where "r_u32 (drop 4 bytes) = Some (n, r')" "flags = []" "offsets" "r = r'"
      by (auto simp: read_cookie_def sbind_eq_Inr need_eq_Inr c)
    with read_u32_drop [of 4 bytes] True c show ?thesis by (auto simp: bitmap_cookie_def)
  next
    case False
    let ?count = "drop_bit 16 cookie + 1" 
    from False assms u have run: "cookie AND 0xFFFF = 12347" and n: "n = ?count"
      and len: "unat ((?count + 7) div 8) \<le> length (drop 4 bytes)"
      and flags: "flags = take (unat ((?count + 7) div 8)) (drop 4 bytes)" "offsets = (?count \<ge> 4)"
        "r = drop (unat ((?count + 7) div 8)) (drop 4 bytes)"
      by (auto simp: read_cookie_def sbind_eq_Inr need_eq_Inr c Let_def split: if_splits)
    have small: "unat (drop_bit 16 cookie) < 65536" using unat_u32 [of cookie] by (simp add: unat_shr div_less_iff_less_mult)
    have "(0xFFFF :: u32) = mask 16" by (simp add: mask_eq_exp_minus_1)
    then have mask: "drop_bit 16 cookie AND 0xFFFF = drop_bit 16 cookie"
      using take_bit_small [of "drop_bit 16 cookie" 16] small by (simp only: take_bit_eq_mask) simp
    from small have "unat (?count + 7) = unat (drop_bit 16 cookie) + 8"
      by (simp add: unat_word_ariths add.assoc)
    then have "0 < unat ((?count + 7) div 8)" by (simp add: unat_div)
    moreover have "0 < length (drop 4 bytes)" using calculation len by linarith
    ultimately have "flags \<noteq> []" by (simp add: flags)
    with run n len flags mask c show ?thesis
      by (auto simp: bitmap_cookie_def Let_def add.commute)
  qed
qed

lemma bitmap_descriptors_drop:
  "read_headers n previous (drop pos bytes) = Inr (hs, r) \<Longrightarrow> pos \<le> length bytes \<Longrightarrow>
     bitmap_descriptors n bytes pos = Inr (hs, pos + 4 * n) \<and> r = drop (pos + 4 * n) bytes \<and> pos + 4 * n \<le> length bytes"
proof (induction n arbitrary: previous pos hs)
  case (Suc n)
  from Suc.prems obtain key bs1 card bs2 where k: "r_u16 (drop pos bytes) = Some (key, bs1)" "r_u16 bs1 = Some (card, bs2)"
    by (auto simp: sbind_eq_Inr need_eq_Inr)
  then have p: "read_u16 bytes pos = Some key" "read_u16 bytes (pos + 2) = Some card" "bs2 = drop (pos + 4) bytes"
    "pos + 4 \<le> length bytes" using read_u16_pair by blast+
  from Suc.prems k obtain hs' where hs': "read_headers n (Some key) (drop (pos + 4) bytes) = Inr (hs', r)"
    "hs = (key, ucast card + 1) # hs'"
    by (auto simp: sbind_eq_Inr p(3) split: if_splits option.splits)
  from Suc.IH [OF hs'(1) p(4)] p hs'(2) show ?case by (simp add: add.assoc)
qed simp

lemma bitmap_runs_drop:
  "read_runs n previous high (drop pos bytes) = Inr (vs, r) \<Longrightarrow> pos \<le> length bytes \<Longrightarrow>
     length out + length vs \<le> unat budget \<Longrightarrow>
     \<exists>pos'. bitmap_runs n budget high bytes pos out = Inr (out @ vs, pos') \<and> r = drop pos' bytes \<and> pos' \<le> length bytes"
proof (induction n arbitrary: previous pos vs out)
  case (Suc n)
  from Suc.prems obtain start bs1 len bs2 where k: "r_u16 (drop pos bytes) = Some (start, bs1)" "r_u16 bs1 = Some (len, bs2)"
    by (auto simp: sbind_eq_Inr need_eq_Inr)
  then have p: "read_u16 bytes pos = Some start" "read_u16 bytes (pos + 2) = Some len" "bs2 = drop (pos + 4) bytes"
    "pos + 4 \<le> length bytes" using read_u16_pair by blast+
  let ?stop = "ucast start + ucast len :: u32"
  have "unat (ucast start :: u32) = unat start" "unat (ucast len :: u32) = unat len" by (simp_all add: unat_ucast_up)
  moreover have "unat start < 65536" "unat len < 65536" using unsigned_less [of start] unsigned_less [of len] by simp_all
  ultimately have stop: "unat ?stop = unat start + unat len" by (simp add: unat_word_ariths)
  from Suc.prems(1) k obtain previous' ws where ws: "read_runs n previous' high (drop (pos + 4) bytes) = Inr (ws, r)"
    "vs = map (\<lambda>v. high OR of_nat v) [unat start..<unat ?stop + 1] @ ws"
    by (auto simp: sbind_eq_Inr p(3) Let_def simp del: upt_Suc split: if_splits option.splits)
  let ?run = "map (\<lambda>v. high OR of_nat v) [unat start..<unat start + unat len + 1]"
  have vs: "vs = ?run @ ws" using ws(2) unfolding stop .
  have fits: "length out + (unat len + 1) \<le> unat budget" "length (out @ ?run) + length ws \<le> unat budget"
    using Suc.prems(3) unfolding vs by (simp_all del: upt_Suc)
  from Suc.IH [OF ws(1) p(4) fits(2)] p(1,2) fits(1) show ?case
    unfolding vs by (simp del: upt_Suc)
qed (auto intro!: exI)

lemma array_values_drop:
  "read_array n latest high (drop (pos + a * 2) bytes) = Inr (vs, r) \<Longrightarrow> pos + a * 2 \<le> length bytes \<Longrightarrow>
     sfold (\<lambda>out v. sbind (need e (read_u16 bytes (pos + v * 2))) (\<lambda>value. Inr (out @ [high OR ucast value]))) out
       [a..<a + n] = Inr (out @ vs) \<and> r = drop (pos + (a + n) * 2) bytes \<and> pos + (a + n) * 2 \<le> length bytes"
proof (induction n arbitrary: latest a vs out)
  case (Suc n)
  from Suc.prems obtain v bs1 where v: "r_u16 (drop (pos + a * 2) bytes) = Some (v, bs1)"
    by (auto simp: sbind_eq_Inr need_eq_Inr)
  have shift: "pos + a * 2 + 2 = pos + Suc a * 2" by simp
  from read_u16_drop [OF v] have p: "read_u16 bytes (pos + a * 2) = Some v" "bs1 = drop (pos + Suc a * 2) bytes"
    "pos + Suc a * 2 \<le> length bytes" unfolding shift by blast+
  from Suc.prems(1) v obtain ws where ws: "read_array n (Some (high OR ucast v)) high (drop (pos + Suc a * 2) bytes) = Inr (ws, r)"
    "vs = (high OR ucast v) # ws"
    by (auto simp: sbind_eq_Inr p(2) split: if_splits option.splits)
  have upt: "[a..<a + Suc n] = a # [Suc a..<Suc a + n]" by (simp add: upt_conv_Cons)
  from Suc.IH [OF ws(1) p(3), of "out @ [high OR ucast v]"] show ?case
    unfolding upt ws(2) by (simp add: p(1))
qed simp

lemma bitmap_container_drop:
  assumes dec: "read_container run key cardinality (drop pos bytes) = Inr (vs, r)" and "pos \<le> length bytes"
    and fits: "length out + length vs \<le> unat budget"
  shows "\<exists>pos'. bitmap_container budget bytes run key cardinality pos out = Inr (out @ vs, pos') \<and>
    r = drop pos' bytes \<and> pos' \<le> length bytes"
proof -
  let ?base = "push_bit 16 (ucast key) :: u32"
  from dec have len: "length vs = unat cardinality"
    by (auto simp: read_container_def sbind_eq_Inr Let_def split: if_splits)
  consider "run" | "\<not> run" "cardinality > 4096" | "\<not> run" "\<not> cardinality > 4096" by blast
  then show ?thesis
  proof cases
    case 1
    with dec obtain runs bs1 where runs: "r_u16 (drop pos bytes) = Some (runs, bs1)"
      and vs: "read_runs (unat runs) None ?base bs1 = Inr (vs, r)"
      by (auto simp: read_container_def sbind_eq_Inr need_eq_Inr Let_def split: if_splits)
    from read_u16_drop [OF runs] have p: "read_u16 bytes pos = Some runs" "bs1 = drop (pos + 2) bytes" "pos + 2 \<le> length bytes"
      by blast+
    from bitmap_runs_drop [OF vs [unfolded p(2)] p(3) fits] p(1) len 1 show ?thesis
      by (auto simp: bitmap_container_def Let_def)
  next
    case 2
    with dec have room: "pos + 8192 \<le> length bytes"
      by (auto simp: read_container_def sbind_eq_Inr Let_def read_bitmap_def split: if_splits)
    have nth: "drop pos bytes ! (v div 8) = bytes ! (pos + v div 8)" for v using room by simp
    from 2 dec room have vs: "vs = map (\<lambda>v. ?base OR of_nat v)
        (filter (\<lambda>v. (bytes ! (pos + v div 8)) AND push_bit (v mod 8) 1 \<noteq> 0) [0..<65536])"
      and r: "r = drop (pos + 8192) bytes"
      by (auto simp: read_container_def sbind_eq_Inr Let_def read_bitmap_def nth add.commute simp del: upt_Suc push_bit_of_1
          split: if_splits)
    have bits: "sum_list (map popcount (take 8192 (drop pos bytes))) = unat cardinality"
      unfolding length_bitmap_bits [OF room, symmetric] len [symmetric] vs by simp
    show ?thesis
      using 2 room r bits fits len vs
      by (intro exI [of _ "pos + 8192"]) (simp add: bitmap_container_def Let_def del: upt_Suc push_bit_of_1)
  next
    case 3
    with dec have vs: "read_array (unat cardinality) None ?base (drop (pos + 0 * 2) bytes) = Inr (vs, r)"
      by (auto simp: read_container_def sbind_eq_Inr Let_def split: if_splits)
    from array_values_drop [OF vs, of "''deletion bitmap array container is truncated''" out] \<open>pos \<le> length bytes\<close> fits len 3 show ?thesis
      by (intro exI [of _ "pos + unat cardinality * 2"]) (simp add: bitmap_container_def Let_def)
  qed
qed

lemma bitmap_containers_drop:
  "read_containers flags i hs (drop pos bytes) = Inr (vs, r) \<Longrightarrow> pos \<le> length bytes \<Longrightarrow>
     length out + length vs \<le> unat budget \<Longrightarrow>
     bitmap_containers budget bytes (flags \<noteq> []) flags i hs pos out = Inr (out @ vs) \<and>
     sum_list (map (\<lambda>(_, cardinality). unat cardinality) hs) = length vs"
proof (induction flags i hs "drop pos bytes" arbitrary: pos vs out rule: read_containers.induct)
  case (2 flags i key cardinality hs)
  from "2.prems" obtain ws bs1 us where c: "read_container (is_run flags i) key cardinality (drop pos bytes) = Inr (ws, bs1)"
    and rest: "read_containers flags (i + 1) hs bs1 = Inr (us, r)" and vs: "vs = ws @ us"
    by (auto simp: sbind_eq_Inr)
  have len: "length ws = unat cardinality" using c by (auto simp: read_container_def sbind_eq_Inr Let_def split: if_splits)
  have "length out + length ws \<le> unat budget" using "2.prems"(3) vs by simp
  then obtain pos' where pos': "bitmap_container budget bytes (is_run flags i) key cardinality pos out = Inr (out @ ws, pos')"
    "bs1 = drop pos' bytes" "pos' \<le> length bytes"
    using bitmap_container_drop [OF c "2.prems"(2)] by blast
  have "length (out @ ws) + length us \<le> unat budget" using "2.prems"(3) vs by simp
  from "2.hyps" [OF rest [unfolded pos'(2)] pos'(3) this] pos'(1) len vs show ?case
    by (simp add: is_run_def)
qed simp

lemma parse_decoded:
  assumes "decode bytes = Inr ids" and "length ids \<le> unat (value_budget limits max_values)"
  shows "parse_roaring_bitmap limits bytes max_values = Inr ids"
proof -
  from assms(1) obtain r where dec: "decode_prefix bytes = Inr (ids, r)" by (auto simp: decode_def sbind_eq_Inr)
  then obtain n flags offsets bs1 where cookie: "read_cookie bytes = Inr (n, flags, offsets, bs1)"
    by (auto simp: decode_prefix_def sbind_eq_Inr)
  with dec have n: "\<not> n > 65536" "\<not> unat n > length bs1 div 4"
    by (auto simp: decode_prefix_def split: if_split_asm)
  with dec cookie obtain hs bs2 where hs: "read_headers (unat n) None bs1 = Inr (hs, bs2)"
    by (auto simp: decode_prefix_def sbind_eq_Inr)
  with dec cookie n have "sbind (if offsets then need ''roaring bitmap: truncated offsets'' (r_skip (unat n * 4) bs2)
      else Inr bs2) (read_containers flags 0 hs) = Inr (ids, r)"
    by (simp add: decode_prefix_def)
  then obtain bs3 where
    skip: "(if offsets then need ''roaring bitmap: truncated offsets'' (r_skip (unat n * 4) bs2) else Inr bs2) = Inr bs3"
    and ids: "read_containers flags 0 hs bs3 = Inr (ids, r)"
    unfolding sbind_eq_Inr by blast
  obtain pos where pos: "bitmap_cookie bytes = Inr (flags \<noteq> [], n, flags, pos)" "bs1 = drop pos bytes" "pos \<le> length bytes"
    and offsets: "offsets = (\<not> flags \<noteq> [] \<or> n \<ge> 4)"
    using bitmap_cookie_drop [OF cookie] by blast
  let ?pos1 = "pos + 4 * unat n"
  from bitmap_descriptors_drop [OF hs [unfolded pos(2)] pos(3)]
  have ds: "bitmap_descriptors (unat n) bytes pos = Inr (hs, ?pos1)" "bs2 = drop ?pos1 bytes" "?pos1 \<le> length bytes" by blast+
  let ?pos2 = "if offsets then ?pos1 + unat n * 4 else ?pos1"
  have p2: "bs3 = drop ?pos2 bytes" "?pos2 \<le> length bytes"
    using skip ds(2,3) by (auto simp: r_skip_def add.commute need_eq_Inr split: if_splits)
  from bitmap_containers_drop [OF ids [unfolded p2(1)] p2(2), of "[]"] assms(2)
  have cs: "bitmap_containers (value_budget limits max_values) bytes (flags \<noteq> []) flags 0 hs ?pos2 [] = Inr ids"
    "sum_list (map (\<lambda>(_, cardinality). unat cardinality) hs) = length ids" by simp_all
  have "sorted_wrt (<) ids" by (rule decode_prefix_ascending [OF dec])
  then have "sorted ids" "distinct ids" by (simp_all add: strict_sorted_iff)
  then have same: "remdups_adj (sort ids) = ids" by (simp add: sorted_sort_id remdups_adj_distinct)
  have "\<not> (offsets \<and> unat n * 4 > length bytes - min ?pos1 (length bytes))"
    using p2(2) ds(3) by (auto split: if_splits)
  with pos(1) n(1) ds(1) cs assms(2) same offsets show ?thesis
    by (simp add: parse_roaring_bitmap_def Let_def not_less)
qed

text \<open>C28: every bitmap that the Roaring reader accepts, the deletion file reader
  reads as the same ids, unless they exceed its budget.\<close>

theorem roaring_readers_agree:
  assumes "decode bytes = Inr ids" and "length ids \<le> unat (value_budget limits max_values)"
  shows "parse_roaring_bitmap limits bytes max_values = Inr ids"
  using assms by (rule parse_decoded)

text \<open>A deletion file with the offsets 3 and 5 in one uncompressed record batch.\<close>

definition example_ipc :: "byte list" where
  "example_ipc = ipc_magic @ le_bytes 4 (0xFFFFFFFF :: u32) @ le_bytes 4 (100 :: u32) @ le_bytes 4 (16 :: u32)
     @ concat (map (le_bytes 2) [12, 20, 0, 4, 8, 12 :: u16]) @ le_bytes 4 (12 :: u32) @ [3, 0, 0, 0]
     @ le_bytes 4 (24 :: u32) @ le_bytes 8 (8 :: u64)
     @ concat (map (le_bytes 2) [12, 16, 4, 0, 12, 0 :: u16]) @ le_bytes 4 (12 :: u32) @ le_bytes 8 (2 :: u64)
     @ le_bytes 4 (4 :: u32) @ le_bytes 4 (2 :: u32) @ concat (map (le_bytes 8) [0, 0, 0, 8 :: u64])
     @ replicate 4 0 @ le_bytes 4 (3 :: u32) @ le_bytes 4 (5 :: u32)"

definition no_zstd :: zstd where
  "no_zstd = \<lparr>getFrameContentSize = (\<lambda>_. FrameError), decompress = (\<lambda>_ _. None)\<rparr>"

lemma parse_example_ipc: "parse_arrow_ipc_uint32_column no_zstd initial_read_limits example_ipc 2 = Inr [3, 5]"
  by code_simp



theorem roaring_readers_agree_witness:
  "parse_roaring_bitmap initial_read_limits (encode [3, 5]) 2 = Inr [3, 5]"
proof (rule roaring_readers_agree)
  show "decode (encode [3, 5]) = Inr [3, 5]" by (simp add: decode_def rb.dec_enc_whole)
qed (simp add: value_budget_def)

subsection \<open>Reading a deletion file\<close>

lemma read_deletion_vector_ascending:
  assumes "read_deletion_vector open_source z limits dir fragment_id file = Inr offsets"
  shows "sorted_wrt (<) offsets" and "del_present file \<Longrightarrow> del_num_rows file \<noteq> 0 \<Longrightarrow> length offsets = unat (del_num_rows file)"
proof -
  have bitmap: "parse_roaring_bitmap limits bytes n = Inr xs \<Longrightarrow> sorted_wrt (<) xs" for bytes n xs
    by (auto simp: parse_roaring_bitmap_def sbind_eq_Inr Let_def strict_sorted_remdups_adj split: if_splits)
  show "sorted_wrt (<) offsets"
    using assms
    by (auto simp: read_deletion_vector_def sbind_eq_Inr Let_def strict_sorted_remdups_adj bitmap split: if_splits)
  show "del_present file \<Longrightarrow> del_num_rows file \<noteq> 0 \<Longrightarrow> length offsets = unat (del_num_rows file)"
    using assms by (auto simp: read_deletion_vector_def sbind_eq_Inr Let_def split: if_splits)
qed



lemma written_file_read:
  assumes "write_deletion_file write_column now counter random dataset_path fragment_id read_version deleted = Inr file"
    and "\<And>path. write_column path deleted = Inr () \<Longrightarrow> \<exists>bytes. open_source path = Some (Some bytes) \<and>
      parse_arrow_ipc_uint32_column z limits bytes (of_nat (length deleted)) = Inr deleted"
    and "sorted_wrt (<) deleted" and "length deleted < 2 ^ 64"
  shows "read_deletion_vector open_source z limits (path_join dataset_path ''_deletions'') fragment_id file = Inr deleted"
proof -
  let ?path = "path_join (path_join dataset_path ''_deletions'') (deletion_file_name fragment_id file)"
  from assms(1) have new: "del_present file" "del_type file = 0" "del_num_rows file = of_nat (length deleted)"
    "write_column ?path deleted = Inr ()"
    by (auto simp: write_deletion_file_def sbind_eq_Inr Let_def deletion_file_name_def)
  then obtain bytes where "open_source ?path = Some (Some bytes)"
    "parse_arrow_ipc_uint32_column z limits bytes (of_nat (length deleted)) = Inr deleted"
    using assms(2) by blast
  moreover have "remdups_adj (sort deleted) = deleted"
    using assms(3) by (simp add: strict_sorted_iff sorted_sort_id remdups_adj_distinct)
  moreover have "length deleted = unat (of_nat (length deleted) :: u64)" using assms(4) by (simp add: unat_of_nat_small)
  ultimately show ?thesis using new(1-3) by (simp add: read_deletion_vector_def)
qed



end
