(* ===== verification/Transaction_Checks.thy ===== *)
theory Transaction_Checks
  imports Manifest
begin

text \<open>
  The checks a hand-built transaction passes before it is applied
  (\<open>src/src/table/dataset_transaction.cpp\<close>, first part). \<open>field_path\<close> follows parent ids for as long as
  they lead to a field, so it is a partial function: \<open>None\<close> is a call that never returns, and what calls
  it is \<open>None\<close> with it.
\<close>

definition int_string :: "int \<Rightarrow> string" where
  "int_string i = (if i < 0 then ''-'' @ to_string (nat (- i)) else to_string (nat i))"

definition deletion_path :: "data_fragment \<Rightarrow> string" where
  "deletion_path f = ''_deletions/'' @ to_string (unat (fr_id f)) @ ''-'' @
     to_string (unat (del_read_version (fr_deletion f))) @ ''-'' @ to_string (unat (del_id (fr_deletion f))) @
     (if del_type (fr_deletion f) = 1 then ''.bin'' else ''.arrow'')"

definition files_have_fields :: "data_fragment list \<Rightarrow> unit result" where
  "files_have_fields fragments =
     (case find (\<lambda>file. df_fields file = []) (concat (map fr_files fragments)) of
        None \<Rightarrow> Inr ()
      | Some file \<Rightarrow> Inl (''Invalid user input: Datafile '' @ df_path file @ '' does not contain any fields''))"

definition overwrite_fragments_valid :: "data_fragment list \<Rightarrow> unit result" where
  "overwrite_fragments_valid fragments =
     (case find (\<lambda>f. del_present (fr_deletion f)) fragments of
        None \<Rightarrow> Inr ()
      | Some f \<Rightarrow> Inl (''Invalid user input: Overwrite fragments must be newly written, but fragment '' @
          to_string (unat (fr_id f)) @ '' carries deletion file '' @ deletion_path f @
          ''. Use Delete to commit deletions against existing fragments, or Merge to change their schema.''))"

fun comma_list :: "u64 list \<Rightarrow> string" where
  "comma_list [] = []"
| "comma_list [i] = to_string (unat i)"
| "comma_list (i # is) = to_string (unat i) @ '', '' @ comma_list is"

definition id_list :: "u64 list \<Rightarrow> string" where
  "id_list ids = ''['' @ comma_list ids @ '']''"

definition field_by_id :: "pb_field list \<Rightarrow> int \<Rightarrow> pb_field option" where
  "field_by_id schema i = find (\<lambda>f. pf_id f = i) schema"

partial_function (option) field_path_from :: "pb_field list \<Rightarrow> int \<Rightarrow> string \<Rightarrow> string option" where
  "field_path_from schema at out =
     (if at = - 1 then Some out
      else case field_by_id schema at of
        None \<Rightarrow> Some out
      | Some f \<Rightarrow> field_path_from schema (pf_parent_id f) (if out = [] then pf_name f else pf_name f @ ''.'' @ out))"

definition field_path :: "pb_field list \<Rightarrow> int \<Rightarrow> string option" where
  "field_path schema i = field_path_from schema i []"

subsection \<open>Merge\<close>

definition max_field_id :: "pb_field list \<Rightarrow> int" where
  "max_field_id schema = foldl (\<lambda>m f. max m (pf_id f)) (- 1) schema"

definition last_by_id :: "data_fragment list \<Rightarrow> (u64 \<rightharpoonup> data_fragment)" where
  "last_by_id fragments = map_of (rev (map (\<lambda>f. (fr_id f, f)) fragments))"

text \<open>The original fragments the merge does not have; an original whose row count it changed is an error.\<close>

definition missing_step :: "(u64 \<rightharpoonup> data_fragment) \<Rightarrow> u64 list \<Rightarrow> data_fragment \<Rightarrow> u64 list result" where
  "missing_step by_id missing f =
     (case by_id (fr_id f) of
        None \<Rightarrow> Inr (missing @ [fr_id f])
      | Some g \<Rightarrow>
          if fr_rows g \<noteq> fr_rows f then
            Inl (''Invalid user input: Merge operation changed row count for fragment '' @ to_string (unat (fr_id f)) @
                 ''. Original: Some('' @ to_string (unat (fr_rows f)) @ ''), New: Some('' @ to_string (unat (fr_rows g)) @
                 ''). Merge operations should preserve fragment row counts and only add new columns.'')
          else Inr missing)"

definition field_error :: "string \<Rightarrow> pb_field \<Rightarrow> string \<Rightarrow> string" where
  "field_error what f rest = ''Invalid user input: Merge operation '' @ what @ int_string (pf_id f) @ rest"

definition quoted :: "string \<Rightarrow> string" where
  "quoted s = [CHR 0x22] @ s @ [CHR 0x22]"

definition merge_field_valid :: "pb_field list \<Rightarrow> pb_field list \<Rightarrow> int \<Rightarrow> pb_field \<Rightarrow> unit result option" where
  "merge_field_valid before_schema schema max_id f =
     (case field_by_id before_schema (pf_id f) of
        None \<Rightarrow>
          if pf_id f \<le> max_id then
            map_option (\<lambda>path. Inl (field_error ''assigns id '' f ('' to new field '' @ quoted path @ '', but ids up to '' @
                int_string max_id @ '' are already used by current or dropped fields. New fields must use ids of at least '' @
                int_string (max_id + 1) @ ''.''))) (field_path schema (pf_id f))
          else Some (Inr ())
      | Some prior \<Rightarrow>
          (case field_path before_schema (pf_id f) of
             None \<Rightarrow> None
           | Some path \<Rightarrow>
               map_option (\<lambda>path'.
                 if path \<noteq> path' then
                   Inl (field_error ''remaps field id '' f ('' from '' @ quoted path @ '' to '' @ quoted path' @
                     ''. Merge must preserve the dataset's field ids: derive the new schema from the dataset's current schema instead of renumbering fields.''))
                 else Inr ()) (field_path schema (pf_id f))))"

fun merge_schema_valid :: "pb_field list \<Rightarrow> pb_field list \<Rightarrow> int \<Rightarrow> pb_field list \<Rightarrow> unit result option" where
  "merge_schema_valid before_schema schema max_id [] = Some (Inr ())"
| "merge_schema_valid before_schema schema max_id (f # fs) =
     (case merge_field_valid before_schema schema max_id f of
        None \<Rightarrow> None
      | Some (Inl e) \<Rightarrow> Some (Inl e)
      | Some (Inr _) \<Rightarrow> merge_schema_valid before_schema schema max_id fs)"

definition merge_fragments_valid :: "data_fragment list \<Rightarrow> data_fragment list \<Rightarrow> unit result" where
  "merge_fragments_valid original fragments =
     (if length fragments < length original then
        Inl (''Invalid user input: Merge operation reduced fragment count from '' @ to_string (length original) @ '' to '' @
             to_string (length fragments) @ ''. Merge operations should only add columns, not reduce fragments.'')
      else sbind (sfold (missing_step (last_by_id fragments)) [] original) (\<lambda>missing.
        if missing \<noteq> [] then
          Inl (''Invalid user input: Merge operation is missing original fragments: '' @ id_list missing @
               ''. Merge operations should preserve all original fragments and only add new columns. Expected fragments: '' @
               id_list (map fr_id original) @ '', but got: '' @ id_list (map fr_id fragments))
        else Inr ()))"

definition merge_valid :: "manifest \<Rightarrow> operation \<Rightarrow> unit result option" where
  "merge_valid m op =
     (case merge_fragments_valid (m_fragments m) (op_fragments op) of
        Inl e \<Rightarrow> Some (Inl e)
      | Inr _ \<Rightarrow> merge_schema_valid (m_fields m) (op_schema op) (max_field_id (m_fields m)) (op_schema op))"

subsection \<open>When the checks return\<close>

text \<open>Lance numbers a field after its parent.\<close>

definition parents_first :: "pb_field list \<Rightarrow> bool" where
  "parents_first schema = list_all (\<lambda>f. pf_parent_id f < pf_id f) schema"

lemma field_path_returns:
  assumes "parents_first schema"
  shows "\<exists>path. field_path_from schema i out = Some path"
proof (induction "card {f \<in> set schema. pf_id f \<le> i}" arbitrary: i out rule: less_induct)
  case less
  show ?case
  proof (cases "field_by_id schema i")
    case None
    then show ?thesis by (subst field_path_from.simps) simp
  next
    case (Some f)
    then have f: "f \<in> set schema" "pf_id f = i" by (auto simp: field_by_id_def find_Some_iff)
    with assms have up: "pf_parent_id f < i" by (auto simp: parents_first_def list_all_iff)
    have "{g \<in> set schema. pf_id g \<le> pf_parent_id f} \<subset> {g \<in> set schema. pf_id g \<le> i}" using f up by force
    then have "card {g \<in> set schema. pf_id g \<le> pf_parent_id f} < card {g \<in> set schema. pf_id g \<le> i}"
      by (intro psubset_card_mono) simp_all
    from less [OF this] Some show ?thesis by (subst field_path_from.simps) simp
  qed
qed

lemma merge_schema_returns:
  assumes "parents_first before_schema" "parents_first schema"
  shows "\<exists>r. merge_schema_valid before_schema schema max_id fs = Some r"
proof (induction fs)
  case (Cons f fs)
  obtain p q where "field_path before_schema (pf_id f) = Some p" "field_path schema (pf_id f) = Some q"
    using field_path_returns [OF assms(1)] field_path_returns [OF assms(2)] unfolding field_path_def by blast
  then have "\<exists>r. merge_field_valid before_schema schema max_id f = Some r"
    by (auto simp: merge_field_valid_def split: option.splits)
  with Cons show ?case by (auto split: option.splits sum.splits)
qed simp

lemma field_path_loop:
  assumes "pf_id f = i" "pf_parent_id f = i" "i \<noteq> - 1"
  shows "field_path_from [f] i out = None"
proof (rule ccontr)
  assume "field_path_from [f] i out \<noteq> None"
  then obtain path where "field_path_from [f] i out = Some path" by blast
  then have "\<not> ([f] = [f] \<and> i = i)"
    by (rule field_path_from.raw_induct [where P = "\<lambda>schema at out path. \<not> (schema = [f] \<and> at = i)", rotated])
      (use assms in \<open>auto simp: field_by_id_def split del: if_split, blast\<close>)
  then show False by simp
qed

text \<open>C32: checking a merge comes to an answer for schemas whose fields are numbered
  after their parents.\<close>

theorem merge_check_returns:
  assumes "parents_first (m_fields m)" and "parents_first (op_schema op)"
  shows "\<exists>answer. merge_valid m op = Some answer"
  using merge_schema_returns [OF assms] by (auto simp: merge_valid_def split: sum.splits)

definition example_column :: "int \<Rightarrow> int \<Rightarrow> pb_field" where
  "example_column i parent = \<lparr>pf_name = ''c'', pf_logical_type = ''int64'', pf_id = i, pf_parent_id = parent, pf_type = 2,
     pf_nullable = True, pf_encoding = 1, pf_metadata = [], pf_primary_key = False,
     pf_primary_key_position = 0, pf_clustering_key_position = 0, pf_unknown = []\<rparr>"

theorem merge_check_returns_witness:
  "\<exists>answer. merge_valid (new_manifest\<lparr>m_fields := [example_column 0 (- 1), example_column 1 0]\<rparr>)
     ((new_operation Merge)\<lparr>op_schema := [example_column 0 (- 1), example_column 1 0]\<rparr>) = Some answer"
  by (rule merge_check_returns) (simp_all add: parents_first_def example_column_def new_operation_def)


subsection \<open>What a valid merge keeps\<close>

lemma merge_fragments_valid_iff:
  "merge_fragments_valid original fragments = Inr () \<longleftrightarrow>
     length original \<le> length fragments \<and>
     (\<forall>f \<in> set original. \<exists>g. last_by_id fragments (fr_id f) = Some g \<and> fr_rows g = fr_rows f)"
proof -
  have "(\<exists>missing. sfold (missing_step by_id) acc original = Inr missing \<and> missing = []) \<longleftrightarrow>
      acc = [] \<and> (\<forall>f \<in> set original. \<exists>g. by_id (fr_id f) = Some g \<and> fr_rows g = fr_rows f)" for by_id acc
  proof (induction original arbitrary: acc)
    case (Cons f fs)
    show ?case
    proof (cases "by_id (fr_id f)")
      case None
      then show ?thesis using Cons.IH [of "acc @ [fr_id f]"] by (simp add: missing_step_def)
    next
      case (Some g)
      then show ?thesis using Cons.IH [of acc] by (auto simp: missing_step_def)
    qed
  qed auto
  from this [of "last_by_id fragments" "[]"] show ?thesis
    by (auto simp: merge_fragments_valid_def sbind_eq_Inr split: if_splits)
qed

end
