(* ===== verification/Transaction_Indices.thy ===== *)
theory Transaction_Indices
  imports Manifest
begin

text \<open>
  Index bookkeeping of hand-built transactions (\<open>src/src/table/dataset_transaction.cpp\<close>): which fragments
  leave the coverage of an index when an operation rewrites a field, and how the coverage follows a
  rewrite of fragments.
\<close>

subsection \<open>Fields rewritten in place\<close>

definition index_touched :: "u64 list \<Rightarrow> index_metadata \<Rightarrow> bool" where
  "index_touched fields_modified index =
     list_ex (\<lambda>i. i \<ge> 0 \<and> of_int i \<in> set fields_modified) (ix_fields index)"

definition prune_index :: "u64 list \<Rightarrow> u64 list \<Rightarrow> index_metadata \<Rightarrow> index_metadata" where
  "prune_index fragments fields_modified index =
     (if \<not> index_touched fields_modified index \<or> \<not> ix_has_bitmap index then index
      else let ids = filter (\<lambda>i. ucast i \<notin> set fragments) (ix_fragment_ids index) in
        index\<lparr>ix_fragment_ids := ids,
          ix_bitmap_changed := ix_bitmap_changed index \<or> length ids \<noteq> length (ix_fragment_ids index)\<rparr>)"

definition prune_updated_fields :: "index_metadata list \<Rightarrow> u64 list \<Rightarrow> u64 list \<Rightarrow> index_metadata list" where
  "prune_updated_fields indices fragments fields_modified =
     (if fields_modified = [] \<or> fragments = [] then indices
      else map (prune_index fragments fields_modified) indices)"

text \<open>Each field's data file in a fragment, tombstones left out, and the field ids that have one.\<close>

definition field_files :: "data_fragment \<Rightarrow> (int \<rightharpoonup> string)" where
  "field_files f = map_of (rev (concat (map (\<lambda>file. map (\<lambda>i. (i, df_path file)) (filter (\<lambda>i. i \<ge> 0) (df_fields file))) (fr_files f))))"

definition field_ids :: "data_fragment \<Rightarrow> int list" where
  "field_ids f = remdups (filter (\<lambda>i. i \<ge> 0) (concat (map df_fields (fr_files f))))"

definition changed_fields :: "data_fragment \<Rightarrow> data_fragment \<Rightarrow> u64 list" where
  "changed_fields old new =
     map of_int (filter (\<lambda>i. field_files new i \<noteq> None \<and> field_files new i \<noteq> field_files old i) (field_ids old))"

definition prune_merge_rewritten ::
  "index_metadata list \<Rightarrow> data_fragment list \<Rightarrow> data_fragment list \<Rightarrow> index_metadata list" where
  "prune_merge_rewritten indices old_fragments new_fragments =
     (let prev = map_of (rev (map (\<lambda>f. (fr_id f, f)) old_fragments)) in
      foldl (\<lambda>indices f. case prev (fr_id f) of
          None \<Rightarrow> indices
        | Some old \<Rightarrow> prune_updated_fields indices [fr_id f] (changed_fields old f)) indices new_fragments)"

subsection \<open>Coverage after a rewrite\<close>

definition group_ids :: "data_fragment list \<Rightarrow> u32 list" where
  "group_ids fragments = map (\<lambda>f. ucast (fr_id f)) fragments"

definition recalculate_step :: "u32 set \<Rightarrow> u32 set \<Rightarrow> rewrite_group \<Rightarrow> u32 set result" where
  "recalculate_step old out g =
     (let covered = length (filter (\<lambda>i. i \<in> old) (group_ids (rg_old g))) in
      if covered = 0 then Inr out
      else if covered \<noteq> length (rg_old g) then
        Inl ''Invalid user input: The compaction plan included a rewrite group that was a split of indexed and non-indexed data''
      else Inr ((out - set (group_ids (rg_old g))) \<union> set (group_ids (rg_new g))))"

definition recalculate_bitmap :: "u32 list \<Rightarrow> rewrite_group list \<Rightarrow> u32 list result" where
  "recalculate_bitmap ids groups =
     sbind (sfold (recalculate_step (set ids)) (set ids) groups) (\<lambda>out. Inr (sorted_list_of_set out))"

subsection \<open>Coverage follows the rewrite\<close>

lemma prune_index_ids:
  "set (ix_fragment_ids (prune_index fragments fields_modified index)) =
     (if index_touched fields_modified index \<and> ix_has_bitmap index
      then {i \<in> set (ix_fragment_ids index). ucast i \<notin> set fragments} else set (ix_fragment_ids index))"
  by (auto simp: prune_index_def Let_def)

lemma recalculate_step_Inr:
  "recalculate_step old out g = Inr out' \<longleftrightarrow>
     (if set (group_ids (rg_old g)) \<inter> old = {} then out' = out
      else set (group_ids (rg_old g)) \<subseteq> old \<and> out' = (out - set (group_ids (rg_old g))) \<union> set (group_ids (rg_new g)))"
proof -
  have none: "length (filter (\<lambda>i. i \<in> old) xs) = 0 \<longleftrightarrow> set xs \<inter> old = {}" for xs :: "u32 list"
    by (auto simp: filter_empty_conv)
  have all: "length (filter (\<lambda>i. i \<in> old) xs) = length xs \<longleftrightarrow> set xs \<subseteq> old" for xs :: "u32 list"
    by (metis (no_types, lifting) filter_id_conv length_filter_less less_irrefl subset_code(1))
  have len: "length (rg_old g) = length (group_ids (rg_old g))" by (simp add: group_ids_def)
  show ?thesis
    unfolding recalculate_step_def Let_def none len all by auto
qed

lemma recalculate_fold:
  assumes "sfold (recalculate_step old) out groups = Inr out'"
    and "\<And>g h. g \<in> set groups \<Longrightarrow> h \<in> set groups \<Longrightarrow> set (group_ids (rg_new g)) \<inter> set (group_ids (rg_old h)) = {}"
  shows "out' = (out - (\<Union>g \<in> {g \<in> set groups. set (group_ids (rg_old g)) \<inter> old \<noteq> {}}. set (group_ids (rg_old g)))) \<union>
      (\<Union>g \<in> {g \<in> set groups. set (group_ids (rg_old g)) \<inter> old \<noteq> {}}. set (group_ids (rg_new g))) \<and>
    (\<forall>g \<in> set groups. set (group_ids (rg_old g)) \<inter> old = {} \<or> set (group_ids (rg_old g)) \<subseteq> old)"
  using assms
proof (induction groups arbitrary: out)
  case (Cons g groups)
  from Cons.prems(1) obtain mid where mid: "recalculate_step old out g = Inr mid" "sfold (recalculate_step old) mid groups = Inr out'"
    by (auto simp: sbind_eq_Inr)
  have disj: "set (group_ids (rg_new g)) \<inter> set (group_ids (rg_old h)) = {}" if "h \<in> set groups" for h
    using Cons.prems(2) [of g h] that by simp
  from Cons.IH [OF mid(2)] Cons.prems(2) mid(1) disj show ?case
    unfolding recalculate_step_Inr by (cases "set (group_ids (rg_old g)) \<inter> old = {}") (simp, blast)+
qed simp
text \<open>C34: when rewrite groups replace fragments by new ones, a recalculated
  coverage is ascending and holds the new fragments of each group it covered in place of the old
  ones; it covered each group wholly or not at all.\<close>

theorem recalculate_bitmap_correct:
  assumes "recalculate_bitmap ids groups = Inr ids'"
    and "\<And>g h. g \<in> set groups \<Longrightarrow> h \<in> set groups \<Longrightarrow> set (group_ids (rg_new g)) \<inter> set (group_ids (rg_old h)) = {}"
  shows "sorted_wrt (<) ids' \<and>
    set ids' = (set ids - (\<Union>g \<in> {g \<in> set groups. set (group_ids (rg_old g)) \<inter> set ids \<noteq> {}}. set (group_ids (rg_old g)))) \<union>
      (\<Union>g \<in> {g \<in> set groups. set (group_ids (rg_old g)) \<inter> set ids \<noteq> {}}. set (group_ids (rg_new g))) \<and>
    (\<forall>g \<in> set groups. set (group_ids (rg_old g)) \<inter> set ids = {} \<or> set (group_ids (rg_old g)) \<subseteq> set ids)"
proof -
  from assms(1) obtain out where out: "sfold (recalculate_step (set ids)) (set ids) groups = Inr out"
    "ids' = sorted_list_of_set out"
    by (auto simp: recalculate_bitmap_def sbind_eq_Inr)
  note fold = recalculate_fold [OF out(1) assms(2)]
  then have "finite out" by auto
  with fold out(2) show ?thesis by (simp add: strict_sorted_list_of_set)
qed

definition example_group :: "u64 list \<Rightarrow> u64 list \<Rightarrow> rewrite_group" where
  "example_group old new = \<lparr>rg_old = map (\<lambda>i. new_fragment\<lparr>fr_id := i\<rparr>) old, rg_new = map (\<lambda>i. new_fragment\<lparr>fr_id := i\<rparr>) new\<rparr>"

theorem recalculate_bitmap_correct_witness:
  "recalculate_bitmap [0, 1, 4] [example_group [1, 0] [7], example_group [2] [8]] = Inr [4, 7] \<and> sorted_wrt (<) [4, 7 :: u32]"
proof
  show *: "recalculate_bitmap [0, 1, 4] [example_group [1, 0] [7], example_group [2] [8]] = Inr [4, 7]" by code_simp
  have "set (group_ids (rg_new g)) \<inter> set (group_ids (rg_old h)) = {}"
    if "g \<in> set [example_group [1, 0] [7], example_group [2] [8]]" "h \<in> set [example_group [1, 0] [7], example_group [2] [8]]" for g h
    using that by (auto simp: example_group_def group_ids_def)
  from recalculate_bitmap_correct [OF * this] show "sorted_wrt (<) [4, 7 :: u32]" by blast
qed

lemma prune_updated_fields_nth:
  assumes "k < length indices"
  shows "prune_updated_fields indices fragments fields_modified ! k = prune_index fragments fields_modified (indices ! k)"
proof (cases "fields_modified = [] \<or> fragments = []")
  case True
  then show ?thesis
    by (cases "indices ! k") (auto simp: prune_updated_fields_def prune_index_def index_touched_def list_ex_iff Let_def)
next
  case False
  with assms show ?thesis by (simp add: prune_updated_fields_def)
qed

lemma prune_index_keeps [simp]:
  "ix_fields (prune_index fragments fields_modified index) = ix_fields index"
  "ix_has_bitmap (prune_index fragments fields_modified index) = ix_has_bitmap index"
  by (simp_all add: prune_index_def Let_def)

lemma length_prune [simp]: "length (prune_updated_fields indices fragments fields_modified) = length indices"
  by (simp add: prune_updated_fields_def)

text \<open>Folding prunes over fragments: the coverage only shrinks, and loses the fragment of each step whose
  changed fields the index is on.\<close>

lemma prune_fold:
  fixes indices :: "index_metadata list"
  assumes "k < length indices"
  shows "let out = foldl (\<lambda>indices f. case prev (fr_id f) of None \<Rightarrow> indices
        | Some old \<Rightarrow> prune_updated_fields indices [fr_id f] (changed_fields old f)) indices fs in
    length out = length indices \<and> ix_fields (out ! k) = ix_fields (indices ! k) \<and>
    ix_has_bitmap (out ! k) = ix_has_bitmap (indices ! k) \<and>
    set (ix_fragment_ids (out ! k)) \<subseteq> set (ix_fragment_ids (indices ! k)) \<and>
    (\<forall>f \<in> set fs. \<forall>old. prev (fr_id f) = Some old \<and> index_touched (changed_fields old f) (indices ! k) \<and> ix_has_bitmap (indices ! k) \<longrightarrow>
       (\<forall>i \<in> set (ix_fragment_ids (out ! k)). ucast i \<noteq> fr_id f))"
  using assms
proof (induction fs arbitrary: indices)
  case (Cons f fs)
  show ?case
  proof (cases "prev (fr_id f)")
    case None
    with Cons.IH [OF Cons.prems] show ?thesis by (simp add: Let_def)
  next
    case (Some old)
    let ?mid = "prune_updated_fields indices [fr_id f] (changed_fields old f)"
    have k: "k < length ?mid" using Cons.prems by simp
    have mid: "?mid ! k = prune_index [fr_id f] (changed_fields old f) (indices ! k)"
      by (rule prune_updated_fields_nth [OF Cons.prems])
    have touched: "index_touched c (?mid ! k) = index_touched c (indices ! k)" for c
      by (simp add: mid index_touched_def)
    from Cons.IH [OF k] show ?thesis
      using prune_index_ids [of "[fr_id f]" "changed_fields old f" "indices ! k"]
      unfolding Let_def touched by (auto simp: Some mid split: if_splits)
  qed
qed (simp add: Let_def)


definition example_files :: "(string \<times> int list) list \<Rightarrow> data_file list" where
  "example_files files = map (\<lambda>(path, cols). \<lparr>df_path = path, df_fields = cols, df_column_indices = [], df_major = 2, df_minor = 1,
     df_size = 0, df_unknown = []\<rparr>) files"


end
