(* ===== verification/Row_Stamping.thy ===== *)
theory Row_Stamping
  imports Row_Meta Index_Maintenance Deletion_Vector
begin

text \<open>
  Numbering what a commit adds (\<open>src/src/table/dataset_transaction.cpp\<close>): fragment ids for new fragments,
  and, in a dataset with stable row ids, the row ids and row versions of new and updated rows.
\<close>

subsection \<open>Fragment ids\<close>

definition next_fragment_id :: "manifest \<Rightarrow> u64" where
  "next_fragment_id m =
     max (foldl (\<lambda>nxt f. max nxt (fr_id f + 1))
            (if m_has_max_fragment_id m then ucast (m_max_fragment_id m) + 1 else 0) (m_fragments m))
         (first_fragment_id_after_indices (m_indices m))"

fun assign_ids :: "data_fragment list \<Rightarrow> u64 \<Rightarrow> data_fragment list \<times> u64" where
  "assign_ids [] nxt = ([], nxt)"
| "assign_ids (f # fs) nxt =
     (if fr_id f = 0 then apfst (Cons (f\<lparr>fr_id := nxt\<rparr>)) (assign_ids fs (nxt + 1))
      else apfst (Cons f) (assign_ids fs nxt))"

definition storage_version_of :: "data_fragment list \<Rightarrow> string" where
  "storage_version_of fragments =
     (case concat (map fr_files fragments) of
        [] \<Rightarrow> ''2.2''
      | f # _ \<Rightarrow>
          if df_major f = 0 \<and> df_minor f = 0 then ''0.1''
          else if df_major f = 0 \<and> df_minor f = 3 then ''2.0''
          else to_string (unat (df_major f)) @ ''.'' @ to_string (unat (df_minor f)))"

subsection \<open>Row ids and row versions of new fragments\<close>

text \<open>The row ids of one fragment: its metadata, the high-water mark after it, and whether it changed.\<close>

definition stamp_row_ids :: "u64 \<Rightarrow> u64 \<Rightarrow> row_meta \<Rightarrow> (row_meta \<times> u64 \<times> bool) result" where
  "stamp_row_ids rows next_row_id meta =
     (if \<not> rm_has_row_ids meta \<and> \<not> rm_external meta then
        Inr (meta\<lparr>rm_has_row_ids := True, rm_row_ids := encode_sequence (range_seq next_row_id rows)\<rparr>,
             next_row_id + rows, True)
      else if rm_has_row_ids meta then
        sbind (decode_sequence (rm_row_ids meta)) (\<lambda>ids.
          Inr (meta, (case max_id ids of None \<Rightarrow> next_row_id | Some largest \<Rightarrow> max next_row_id (largest + 1)), False))
      else Inr (meta, next_row_id, False))"

definition stamp_created :: "u64 \<Rightarrow> u64 \<Rightarrow> row_meta \<times> bool \<Rightarrow> row_meta \<times> bool" where
  "stamp_created rows version = (\<lambda>(meta, changed).
     if rm_has_created meta then (meta, changed)
     else (meta\<lparr>rm_has_created := True, rm_created := encode_versions (uniform rows version)\<rparr>, True))"

definition stamp_last_updated :: "u64 \<Rightarrow> u64 \<Rightarrow> row_meta \<times> bool \<Rightarrow> row_meta \<times> bool" where
  "stamp_last_updated rows version = (\<lambda>(meta, changed).
     if rm_has_last_updated meta then (meta, changed)
     else (meta\<lparr>rm_has_last_updated := True, rm_last_updated := encode_versions (uniform rows version)\<rparr>, True))"

definition stamp_versions :: "u64 \<Rightarrow> u64 \<Rightarrow> row_meta \<times> bool \<Rightarrow> row_meta \<times> bool" where
  "stamp_versions rows version s =
     (if rows \<noteq> 0 \<and> \<not> rm_external (fst s) then stamp_last_updated rows version (stamp_created rows version s) else s)"

definition stamp_fragment :: "u64 \<Rightarrow> data_fragment \<Rightarrow> u64 \<Rightarrow> (data_fragment \<times> u64) result" where
  "stamp_fragment version fragment next_row_id =
     sbind (read_fragment_row_meta fragment) (\<lambda>meta.
     sbind (stamp_row_ids (fr_rows fragment) next_row_id meta) (\<lambda>(meta, next_row_id, changed).
     let (meta, changed) = stamp_versions (fr_rows fragment) version (meta, changed)
     in Inr (if changed then write_fragment_row_meta fragment meta else fragment, next_row_id)))"

fun stamp_missing_row_meta :: "data_fragment list \<Rightarrow> u64 \<Rightarrow> u64 \<Rightarrow> (data_fragment list \<times> u64) result" where
  "stamp_missing_row_meta [] next_row_id version = Inr ([], next_row_id)"
| "stamp_missing_row_meta (f # fs) next_row_id version =
     sbind (stamp_fragment version f next_row_id) (\<lambda>(f, next_row_id).
     sbind (stamp_missing_row_meta fs next_row_id version) (\<lambda>(fs, next_row_id).
     Inr (f # fs, next_row_id)))"

subsection \<open>Row versions of rows updated in place\<close>

text \<open>\<open>std::vector::resize\<close> with a fill value.\<close>

definition resized :: "'a list \<Rightarrow> nat \<Rightarrow> 'a \<Rightarrow> 'a list" where
  "resized xs n v = take n xs @ replicate (n - length xs) v"

definition set_versions :: "u64 list \<Rightarrow> u32 list \<Rightarrow> u64 \<Rightarrow> u64 list" where
  "set_versions versions offsets version =
     foldl (\<lambda>vs offset. if unat offset < length vs then vs[unat offset := version] else vs) versions offsets"

definition last_versions :: "u64 \<Rightarrow> row_meta \<Rightarrow> u64 list result" where
  "last_versions rows meta =
     (if rm_has_last_updated meta then
        sbind (decode_versions (rm_last_updated meta)) (\<lambda>runs. Inr (resized (versions_to_vector runs) (unat rows) 1))
      else Inr (replicate (unat rows) 1))"

definition stamp_updated_fragment :: "read_limits \<Rightarrow> byte list \<Rightarrow> u64 \<Rightarrow> data_fragment \<Rightarrow> data_fragment result" where
  "stamp_updated_fragment limits bitmap version fragment =
     sbind (parse_roaring_bitmap limits bitmap (fr_rows fragment)) (\<lambda>offsets.
     sbind (read_fragment_row_meta fragment) (\<lambda>meta.
     if rm_external meta \<or> offsets = [] then Inr fragment
     else sbind (last_versions (fr_rows fragment) meta) (\<lambda>versions.
       Inr (write_fragment_row_meta fragment
         (meta\<lparr>rm_has_last_updated := True,
            rm_last_updated := encode_versions (versions_from_values (set_versions versions offsets version))\<rparr>)))))"

definition stamp_updated_rows :: "read_limits \<Rightarrow> data_fragment list \<Rightarrow> operation \<Rightarrow> u64 \<Rightarrow> data_fragment list result" where
  "stamp_updated_rows limits fragments op version =
     sfold (\<lambda>fragments (fragment_id, bitmap).
         sbind (update_first (\<lambda>f. fr_id f = fragment_id) (stamp_updated_fragment limits bitmap version) fragments)
           (\<lambda>r. Inr (case r of None \<Rightarrow> fragments | Some fragments \<Rightarrow> fragments)))
       fragments (op_updated_fragment_offsets op)"

subsection \<open>Row metadata that was read can be written\<close>

lemma reader_next_data_short:
  assumes "reader_next f bs = Next g r" and "length (data_of f) < 2 ^ 64"
  shows "length (data_of g) < 2 ^ 64"
proof -
  have taken: "length (data_of g) < 2 ^ 64" if "take_data h bs n s = Next g r" "n < 2 ^ 64" for h n s
    using that by (auto simp: take_data_def data_of_def split: if_splits)
  from assms show ?thesis
    using taken [of _ 8] taken [of _ 4] taken [OF _ unat_u64]
    by (auto simp: reader_next_def Let_def data_of_def split: if_splits option.splits)
qed

lemma read_fields_data_short:
  "length (data_of f) < 2 ^ 64 \<Longrightarrow> g \<in> set (fst (read_fields reader_next f bs)) \<Longrightarrow> length (data_of g) < 2 ^ 64"
proof (induction bs arbitrary: f rule: length_induct)
  case (1 bs)
  show ?case
  proof (cases "reader_next f bs")
    case (Next h r)
    then have h: "length (data_of h) < 2 ^ 64" using reader_next_data_short "1.prems"(1) by blast
    have "g = h \<or> g \<in> set (fst (read_fields reader_next h r))"
      using "1.prems"(2) Next by (auto simp: pr.read_fields_unfold [of f bs])
    with h show ?thesis using "1.IH" Next pr.next_shrinks by blast
  next
    case AtEnd
    then show ?thesis using "1.prems" by (simp add: pr.read_fields_unfold [of f bs])
  next
    case Malformed
    then show ?thesis using "1.prems" by (simp add: pr.read_fields_unfold [of f bs])
  qed
qed

lemma read_meta_short:
  assumes "read_fragment_row_meta f = Inr meta"
  shows "length (rm_row_ids meta) < 2 ^ 64 \<and> length (rm_last_updated meta) < 2 ^ 64 \<and> length (rm_created meta) < 2 ^ 64"
proof -
  have "length (data_of g) < 2 ^ 64" if "g \<in> set (fst (read_fields reader_next empty_field (fr_unknown f)))" for g
    using that by (rule read_fields_data_short [rotated]) (simp add: empty_field_def data_of_def)
  moreover have "\<forall>g \<in> set gs. length (data_of g) < 2 ^ 64 \<Longrightarrow>
      length (rm_row_ids m) < 2 ^ 64 \<and> length (rm_last_updated m) < 2 ^ 64 \<and> length (rm_created m) < 2 ^ 64 \<Longrightarrow>
      (let m = foldl meta_step m gs in
       length (rm_row_ids m) < 2 ^ 64 \<and> length (rm_last_updated m) < 2 ^ 64 \<and> length (rm_created m) < 2 ^ 64)" for gs m
    by (induction gs arbitrary: m) (simp_all add: meta_step_def)
  ultimately show ?thesis
    using assms by (auto simp: read_fragment_row_meta_def no_row_meta_def Let_def split: prod.splits if_splits)
qed

subsection \<open>The ids a fragment has\<close>

definition row_ids_of :: "data_fragment \<Rightarrow> u64 list option" where
  "row_ids_of f =
     (case read_fragment_row_meta f of
        Inl _ \<Rightarrow> None
      | Inr meta \<Rightarrow> if rm_has_row_ids meta
          then (case decode_sequence (rm_row_ids meta) of Inl _ \<Rightarrow> None | Inr ids \<Rightarrow> Some (to_vector ids)) else None)"

definition unnumbered :: "data_fragment \<Rightarrow> bool" where
  "unnumbered f =
     (case read_fragment_row_meta f of
        Inl _ \<Rightarrow> False | Inr meta \<Rightarrow> \<not> rm_has_row_ids meta \<and> \<not> rm_external meta)"

lemma consecutiveI: "(\<And>i. Suc i < length vs \<Longrightarrow> vs ! Suc i = vs ! i + 1) \<Longrightarrow> consecutive vs"
proof (induction vs rule: consecutive.induct)
  case (1 x y r)
  have "consecutive (y # r)" using "1.prems" [of "Suc _"] by (intro "1.IH") simp
  with "1.prems" [of 0] show ?case by simp
qed simp_all

lemma max_id_top:
  assumes "length (to_vector s) < 2 ^ 64" and "- 1 \<notin> set (to_vector s)"
  shows "max_id s = (if to_vector s = [] then None else Some (Max (set (to_vector s))))"
proof (cases "compact s")
  case True
  let ?vs = "map (\<lambda>i. seq_start s + of_nat i) [0..<unat (seq_count s)]"
  have cons: "consecutive ?vs" by (rule consecutiveI) simp
  have eq: "?vs = to_vector s" using True by (simp add: to_vector_def)
  show ?thesis
  proof (cases "seq_count s = 0")
    case True
    with \<open>compact s\<close> show ?thesis by (simp add: max_id_def seq_size_def to_vector_def)
  next
    case False
    then have "unat (seq_count s) \<noteq> 0" by (simp flip: unat_inject)
    then have "from_values ?vs = s\<lparr>seq_values := []\<rparr>"
      using cons \<open>compact s\<close> by (simp add: from_values_def hd_map)
    then have "max_id (from_values ?vs) = max_id s" using \<open>compact s\<close> by (simp add: max_id_def seq_size_def)
    with max_id_correct [of "to_vector s"] assms show ?thesis unfolding eq by simp
  qed
next
  case False
  then have "list_max (to_vector s) = Max (set (to_vector s))" if "to_vector s \<noteq> []"
    using that by (cases "to_vector s") (simp_all add: list_max_def flip: Max.set_eq_fold)
  moreover have "of_nat (length (to_vector s)) = (0 :: u64) \<longleftrightarrow> to_vector s = []"
    using assms(1) by (auto simp add: word_of_nat_eq_0_iff nat_dvd_not_less)
  ultimately show ?thesis using False by (simp add: max_id_def seq_size_def to_vector_def)
qed

subsection \<open>New fragments take fresh row ids\<close>

lemma length_encode_range: "length (encode_sequence (range_seq start count)) < 2 ^ 63"
  using length_put_bytes_field [of 1 "segment_range start (start + count)"] length_segment_range [of start "start + count"]
  by (simp add: encode_sequence_def range_seq_def)

lemma length_encode_versions: "length (encode_versions runs) \<le> 140 * length runs"
proof -
  have run: "length (put_bytes_field 1 (encode_run at run)) \<le> 140" for at run
    using length_put_bytes_field [of 1 "encode_run at run"]
      length_put_bytes_field [of 1 "segment_range at (at + run_length run)"]
      length_segment_range [of at "at + run_length run"] length_put_u64_field [of 2 "run_version run"]
    by (simp add: encode_run_def)
  have "length (encode_versions_from at runs) \<le> 140 * length runs" for at
    by (induction runs arbitrary: at) (auto intro: add_le_mono run)
  then show ?thesis by (simp add: encode_versions_def)
qed

lemma length_encode_uniform: "length (encode_versions (uniform rows version)) < 2 ^ 63"
  using length_encode_versions [of "uniform rows version"] by (simp add: uniform_def split: if_splits)

lemma row_ids_of_written:
  assumes "length (rm_row_ids meta) < 2 ^ 64" "length (rm_last_updated meta) < 2 ^ 64" "length (rm_created meta) < 2 ^ 64"
  shows "row_ids_of (write_fragment_row_meta f meta) =
    (if rm_has_row_ids meta
     then (case decode_sequence (rm_row_ids meta) of Inl _ \<Rightarrow> None | Inr ids \<Rightarrow> Some (to_vector ids)) else None)"
  using write_read_row_meta [OF assms, of f] by (simp add: row_ids_of_def meta_view_def)

text \<open>The versions stamped on a fragment do not touch its row ids.\<close>

lemma stamp_versions_keep:
  assumes "stamp_versions rows v (meta, c) = (meta', c')"
  shows "rm_has_row_ids meta' = rm_has_row_ids meta" "rm_row_ids meta' = rm_row_ids meta"
    "rm_external meta' = rm_external meta" "c \<Longrightarrow> c'" "\<not> c' \<Longrightarrow> meta' = meta"
    "length (rm_last_updated meta) < 2 ^ 64 \<Longrightarrow> length (rm_last_updated meta') < 2 ^ 64"
    "length (rm_created meta) < 2 ^ 64 \<Longrightarrow> length (rm_created meta') < 2 ^ 64"
  using assms length_encode_uniform [of rows v]
  by (auto simp: stamp_versions_def stamp_last_updated_def stamp_created_def split: if_splits)

lemma stamp_fragmentE:
  assumes "stamp_fragment v f n = Inr (g, n')"
  obtains meta m c m' c' where "read_fragment_row_meta f = Inr meta" "stamp_row_ids (fr_rows f) n meta = Inr (m, n', c)"
    "stamp_versions (fr_rows f) v (m, c) = (m', c')" "g = (if c' then write_fragment_row_meta f m' else f)"
proof -
  from assms obtain meta m k c where *: "read_fragment_row_meta f = Inr meta" "stamp_row_ids (fr_rows f) n meta = Inr (m, k, c)"
    by (auto simp: stamp_fragment_def sbind_eq_Inr)
  obtain m' c' where "stamp_versions (fr_rows f) v (m, c) = (m', c')" by (meson surj_pair)
  with assms * show ?thesis by (intro that [of meta m c m' c']) (auto simp: stamp_fragment_def)
qed

lemma stamp_fragment_same:
  assumes "stamp_fragment v f n = Inr (g, n')"
  shows "fr_id g = fr_id f \<and> fr_rows g = fr_rows f \<and> fr_files g = fr_files f \<and> fr_deletion g = fr_deletion f"
  using assms by (rule stamp_fragmentE) simp

lemma stamp_fragment_fresh:
  assumes "stamp_fragment v f n = Inr (g, n')" and "unnumbered f"
    and "unat n + unat (fr_rows f) < 2 ^ 64" and "fr_rows f \<le> 2 ^ 40"
  shows "n' = n + fr_rows f \<and> row_ids_of g = Some (u64_range n (n + fr_rows f))"
  using assms(1)
proof (rule stamp_fragmentE)
  fix meta m c m' c'
  assume meta: "read_fragment_row_meta f = Inr meta" and row_ids: "stamp_row_ids (fr_rows f) n meta = Inr (m, n', c)"
    and versions: "stamp_versions (fr_rows f) v (m, c) = (m', c')" and g: "g = (if c' then write_fragment_row_meta f m' else f)"
  from assms(2) meta row_ids have m: "m = meta\<lparr>rm_has_row_ids := True, rm_row_ids := encode_sequence (range_seq n (fr_rows f))\<rparr>"
    "n' = n + fr_rows f" "c" by (auto simp: unnumbered_def stamp_row_ids_def)
  note keep = stamp_versions_keep [OF versions]
  have short: "length (rm_row_ids m') < 2 ^ 64" "length (rm_last_updated m') < 2 ^ 64" "length (rm_created m') < 2 ^ 64"
    using read_meta_short [OF meta] keep(2,6,7) length_encode_range [of n "fr_rows f"] m(1) by auto
  have le: "n \<le> n + fr_rows f" using unat_plus_u64 [OF assms(3)] by (simp add: word_le_nat_alt)
  have "length (u64_range n (n + fr_rows f)) < 2 ^ 64"
    unfolding length_u64_range [OF le] using unat_u64 [of "n + fr_rows f - n"] by simp
  then have "row_ids_of (write_fragment_row_meta f m') = Some (u64_range n (n + fr_rows f))"
    unfolding row_ids_of_written [OF short] using keep(1,2) m(1) decode_encode_range [OF assms(3,4)] by auto
  with g m keep(4) show ?thesis by simp
qed

lemma stamp_fragment_carried:
  assumes "stamp_fragment v f n = Inr (g, n')" and "\<not> unnumbered f"
    and "\<And>ids. row_ids_of f = Some ids \<Longrightarrow> length ids < 2 ^ 64 \<and> - 1 \<notin> set ids"
  shows "row_ids_of g = row_ids_of f \<and>
    n' = (case row_ids_of f of None \<Rightarrow> n | Some ids \<Rightarrow> if ids = [] then n else max n (Max (set ids) + 1))"
  using assms(1)
proof (rule stamp_fragmentE)
  fix meta m c m' c'
  assume meta: "read_fragment_row_meta f = Inr meta" and row_ids: "stamp_row_ids (fr_rows f) n meta = Inr (m, n', c)"
    and versions: "stamp_versions (fr_rows f) v (m, c) = (m', c')" and g: "g = (if c' then write_fragment_row_meta f m' else f)"
  note keep = stamp_versions_keep [OF versions]
  from assms(2) meta have num: "rm_has_row_ids meta \<or> rm_external meta" by (simp add: unnumbered_def)
  with row_ids have m: "m = meta" by (auto simp: stamp_row_ids_def sbind_eq_Inr split: if_splits)
  have short: "length (rm_row_ids m') < 2 ^ 64" "length (rm_last_updated m') < 2 ^ 64" "length (rm_created m') < 2 ^ 64"
    using read_meta_short [OF meta] keep(2,6,7) m by auto
  have ids: "row_ids_of g = row_ids_of f"
    using g row_ids_of_written [OF short, of f] keep(1,2) meta m by (simp add: row_ids_of_def)
  show ?thesis
  proof (cases "rm_has_row_ids meta")
    case True
    with row_ids obtain s where s: "decode_sequence (rm_row_ids meta) = Inr s"
      "n' = (case max_id s of None \<Rightarrow> n | Some largest \<Rightarrow> max n (largest + 1))"
      by (auto simp: stamp_row_ids_def sbind_eq_Inr)
    then have "row_ids_of f = Some (to_vector s)" using True meta by (simp add: row_ids_of_def)
    with assms(3) max_id_top [of s] s(2) ids show ?thesis by simp
  next
    case False
    then have "row_ids_of f = None" using meta by (simp add: row_ids_of_def)
    with row_ids False num ids show ?thesis by (simp add: stamp_row_ids_def)
  qed
qed

lemma range_ids:
  fixes n :: u64
  assumes "unat n + unat rows < 2 ^ 64"
  shows "sorted_wrt (<) (u64_range n (n + rows))" "length (u64_range n (n + rows)) = unat rows"
    "i \<in> set (u64_range n (n + rows)) \<longleftrightarrow> n \<le> i \<and> i < n + rows"
proof -
  have le: "n \<le> n + rows" using unat_plus_u64 [OF assms] by (simp add: word_le_nat_alt)
  show "sorted_wrt (<) (u64_range n (n + rows))" by simp
  show "length (u64_range n (n + rows)) = unat rows" using length_u64_range [OF le] by simp
  show "i \<in> set (u64_range n (n + rows)) \<longleftrightarrow> n \<le> i \<and> i < n + rows" by (rule set_u64_range [OF le])
qed

text \<open>A fragment and what it is after stamping from a high-water mark: the same but for its row
  metadata, with as many row ids at or above the mark as it has rows if it came without.\<close>

definition stamped :: "u64 \<Rightarrow> data_fragment \<Rightarrow> data_fragment \<Rightarrow> bool" where
  "stamped mark f g \<longleftrightarrow>
     fr_id g = fr_id f \<and> fr_rows g = fr_rows f \<and> fr_files g = fr_files f \<and> fr_deletion g = fr_deletion f \<and>
     (if unnumbered f
      then length (the (row_ids_of g)) = unat (fr_rows f) \<and> row_ids_of g \<noteq> None \<and> (\<forall>i \<in> set (the (row_ids_of g)). mark \<le> i)
      else row_ids_of g = row_ids_of f)"

definition fresh_ids :: "data_fragment list \<Rightarrow> data_fragment list \<Rightarrow> u64 list" where
  "fresh_ids fragments out = concat (map (\<lambda>(f, g). the (row_ids_of g)) (filter (\<lambda>(f, g). unnumbered f) (zip fragments out)))"

lemma stamped_mono: "list_all2 (stamped n) fs gs \<Longrightarrow> m \<le> n \<Longrightarrow> list_all2 (stamped m) fs gs"
  by (erule list_all2_mono) (auto simp: stamped_def intro: order_trans)

lemma fresh_ids_above: "list_all2 (stamped n) fs gs \<Longrightarrow> i \<in> set (fresh_ids fs gs) \<Longrightarrow> n \<le> i"
  by (induction rule: list_all2_induct) (auto simp: fresh_ids_def stamped_def split: if_splits)

lemma stamp_step:
  assumes "stamp_fragment v f n = Inr (g, n')"
    and "\<And>ids. row_ids_of f = Some ids \<Longrightarrow> length ids < 2 ^ 64 \<and> (\<forall>i \<in> set ids. unat i < bound)"
    and "fr_rows f \<le> 2 ^ 40" and "max (unat n) bound + (if unnumbered f then unat (fr_rows f) else 0) < 2 ^ 64"
  shows "n \<le> n'" "stamped n f g" "\<forall>i \<in> set (the (row_ids_of g)). row_ids_of g \<noteq> None \<longrightarrow> i < n'"
    "unnumbered f \<Longrightarrow> sorted_wrt (<) (the (row_ids_of g))"
    "max (unat n') bound \<le> max (unat n) bound + (if unnumbered f then unat (fr_rows f) else 0)"
proof -
  have "n \<le> n' \<and> stamped n f g \<and> (\<forall>i \<in> set (the (row_ids_of g)). row_ids_of g \<noteq> None \<longrightarrow> i < n') \<and>
    (unnumbered f \<longrightarrow> sorted_wrt (<) (the (row_ids_of g))) \<and>
    max (unat n') bound \<le> max (unat n) bound + (if unnumbered f then unat (fr_rows f) else 0)"
  proof (cases "unnumbered f")
    case True
    with assms(4) have small: "unat n + unat (fr_rows f) < 2 ^ 64" by simp
    note r = stamp_fragment_fresh [OF assms(1) True small assms(3)] and ids = range_ids [OF small]
    from r True stamp_fragment_same [OF assms(1)] unat_plus_u64 [OF small] show ?thesis
      by (auto simp: stamped_def ids word_le_nat_alt)
  next
    case False
    have carried: "length ids < 2 ^ 64 \<and> - 1 \<notin> set ids" if "row_ids_of f = Some ids" for ids
      using assms(2) [OF that] assms(4) by (auto simp: unsigned_minus_1_eq_mask mask_eq_exp_minus_1)
    note r = stamp_fragment_carried [OF assms(1) False carried]
    show ?thesis
    proof (cases "row_ids_of f = None \<or> row_ids_of f = Some []")
      case True
      with r False stamp_fragment_same [OF assms(1)] show ?thesis by (auto simp: stamped_def)
    next
      case nonempty: False
      then obtain ids where ids: "row_ids_of f = Some ids" "ids \<noteq> []" by auto
      then have top: "unat (Max (set ids)) < bound" using assms(2) by simp
      with assms(4) have up: "unat (Max (set ids) + 1) = unat (Max (set ids)) + 1"
        by (subst unat_plus_1) (auto simp: word_less_nat_alt unsigned_minus_1_eq_mask mask_eq_exp_minus_1)
      have n': "n' = max n (Max (set ids) + 1)" using r ids by simp
      moreover have "i < n'" if "i \<in> set ids" for i
      proof -
        have "i \<le> Max (set ids)" using that by simp
        then show ?thesis unfolding n' using up by (simp add: word_less_nat_alt word_le_nat_alt max_def)
      qed
      moreover have "max (unat n') bound \<le> max (unat n) bound"
        using top up by (auto simp: n' max_def word_le_nat_alt)
      ultimately show ?thesis
        using r ids False stamp_fragment_same [OF assms(1)] by (auto simp: stamped_def)
    qed
  qed
  then show "n \<le> n'" "stamped n f g" "\<forall>i \<in> set (the (row_ids_of g)). row_ids_of g \<noteq> None \<longrightarrow> i < n'"
    "unnumbered f \<Longrightarrow> sorted_wrt (<) (the (row_ids_of g))"
    "max (unat n') bound \<le> max (unat n) bound + (if unnumbered f then unat (fr_rows f) else 0)" by auto
qed

lemma stamp_all:
  assumes "stamp_missing_row_meta fragments mark version = Inr (out, mark')"
    and "\<And>f ids. f \<in> set fragments \<Longrightarrow> row_ids_of f = Some ids \<Longrightarrow> length ids < 2 ^ 64 \<and> (\<forall>i \<in> set ids. unat i < bound)"
    and "\<And>f. f \<in> set fragments \<Longrightarrow> fr_rows f \<le> 2 ^ 40"
    and "max (unat mark) bound + sum_list (map (\<lambda>f. unat (fr_rows f)) (filter unnumbered fragments)) < 2 ^ 64"
  shows "mark \<le> mark' \<and> list_all2 (stamped mark) fragments out \<and>
    sorted_wrt (<) (fresh_ids fragments out) \<and>
    (\<forall>g \<in> set out. \<forall>ids. row_ids_of g = Some ids \<longrightarrow> (\<forall>i \<in> set ids. i < mark'))"
  using assms
proof (induction fragments arbitrary: mark out)
  case Nil
  then show ?case by (simp add: fresh_ids_def)
next
  case (Cons f fs)
  from Cons.prems(1) obtain g n gs where step: "stamp_fragment version f mark = Inr (g, n)"
    and rest: "stamp_missing_row_meta fs n version = Inr (gs, mark')" and out: "out = g # gs"
    by (auto simp: sbind_eq_Inr)
  have "max (unat mark) bound + (if unnumbered f then unat (fr_rows f) else 0) < 2 ^ 64"
    using Cons.prems(4) by (auto split: if_splits)
  note s = stamp_step [OF step Cons.prems(2) [of f] Cons.prems(3) [of f] this, simplified]
  have room: "max (unat n) bound + sum_list (map (\<lambda>f. unat (fr_rows f)) (filter unnumbered fs)) < 2 ^ 64"
    using s(5) Cons.prems(4) by (auto split: if_splits)
  have ih: "n \<le> mark'" "list_all2 (stamped n) fs gs" "sorted_wrt (<) (fresh_ids fs gs)"
    "\<And>h ids. h \<in> set gs \<Longrightarrow> row_ids_of h = Some ids \<Longrightarrow> \<forall>i \<in> set ids. i < mark'"
    using Cons.IH [OF rest _ _ room] Cons.prems(2,3) by auto
  have own: "i < n" if "row_ids_of g = Some ids" "i \<in> set ids" for ids i
    using s(3) that by auto
  have "sorted_wrt (<) (fresh_ids (f # fs) (g # gs))"
  proof (cases "unnumbered f")
    case True
    with s(2) obtain ids where ids: "row_ids_of g = Some ids" by (auto simp: stamped_def)
    have "sorted_wrt (<) (ids @ fresh_ids fs gs)"
      using s(4) [OF True] ids ih(3) own [OF ids] fresh_ids_above [OF ih(2)]
      by (auto simp: sorted_wrt_append intro: less_le_trans)
    with True ids show ?thesis by (simp add: fresh_ids_def)
  next
    case False
    with ih(3) show ?thesis by (simp add: fresh_ids_def)
  qed
  moreover have "list_all2 (stamped mark) fs gs" using stamped_mono [OF ih(2) s(1)] .
  moreover have "i < mark'" if "row_ids_of g = Some ids" "i \<in> set ids" for ids i
    using own [OF that] ih(1) by (rule less_le_trans)
  ultimately show ?case
    using s(1,2) ih unfolding out by (auto intro: order_trans)
qed

text \<open>C11: stamping the fragments a commit adds to a dataset with stable row ids
  keeps the fragments but for their row metadata and the ids of those that carry their own; the
  others get as many ids as they have rows, none below the high-water mark and all in ascending
  order from one fragment to the next, so none is given twice; the mark after it is above every id of
  every fragment. The mark must not run past 64 bits: with the bound the carried ids are below,
  the rows to number still fit.\<close>

theorem fresh_row_ids:
  assumes "stamp_missing_row_meta fragments mark version = Inr (out, mark')"
    and "\<And>f ids. f \<in> set fragments \<Longrightarrow> row_ids_of f = Some ids \<Longrightarrow> length ids < 2 ^ 64 \<and> (\<forall>i \<in> set ids. unat i < bound)"
    and "\<And>f. f \<in> set fragments \<Longrightarrow> fr_rows f \<le> 2 ^ 40"
    and "max (unat mark) bound + sum_list (map (\<lambda>f. unat (fr_rows f)) (filter unnumbered fragments)) < 2 ^ 64"
  shows "mark \<le> mark' \<and> list_all2 (stamped mark) fragments out \<and>
    sorted_wrt (<) (fresh_ids fragments out) \<and>
    (\<forall>g \<in> set out. \<forall>ids. row_ids_of g = Some ids \<longrightarrow> (\<forall>i \<in> set ids. i < mark'))"
  by (rule stamp_all [OF assms])

definition example_added :: "data_fragment list" where
  "example_added = [new_fragment\<lparr>fr_id := 4, fr_rows := 3\<rparr>, new_fragment\<lparr>fr_id := 5, fr_rows := 2\<rparr>]"

theorem fresh_row_ids_witness:
  "let (out, mark') = projr (stamp_missing_row_meta example_added 10 7) in
   10 \<le> mark' \<and> list_all2 (stamped 10) example_added out \<and> sorted_wrt (<) (fresh_ids example_added out)"
proof -
  let ?r = "projr (stamp_missing_row_meta example_added 10 7)"
  have bare: "read_fragment_row_meta (new_fragment\<lparr>fr_id := i, fr_rows := n\<rparr>) = Inr no_row_meta" for i n
    by (simp add: read_fragment_row_meta_def new_fragment_def pr.fields_Nil)
  have r: "stamp_missing_row_meta example_added 10 7 = Inr (fst ?r, snd ?r)"
    using Inr_projr [of "stamp_missing_row_meta example_added 10 7"]
    by (simp add: example_added_def stamp_fragment_def bare stamp_row_ids_def no_row_meta_def split_beta Let_def)
  have none: "row_ids_of f = None" "fr_rows f \<le> 2 ^ 40" if "f \<in> set example_added" for f
    using that by (auto simp: example_added_def row_ids_of_def bare no_row_meta_def)
  have "map (\<lambda>f. fr_rows f) (filter unnumbered example_added) = [3, 2]"
    by (simp add: example_added_def unnumbered_def bare no_row_meta_def)
  from arg_cong [OF this, of "map unat"]
  have room: "max (unat (10 :: u64)) 0 + sum_list (map (\<lambda>f. unat (fr_rows f)) (filter unnumbered example_added)) < 2 ^ 64"
    by (simp add: comp_def)
  from fresh_row_ids [OF r _ none(2) room] none(1) show ?thesis by (auto simp: split_beta)
qed

subsection \<open>Rows updated in place\<close>

text \<open>The version each row of a fragment was last updated at, 1 where the fragment does not say.\<close>

definition row_versions :: "data_fragment \<Rightarrow> u64 list option" where
  "row_versions f =
     (case read_fragment_row_meta f of
        Inl _ \<Rightarrow> None
      | Inr meta \<Rightarrow> if rm_external meta then None
          else (case last_versions (fr_rows f) meta of Inl _ \<Rightarrow> None | Inr versions \<Rightarrow> Some versions))"

lemma length_resized [simp]: "length (resized xs n v) = n"
  by (simp add: resized_def)

lemma length_row_versions: "row_versions f = Some vs \<Longrightarrow> length vs = unat (fr_rows f)"
  by (auto simp: row_versions_def last_versions_def sbind_def split: sum.splits if_splits)

lemma set_versions_nth:
  "length (set_versions vs offsets v) = length vs"
  "i < length vs \<Longrightarrow> set_versions vs offsets v ! i = (if i \<in> unat ` set offsets then v else vs ! i)"
proof -
  have "length (set_versions vs offsets v) = length vs \<and>
    (\<forall>i < length vs. set_versions vs offsets v ! i = (if i \<in> unat ` set offsets then v else vs ! i))"
    by (induction offsets rule: rev_induct) (auto simp: set_versions_def nth_list_update)
  then show "length (set_versions vs offsets v) = length vs"
    "i < length vs \<Longrightarrow> set_versions vs offsets v ! i = (if i \<in> unat ` set offsets then v else vs ! i)" by auto
qed

lemma push_version_length: "length (push_version runs v) \<le> Suc (length runs)"
  by (simp add: push_version_def)

lemma versions_from_values_length: "length (versions_from_values vs) \<le> length vs"
  by (induction vs rule: rev_induct)
    (auto simp: versions_from_values_def intro: order_trans [OF push_version_length])

lemma stamp_updated_versions:
  assumes "stamp_updated_fragment limits bitmap v f = Inr g" and "row_versions f = Some old"
    and "parse_roaring_bitmap limits bitmap (fr_rows f) = Inr offsets" and "fr_rows f \<le> 2 ^ 40"
  shows "row_versions g = Some (map (\<lambda>i. if i \<in> unat ` set offsets then v else old ! i) [0..<unat (fr_rows f)]) \<and>
    row_ids_of g = row_ids_of f \<and>
    fr_id g = fr_id f \<and> fr_rows g = fr_rows f \<and> fr_files g = fr_files f \<and> fr_deletion g = fr_deletion f"
proof -
  from assms(2) obtain meta where meta: "read_fragment_row_meta f = Inr meta" "\<not> rm_external meta"
    "last_versions (fr_rows f) meta = Inr old"
    by (auto simp: row_versions_def split: sum.splits if_splits)
  have rows: "unat (fr_rows f) \<le> 2 ^ 40" using assms(4) by (simp add: word_le_nat_alt)
  show ?thesis
  proof (cases "offsets = []")
    case True
    with assms(1,3) meta have "g = f" by (simp add: stamp_updated_fragment_def)
    with True assms(2) length_row_versions [OF assms(2)] map_nth [of old] show ?thesis by simp
  next
    case False
    let ?vs = "set_versions old offsets v"
    let ?meta = "meta\<lparr>rm_has_last_updated := True, rm_last_updated := encode_versions (versions_from_values ?vs)\<rparr>"
    from assms(1,3) meta False have g: "g = write_fragment_row_meta f ?meta"
      by (simp add: stamp_updated_fragment_def)
    have len: "length ?vs = unat (fr_rows f)" using length_row_versions [OF assms(2)] by (simp add: set_versions_nth)
    have "length (rm_last_updated ?meta) \<le> 140 * 2 ^ 40"
      using length_encode_versions [of "versions_from_values ?vs"] versions_from_values_length [of ?vs] len rows by simp
    then have short: "length (rm_row_ids ?meta) < 2 ^ 64" "length (rm_last_updated ?meta) < 2 ^ 64" "length (rm_created ?meta) < 2 ^ 64"
      using read_meta_short [OF meta(1)] by simp_all
    have "decode_versions (encode_versions (versions_from_values ?vs)) = Inr (versions_from_values ?vs)"
      "versions_to_vector (versions_from_values ?vs) = ?vs"
      using len rows by (simp_all add: decode_encode_version_vector versions_vector_from_values)
    then have "row_versions g = Some ?vs"
      using write_read_row_meta [OF short, of f] len g
      by (simp add: row_versions_def meta_view_def last_versions_def resized_def)
    moreover have "?vs = map (\<lambda>i. if i \<in> unat ` set offsets then v else old ! i) [0..<unat (fr_rows f)]"
      using len set_versions_nth by (intro nth_equalityI) simp_all
    moreover have "row_ids_of g = row_ids_of f"
      unfolding g row_ids_of_written [OF short] using meta by (simp add: row_ids_of_def)
    ultimately show ?thesis using g by simp
  qed
qed

text \<open>A fragment after the rows an update names in it, if it names any, are stamped.\<close>

definition rows_stamped :: "read_limits \<Rightarrow> (u64 \<rightharpoonup> byte list) \<Rightarrow> u64 \<Rightarrow> data_fragment \<Rightarrow> data_fragment \<Rightarrow> bool" where
  "rows_stamped limits named v f g \<longleftrightarrow>
     fr_id g = fr_id f \<and> fr_rows g = fr_rows f \<and> fr_files g = fr_files f \<and> fr_deletion g = fr_deletion f \<and>
     row_ids_of g = row_ids_of f \<and>
     (case named (fr_id f) of
        None \<Rightarrow> g = f
      | Some bitmap \<Rightarrow>
          row_versions g =
            Some (map (\<lambda>i. if i \<in> unat ` set (projr (parse_roaring_bitmap limits bitmap (fr_rows f)))
                           then v else the (row_versions f) ! i) [0..<unat (fr_rows f)]))"

lemma update_first_by_id:
  assumes "update_first (\<lambda>f. fr_id f = i) step fs = Inr (Some gs)" and "distinct (map fr_id fs)"
    and "\<And>f g. step f = Inr g \<Longrightarrow> f \<in> set fs \<Longrightarrow> fr_id f = i \<Longrightarrow> P f g" and "\<And>f. fr_id f \<noteq> i \<Longrightarrow> P f f"
  shows "list_all2 P fs gs"
  using assms(1)
proof (rule update_first_SomeE)
  fix as x bs y
  assume *: "fs = as @ x # bs" "fr_id x = i" "step x = Inr y" "gs = as @ y # bs"
  with assms(2) have other: "\<And>f. f \<in> set as \<union> set bs \<Longrightarrow> fr_id f \<noteq> i" by (auto simp: image_iff)
  then have "list_all2 P as as" "list_all2 P bs bs" using assms(4) by (auto intro: list.rel_refl_strong)
  moreover have "P x y" using assms(3) * by simp
  ultimately show ?thesis using * by (simp add: list_all2_appendI)
qed

lemma stamp_updated_rows_step:
  assumes "sbind (update_first (\<lambda>f. fr_id f = i) (stamp_updated_fragment limits bitmap v) fs)
      (\<lambda>r. Inr (case r of None \<Rightarrow> fs | Some fs \<Rightarrow> fs)) = Inr gs" and "distinct (map fr_id fs)"
    and "\<forall>f \<in> set fs. fr_rows f \<le> 2 ^ 40 \<and> row_versions f \<noteq> None"
  shows "list_all2 (rows_stamped limits [i \<mapsto> bitmap] v) fs gs"
proof -
  have keep: "rows_stamped limits [i \<mapsto> bitmap] v f f" if "fr_id f \<noteq> i" for f
    using that by (simp add: rows_stamped_def)
  from assms(1) obtain r where r: "update_first (\<lambda>f. fr_id f = i) (stamp_updated_fragment limits bitmap v) fs = Inr r"
    "gs = (case r of None \<Rightarrow> fs | Some fs \<Rightarrow> fs)"
    unfolding sbind_eq_Inr by blast
  show ?thesis
  proof (cases r)
    case None
    with r have "\<forall>f \<in> set fs. fr_id f \<noteq> i" by (simp add: update_first_None)
    with keep have "list_all2 (rows_stamped limits [i \<mapsto> bitmap] v) fs fs" by (intro list.rel_refl_strong) simp
    with r None show ?thesis by simp
  next
    case (Some gs')
    with r have "update_first (\<lambda>f. fr_id f = i) (stamp_updated_fragment limits bitmap v) fs = Inr (Some gs)" by simp
    then show ?thesis using assms(2)
    proof (rule update_first_by_id)
      fix f g
      assume step: "stamp_updated_fragment limits bitmap v f = Inr g" and f: "f \<in> set fs" "fr_id f = i"
      from step obtain offsets where "parse_roaring_bitmap limits bitmap (fr_rows f) = Inr offsets"
        by (auto simp: stamp_updated_fragment_def sbind_eq_Inr)
      moreover obtain old where "row_versions f = Some old" using assms(3) f by auto
      ultimately show "rows_stamped limits [i \<mapsto> bitmap] v f g"
        using stamp_updated_versions [OF step] assms(3) f by (auto simp: rows_stamped_def)
    qed (rule keep)
  qed
qed

text \<open>C12: an update that rewrites columns in place stamps, in each fragment it
  names, exactly the rows its bitmap holds as last updated at the new version; the other rows keep
  their version, the fragments it does not name stay as they are, and no row id changes.\<close>

theorem updated_rows_stamped:
  assumes "stamp_updated_rows limits fragments op version = Inr out"
    and "distinct (map fr_id fragments)" and "distinct (map fst (op_updated_fragment_offsets op))"
    and "\<forall>f \<in> set fragments. fr_rows f \<le> 2 ^ 40 \<and> row_versions f \<noteq> None"
  shows "list_all2 (rows_stamped limits (map_of (op_updated_fragment_offsets op)) version) fragments out"
proof -
  let ?step = "\<lambda>fragments (fragment_id, bitmap).
      sbind (update_first (\<lambda>f. fr_id f = fragment_id) (stamp_updated_fragment limits bitmap version) fragments)
        (\<lambda>r. Inr (case r of None \<Rightarrow> fragments | Some fragments \<Rightarrow> fragments))"
  have "list_all2 (rows_stamped limits (map_of named) version) fs out"
    if "sfold ?step fs named = Inr out" "distinct (map fst named)" "distinct (map fr_id fs)"
      "\<forall>f \<in> set fs. fr_rows f \<le> 2 ^ 40 \<and> row_versions f \<noteq> None" for fs named
    using that
  proof (induction named arbitrary: fs)
    case Nil
    then show ?case by (simp add: rows_stamped_def list.rel_refl)
  next
    case (Cons nb named)
    obtain i bitmap where nb: "nb = (i, bitmap)" by (cases nb)
    from Cons.prems(1) nb obtain gs where step: "?step fs (i, bitmap) = Inr gs" and rest: "sfold ?step gs named = Inr out"
      by (auto simp: sbind_eq_Inr)
    have one: "list_all2 (rows_stamped limits [i \<mapsto> bitmap] version) fs gs"
      using stamp_updated_rows_step [OF step [simplified] Cons.prems(3,4)] .
    have "map fr_id gs = map fr_id fs" using one by (induction rule: list_all2_induct) (simp_all add: rows_stamped_def)
    moreover have "\<forall>g \<in> set gs. fr_rows g \<le> 2 ^ 40 \<and> row_versions g \<noteq> None"
      using one Cons.prems(4)
      by (induction rule: list_all2_induct) (auto simp: rows_stamped_def split: option.splits if_splits)
    ultimately have ih: "list_all2 (rows_stamped limits (map_of named) version) gs out"
      using Cons.IH [OF rest] Cons.prems(2,3) by simp
    have new: "map_of named i = None" using Cons.prems(2) nb by (simp add: map_of_eq_None_iff)
    show ?case
      using one ih
    proof (rule list_all2_trans [rotated 1])
      fix f g h
      assume "rows_stamped limits [i \<mapsto> bitmap] version f g" "rows_stamped limits (map_of named) version g h"
      then show "rows_stamped limits (map_of (nb # named)) version f h"
        using new by (cases "fr_id f = i") (auto simp: rows_stamped_def nb)
    qed
  qed
  with assms show ?thesis unfolding stamp_updated_rows_def by blast
qed

theorem updated_rows_stamped_witness:
  "list_all2 (rows_stamped initial_read_limits (map_of [(4, encode [1])]) 7) example_added
     (projr (stamp_updated_rows initial_read_limits example_added
        ((new_operation Update)\<lparr>op_updated_fragment_offsets := [(4, encode [1])]\<rparr>) 7))"
proof -
  let ?op = "(new_operation Update)\<lparr>op_updated_fragment_offsets := [(4, encode [1])]\<rparr>"
  have bare: "read_fragment_row_meta (new_fragment\<lparr>fr_id := i, fr_rows := n\<rparr>) = Inr no_row_meta" for i n
    by (simp add: read_fragment_row_meta_def new_fragment_def pr.fields_Nil)
  have named: "op_updated_fragment_offsets ?op = [(4, encode [1])]" by simp
  have parse: "parse_roaring_bitmap initial_read_limits (encode [1]) 3 = Inr [1]" by code_simp
  have "stamp_updated_rows initial_read_limits example_added ?op 7 =
      Inr (projr (stamp_updated_rows initial_read_limits example_added ?op 7))"
    by (rule Inr_projr)
      (simp add: stamp_updated_rows_def example_added_def stamp_updated_fragment_def parse bare no_row_meta_def last_versions_def)
  then show ?thesis
    by (rule updated_rows_stamped [where op = ?op, unfolded named])
      (auto simp: example_added_def row_versions_def bare no_row_meta_def last_versions_def)
qed

subsection \<open>Fragment ids are new\<close>

lemma foldl_max_ge: "(n :: 'b :: linorder) \<le> foldl (\<lambda>n f. max n (g f)) n fs"
proof (induction fs arbitrary: n)
  case (Cons f fs)
  from Cons [of "max n (g f)"] show ?case by simp
qed simp

lemma foldl_max_mem: "f \<in> set fs \<Longrightarrow> (g f :: 'b :: linorder) \<le> foldl (\<lambda>n f. max n (g f)) n fs"
proof (induction fs arbitrary: n)
  case (Cons h fs)
  have "g f \<le> foldl (\<lambda>n f. max n (g f)) (max n (g f)) fs"
    using foldl_max_ge [of "max n (g f)" g fs] by simp
  with Cons show ?case by auto
qed simp

lemma next_fragment_id_above:
  assumes "f \<in> set (m_fragments m)" and "fr_id f \<noteq> - 1"
  shows "fr_id f < next_fragment_id m"
proof -
  have "fr_id f < fr_id f + 1" using assms(2) by (simp add: word_less_nat_alt unat_plus_1 word_order.not_eq_extremum)
  also have "\<dots> \<le> foldl (\<lambda>nxt f. max nxt (fr_id f + 1))
      (if m_has_max_fragment_id m then ucast (m_max_fragment_id m) + 1 else 0) (m_fragments m)"
    by (rule foldl_max_mem [OF assms(1), of "\<lambda>f. fr_id f + 1"])
  also have "\<dots> \<le> next_fragment_id m" by (simp add: next_fragment_id_def)
  finally show ?thesis .
qed

lemma next_fragment_id_mark:
  assumes "m_has_max_fragment_id m"
  shows "ucast (m_max_fragment_id m) < next_fragment_id m"
proof -
  let ?n = "ucast (m_max_fragment_id m) :: u64"
  have "unat ?n < 2 ^ 32" using unat_u32 [of "m_max_fragment_id m"] by (simp add: unat_ucast_up)
  then have "?n < ?n + 1"
    by (subst word_less_nat_alt, subst unat_plus_1) (auto simp: word_less_nat_alt unsigned_minus_1_eq_mask mask_eq_exp_minus_1)
  also have "\<dots> \<le> foldl (\<lambda>nxt f. max nxt (fr_id f + 1)) (?n + 1) (m_fragments m)" by (rule foldl_max_ge)
  also have "\<dots> \<le> next_fragment_id m" using assms by (simp add: next_fragment_id_def)
  finally show ?thesis .
qed

text \<open>The ids handed out, in order, and what stays of a fragment that is given one.\<close>

lemma assign_ids_new:
  assumes "assign_ids fs n = (gs, n')" and "unat n + length fs < 2 ^ 64"
  shows "n \<le> n' \<and>
    list_all2 (\<lambda>f g. if fr_id f = 0 then g = f\<lparr>fr_id := fr_id g\<rparr> \<and> n \<le> fr_id g \<and> fr_id g < n' else g = f) fs gs \<and>
    sorted_wrt (<) (map (\<lambda>(f, g). fr_id g) (filter (\<lambda>(f, g). fr_id f = 0) (zip fs gs)))"
  using assms
proof (induction fs arbitrary: n gs)
  case (Cons f fs)
  show ?case
  proof (cases "fr_id f = 0")
    case True
    then obtain hs where hs: "assign_ids fs (n + 1) = (hs, n')" "gs = f\<lparr>fr_id := n\<rparr> # hs"
      using Cons.prems(1) by (cases "assign_ids fs (n + 1)") auto
    have n: "unat (n + 1) = unat n + 1"
      using Cons.prems(2) by (intro unat_plus_1) (auto simp: word_less_nat_alt unsigned_minus_1_eq_mask mask_eq_exp_minus_1)
    note ih = Cons.IH [OF hs(1)]
    have up: "n < n + 1" using n by (simp add: word_less_nat_alt)
    have all: "list_all2 (\<lambda>f g. if fr_id f = 0 then g = f\<lparr>fr_id := fr_id g\<rparr> \<and> n + 1 \<le> fr_id g \<and> fr_id g < n' else g = f) fs hs"
      using ih Cons.prems(2) n by simp
    have above: "\<forall>(f, g) \<in> set (zip fs hs). fr_id f = 0 \<longrightarrow> n < fr_id g"
      using all up by (fastforce simp: list_all2_iff intro: less_le_trans)
    have "list_all2 (\<lambda>f g. if fr_id f = 0 then g = f\<lparr>fr_id := fr_id g\<rparr> \<and> n \<le> fr_id g \<and> fr_id g < n' else g = f) fs hs"
      using all by (rule list_all2_mono) (use up in \<open>auto split: if_splits\<close>)
    with ih Cons.prems(2) n up above hs(2) True show ?thesis by (auto intro: less_le_trans)
  next
    case False
    then obtain hs where "assign_ids fs n = (hs, n')" "gs = f # hs"
      using Cons.prems(1) by (cases "assign_ids fs n") auto
    with Cons.IH [of n hs] Cons.prems(2) False show ?thesis by auto
  qed
qed simp

end
