(* ===== verification/Data_Replacement.thy ===== *)
theory Data_Replacement
  imports Transaction_Checks Transaction_Indices
begin

text \<open>
  Replacing data files (\<open>data_replacement\<close> in \<open>src/src/table/dataset_transaction.cpp\<close>): a file takes
  the place of the one with the same fields, fills columns no file of the fragment has, or answers for
  fields whose earlier copies become tombstones. Encoding a fragment message, which the code compares
  before and after, is a parameter.
\<close>

subsection \<open>The fields replaced\<close>

definition kTombstone :: int where "kTombstone = - 2"

text \<open>One pass over the schema: the children of a replaced field that are not listed yet.\<close>

definition new_children :: "pb_field list \<Rightarrow> u64 \<Rightarrow> u64 list \<Rightarrow> u64 list" where
  "new_children schema parent known =
     foldl (\<lambda>acc f. if pf_parent_id f \<ge> 0 \<and> of_int (pf_parent_id f) = parent \<and> of_int (pf_id f) \<notin> set (known @ acc)
                    then acc @ [of_int (pf_id f)] else acc) [] schema"

lemma new_children_props:
  "set (new_children schema parent known) \<inter> set known = {} \<and> distinct (new_children schema parent known) \<and>
   set (new_children schema parent known) \<subseteq> of_int ` pf_id ` set schema"
  unfolding new_children_def by (induction schema rule: rev_induct) auto

text \<open>The list grows while it is walked.\<close>

function close_fields :: "pb_field list \<Rightarrow> u64 list \<Rightarrow> u64 list \<Rightarrow> u64 list" where
  "close_fields schema visited [] = visited"
| "close_fields schema visited (parent # pending) =
     close_fields schema (visited @ [parent])
       (pending @ new_children schema parent (visited @ parent # pending))"
  by pat_completeness auto

termination
proof (relation "measures [\<lambda>(schema, visited, pending). card (of_int ` pf_id ` set schema - set (visited @ pending)),
    \<lambda>(schema, visited, pending). length pending]", goal_cases)
  case (2 schema visited parent pending)
  let ?ids = "of_int ` pf_id ` set schema :: u64 set"
  let ?new = "new_children schema parent (visited @ parent # pending)"
  have new: "set ?new \<inter> set (visited @ parent # pending) = {}" "set ?new \<subseteq> ?ids"
    using new_children_props [of schema parent "visited @ parent # pending"] by auto
  have grown: "set ((visited @ [parent]) @ pending @ ?new) = set (visited @ parent # pending) \<union> set ?new" by auto
  show ?case
  proof (cases "?new = []")
    case True
    then show ?thesis by simp
  next
    case False
    then obtain v where "v \<in> set ?new" by (metis hd_in_set)
    with new have "?ids - set ((visited @ [parent]) @ pending @ ?new) \<subset> ?ids - set (visited @ parent # pending)"
      unfolding grown by auto
    then have "card (?ids - set ((visited @ [parent]) @ pending @ ?new)) < card (?ids - set (visited @ parent # pending))"
      by (intro psubset_card_mono) auto
    then show ?thesis by (simp del: set_append)
  qed
qed simp

definition replaced_fields :: "pb_field list \<Rightarrow> (u64 \<times> data_file) list \<Rightarrow> u64 list" where
  "replaced_fields schema replacements =
     (case replacements of
        [] \<Rightarrow> []
      | (_, f) # _ \<Rightarrow> close_fields schema [] (map of_int (filter (\<lambda>i. i \<ge> 0) (df_fields f))))"

text \<open>\<open>std::set<std::int32_t>\<close> built from the 64-bit ids.\<close>

definition int32_of :: "u64 \<Rightarrow> int" where
  "int32_of v = sint (ucast v :: 32 word)"

subsection \<open>One fragment\<close>

definition same_columns :: "data_file \<Rightarrow> data_file \<Rightarrow> bool" where
  "same_columns new_file f =
     (df_fields f = df_fields new_file \<and> df_major f = df_major new_file \<and> df_minor f = df_minor new_file)"

definition replace_in_fragment :: "int set \<Rightarrow> int set \<Rightarrow> data_file \<Rightarrow> data_fragment \<Rightarrow> data_fragment" where
  "replace_in_fragment replacement_ids live new_file fragment =
     (let files = map (\<lambda>f. if same_columns new_file f
                           then f\<lparr>df_path := df_path new_file, df_size := df_size new_file\<rparr> else f) (fr_files fragment);
          in_place = list_ex (same_columns new_file) (fr_files fragment);
          covered = set (concat (map df_fields files))
      in fragment\<lparr>fr_files :=
        if replacement_ids \<inter> covered = {} then files @ [new_file]
        else if \<not> in_place \<and> replacement_ids \<subseteq> covered then
          filter (\<lambda>f. list_ex (\<lambda>i. i \<in> live) (df_fields f))
            (map (\<lambda>f. f\<lparr>df_fields := map (\<lambda>i. if i \<in> replacement_ids then kTombstone else i) (df_fields f)\<rparr>) files)
          @ [new_file]
        else files\<rparr>)"

definition replace_checked ::
  "(data_fragment \<Rightarrow> byte list) \<Rightarrow> int set \<Rightarrow> int set \<Rightarrow> data_file \<Rightarrow> data_fragment \<Rightarrow> data_fragment result" where
  "replace_checked encode_fragment replacement_ids live new_file fragment =
     (let fragment' = replace_in_fragment replacement_ids live new_file fragment in
      if encode_fragment fragment' = encode_fragment fragment then
        Inl (''Invalid user input: Expected to modify the fragment but no changes were made. This means the '' @
             ''new data files does not align with any exiting datafiles. Please check if the schema of the new '' @
             ''data files matches the schema of the old data files including the file major and minor versions'')
      else Inr fragment')"

subsection \<open>The operation\<close>

definition int_comma_list :: "int list \<Rightarrow> string" where
  "int_comma_list is = concat (map (\<lambda>(k, i). (if k = 0 then [] else '', '') @ int_string i) (enumerate 0 is))"

definition newline :: string where "newline = [CHR 0x0A]"

definition fields_info :: "(u64 \<times> data_file) list \<Rightarrow> string" where
  "fields_info replacements =
     concat (map (\<lambda>(k, (_, f)). ''File '' @ to_string k @ '': ['' @ int_comma_list (df_fields f) @ '']'' @ newline)
       (enumerate 0 replacements))"

definition data_replacement :: "(data_fragment \<Rightarrow> byte list) \<Rightarrow> manifest \<Rightarrow> operation \<Rightarrow> manifest result" where
  "data_replacement encode_fragment m op =
     (if card (set (map (df_fields \<circ> snd) (op_replacements op))) > 1 then
        Inl (''Invalid user input: All new data files must have the same fields, but found different fields:'' @ newline @
             fields_info (op_replacements op))
      else
        let replaced = replaced_fields (m_fields m) (op_replacements op);
            replacement_ids = set (map int32_of replaced);
            live = set (map pf_id (m_fields m))
        in sbind (sfold (\<lambda>fragments (frag_id, new_file).
               sbind (update_first (\<lambda>f. fr_id f = frag_id) (replace_checked encode_fragment replacement_ids live new_file) fragments)
                 (need ''Invalid user input: Fragment being replaced not found in existing fragments''))
             (m_fragments m) (op_replacements op)) (\<lambda>fragments.
           Inr (m\<lparr>m_fragments := fragments,
             m_indices := prune_updated_fields (m_indices m) (map fst (op_replacements op)) replaced\<rparr>)))"

end
