(* ===== verification/Dataset_Transaction.thy ===== *)
theory Dataset_Transaction
  imports Data_Replacement Row_Stamping Overlays Base_Paths
begin

text \<open>
  Building the next manifest of a dataset from an operation (\<open>apply_operation\<close> in
  \<open>src/src/table/dataset_transaction.cpp\<close>), one definition per kind of operation, and the step all
  of them end with. The message codecs of the generated protobuf code are parameters.
\<close>

subsection \<open>Shared parts\<close>

record codecs =
  decode_data_file_message :: "byte list \<Rightarrow> data_file option"
  encode_data_fragment :: "data_fragment \<Rightarrow> byte list"
  make_index_metadata :: "byte list \<Rightarrow> int list \<Rightarrow> string \<Rightarrow> u64 \<Rightarrow> u32 list \<Rightarrow> string \<Rightarrow> u32 \<Rightarrow> u64 \<Rightarrow>
    (string \<times> u64) list \<Rightarrow> byte list \<Rightarrow> index_metadata"

text \<open>New fragments, with row metadata when the dataset has stable row ids.\<close>

definition stamp_added :: "bool \<Rightarrow> u64 \<Rightarrow> data_fragment list \<Rightarrow> manifest \<Rightarrow> (data_fragment list \<times> manifest) result" where
  "stamp_added stable_ids new_version added m =
     (if stable_ids then
        sbind (stamp_missing_row_meta added (m_next_row_id m) new_version) (\<lambda>(added, next_row_id).
          Inr (added, m\<lparr>m_next_row_id := next_row_id\<rparr>))
      else Inr (added, m))"

text \<open>The fragments that are kept, each as its update has it.\<close>

definition replace_fragments :: "u64 list \<Rightarrow> (u64 \<rightharpoonup> data_fragment) \<Rightarrow> data_fragment list \<Rightarrow> data_fragment list" where
  "replace_fragments removed updated fragments =
     map (\<lambda>f. case updated (fr_id f) of None \<Rightarrow> f | Some g \<Rightarrow> g) (filter (\<lambda>f. fr_id f \<notin> set removed) fragments)"

definition retain_indices :: "manifest \<Rightarrow> manifest" where
  "retain_indices m = m\<lparr>m_indices := retain_relevant_indices (m_indices m) (m_fields m) (m_fragments m)\<rparr>"

subsection \<open>Data operations\<close>

definition apply_append :: "bool \<Rightarrow> u64 \<Rightarrow> u64 \<Rightarrow> operation \<Rightarrow> manifest \<Rightarrow> manifest result" where
  "apply_append stable_ids new_version next_id op m =
     sbind (stamp_added stable_ids new_version (fst (assign_ids (op_fragments op) next_id)) m) (\<lambda>(added, m).
       Inr (m\<lparr>m_fragments := m_fragments m @ added\<rparr>))"

definition apply_delete :: "operation \<Rightarrow> manifest \<Rightarrow> manifest" where
  "apply_delete op m = retain_indices (m\<lparr>m_fragments :=
     replace_fragments (op_removed_ids op) (last_by_id (op_updated_fragments op)) (m_fragments m)\<rparr>)"

definition first_by_id :: "data_fragment list \<Rightarrow> (u64 \<rightharpoonup> data_fragment)" where
  "first_by_id fragments = map_of (map (\<lambda>f. (fr_id f, f)) fragments)"

definition apply_update :: "read_limits \<Rightarrow> bool \<Rightarrow> u64 \<Rightarrow> u64 \<Rightarrow> operation \<Rightarrow> manifest \<Rightarrow> manifest result" where
  "apply_update limits stable_ids new_version next_id op m =
     (let kept = replace_fragments (op_removed_ids op) (first_by_id (op_updated_fragments op)) (m_fragments m) in
      sbind (if stable_ids \<and> op_rewrite_columns op then stamp_updated_rows limits kept op new_version else Inr kept) (\<lambda>kept.
      let m = m\<lparr>m_fragments := kept,
        m_indices := prune_updated_fields (m_indices m) (map fr_id (op_updated_fragments op)) (op_fields_modified op)\<rparr> in
      sbind (stamp_added stable_ids new_version (fst (assign_ids (op_fragments op) next_id)) m) (\<lambda>(added, m).
      Inr (retain_indices (m\<lparr>m_fragments := m_fragments m @ added\<rparr>)))))"

fun number_all :: "data_fragment list \<Rightarrow> u64 \<Rightarrow> data_fragment list" where
  "number_all [] next_id = []"
| "number_all (f # fs) next_id = f\<lparr>fr_id := next_id\<rparr> # number_all fs (next_id + 1)"

definition initial_bases :: "byte list list \<Rightarrow> base_path list result" where
  "initial_bases messages =
     sfold (\<lambda>bases message. sbind (decode_base_path message) (\<lambda>base.
       Inr (bases @ [base\<lparr>bp_id := of_nat (length bases + 1)\<rparr>]))) [] messages"

definition apply_overwrite :: "bool \<Rightarrow> u64 \<Rightarrow> u64 \<Rightarrow> operation \<Rightarrow> manifest \<Rightarrow> manifest result" where
  "apply_overwrite stable_ids new_version next_id op m =
     sbind (stamp_added stable_ids new_version (number_all (op_fragments op) next_id) m) (\<lambda>(added, m).
     let m = m\<lparr>m_fragments := added, m_indices := [], m_index_section_error := [],
       m_config := foldl (\<lambda>c (k, v). map_put k v c) (m_config m) (op_config_upserts op)\<rparr> in
     if op_initial_bases op \<noteq> [] then
       sbind (initial_bases (op_initial_bases op)) (\<lambda>bases. Inr (write_base_paths m bases))
     else Inr m)"

subsection \<open>Rewrite\<close>

fun assign_group_ids :: "rewrite_group list \<Rightarrow> u64 \<Rightarrow> rewrite_group list" where
  "assign_group_ids [] next_id = []"
| "assign_group_ids (g # gs) next_id =
     (let (fs, next_id) = assign_ids (rg_new g) next_id in g\<lparr>rg_new := fs\<rparr> # assign_group_ids gs next_id)"

definition rewrite_fragments :: "data_fragment list \<Rightarrow> rewrite_group \<Rightarrow> data_fragment list result" where
  "rewrite_fragments fragments g =
     (case filter (\<lambda>f. fr_id f \<notin> fr_id ` set fragments) (rg_old g) of
        f # _ \<Rightarrow> Inl (''commit conflict: dataset does not contain a fragment a rewrite operation wants to replace: id='' @
                      to_string (unat (fr_id f)))
      | [] \<Rightarrow> Inr (filter (\<lambda>f. fr_id f \<notin> fr_id ` set (rg_old g)) fragments @ rg_new g))"

definition rewrite_index :: "codecs \<Rightarrow> rewrite_group list \<Rightarrow> rewritten_index \<Rightarrow> index_metadata \<Rightarrow> index_metadata result" where
  "rewrite_index c groups ri ix =
     sbind (recalculate_bitmap (ix_fragment_ids ix) groups) (\<lambda>ids.
     Inr (make_index_metadata c (ri_new_id ri) (ix_fields ix) (ix_name ix) (ix_dataset_version ix) ids
       (if ri_details_type_url ri = [] then ix_details_type_url ix else ri_details_type_url ri)
       (ri_index_version ri) (ix_created_at ix) []
       (if ri_details_type_url ri = [] then ix_details_value ix else ri_details_value ri)))"

definition rewrite_index_step ::
  "codecs \<Rightarrow> rewrite_group list \<Rightarrow> byte list list \<times> index_metadata list \<Rightarrow> rewritten_index \<Rightarrow>
   (byte list list \<times> index_metadata list) result" where
  "rewrite_index_step c groups = (\<lambda>(seen, indices) ri.
     if ri_old_id ri \<in> set seen then
       Inl (''Invalid user input: An invalid compaction plan must have been generated because multiple tasks modified the same index: '' @
            uuid_string (ri_old_id ri))
     else sbind (update_first (\<lambda>ix. ix_uuid ix = ri_old_id ri) (rewrite_index c groups ri) indices) (\<lambda>r.
       Inr (ri_old_id ri # seen, case r of None \<Rightarrow> indices | Some indices \<Rightarrow> indices)))"

definition apply_rewrite :: "codecs \<Rightarrow> u64 \<Rightarrow> operation \<Rightarrow> manifest \<Rightarrow> manifest result" where
  "apply_rewrite c next_id op m =
     (let groups = assign_group_ids (op_groups op) next_id in
      sbind (sfold rewrite_fragments (m_fragments m) groups) (\<lambda>fragments.
      sbind (sfold (rewrite_index_step c groups) ([], m_indices m) (op_rewritten_indices op)) (\<lambda>(_, indices).
      Inr (m\<lparr>m_fragments := fragments, m_indices := indices\<rparr>))))"

subsection \<open>Schema and metadata operations\<close>

definition apply_merge :: "manifest \<Rightarrow> operation \<Rightarrow> manifest \<Rightarrow> manifest" where
  "apply_merge base op m = retain_indices (m\<lparr>m_fragments := op_fragments op,
     m_indices := prune_merge_rewritten (m_indices m) (m_fragments base) (op_fragments op)\<rparr>)"

definition drop_files :: "(data_file \<Rightarrow> bool) \<Rightarrow> data_fragment \<Rightarrow> data_fragment" where
  "drop_files gone f = f\<lparr>fr_files := filter (\<lambda>file. \<not> gone file) (fr_files f)\<rparr>"

definition apply_project :: "manifest \<Rightarrow> manifest" where
  "apply_project m =
     (let remaining = set (map pf_id (m_fields m)) in
      retain_indices (m\<lparr>m_fragments :=
        map (drop_files (\<lambda>file. list_all (\<lambda>i. i \<notin> remaining) (df_fields file))) (m_fragments m)\<rparr>))"

definition apply_reserve :: "manifest \<Rightarrow> operation \<Rightarrow> manifest \<Rightarrow> manifest" where
  "apply_reserve base op m = m\<lparr>m_has_max_fragment_id := True,
     m_max_fragment_id := ucast ((if m_has_max_fragment_id base then ucast (m_max_fragment_id base) else 0) + op_reserve op)\<rparr>"

definition apply_update_opt :: "(string \<Rightarrow> 'v) \<Rightarrow> (string, 'v) std_map \<Rightarrow> update_map option \<Rightarrow> (string, 'v) std_map" where
  "apply_update_opt convert target u = (case u of None \<Rightarrow> target | Some u \<Rightarrow> apply_update_map convert target u)"

definition update_field_metadata :: "pb_field list \<Rightarrow> int \<times> update_map \<Rightarrow> pb_field list result" where
  "update_field_metadata fs = (\<lambda>(i, u).
     sbind (update_first (\<lambda>f. pf_id f = i) (\<lambda>f. Inr (f\<lparr>pf_metadata := apply_update_map bytes_of (pf_metadata f) u\<rparr>)) fs)
       (need (''Invalid user input: Field with id '' @ int_string i @ '' does not exist'')))"

definition apply_update_config :: "operation \<Rightarrow> manifest \<Rightarrow> manifest result" where
  "apply_update_config op m =
     sbind (sfold update_field_metadata (m_fields m) (op_field_metadata_updates op)) (\<lambda>fs.
     Inr (m\<lparr>m_config := apply_update_opt id (m_config m) (op_config_updates op),
       m_table_metadata := apply_update_opt id (m_table_metadata m) (op_table_metadata_updates op),
       m_schema_metadata := apply_update_opt bytes_of (m_schema_metadata m) (op_schema_metadata_updates op),
       m_fields := fs\<rparr>))"

subsection \<open>Index, base path and overlay operations\<close>

definition narrow_index :: "u64 set \<Rightarrow> index_metadata \<Rightarrow> index_metadata" where
  "narrow_index present index =
     (let ids = filter (\<lambda>i. ucast i \<in> present) (ix_fragment_ids index) in
      if length ids \<noteq> length (ix_fragment_ids index)
      then index\<lparr>ix_fragment_ids := ids, ix_bitmap_changed := True\<rparr> else index)"

definition add_index :: "u64 set \<Rightarrow> index_metadata list \<Rightarrow> index_metadata \<Rightarrow> index_metadata list result" where
  "add_index present indices created =
     (let index = narrow_index present created;
          known = list_ex (\<lambda>i. ix_uuid i = ix_uuid index) indices
      in if ix_name index = kMemWalIndex \<and> \<not> known \<and> list_ex (\<lambda>i. ix_name i = kMemWalIndex) indices then
           Inl ''Invalid user input: MemWAL is already initialized on this dataset.''
         else sbind (update_first (\<lambda>i. ix_uuid i = ix_uuid index) (\<lambda>_. Inr index) indices) (\<lambda>r.
           Inr (case r of None \<Rightarrow> indices @ [index] | Some indices \<Rightarrow> indices)))"

definition apply_create_index :: "operation \<Rightarrow> manifest \<Rightarrow> manifest result" where
  "apply_create_index op m =
     (let kept = foldl (\<lambda>indices gone. filter (\<lambda>i. ix_uuid i \<noteq> ix_uuid gone) indices) (m_indices m) (op_removed_indices op);
          present = set (map fr_id (m_fragments m))
      in sbind (sfold (add_index present) kept (op_new_indices op)) (\<lambda>indices. Inr (m\<lparr>m_indices := indices\<rparr>)))"

definition base_conflicts :: "base_path \<Rightarrow> base_path \<Rightarrow> bool" where
  "base_conflicts base known =
     ((bp_has_name base \<and> bp_has_name known \<and> bp_name base = bp_name known) \<or> bp_path base = bp_path known)"

definition add_base :: "base_path list \<Rightarrow> byte list \<Rightarrow> base_path list result" where
  "add_base bases message =
     sbind (decode_base_path message) (\<lambda>base.
     if list_ex (base_conflicts base) bases then
       Inl (''Invalid user input: Conflict detected: Base path with name '' @ [CHR 0x27] @
            (if bp_has_name base then bp_name base else ''None'') @ [CHR 0x27] @ '' or path '' @ [CHR 0x27] @ bp_path base @
            [CHR 0x27] @ '' already exists'')
     else Inr (bases @ [base\<lparr>bp_id := foldl (\<lambda>next_id known. max next_id (bp_id known + 1)) 1 bases\<rparr>]))"

definition apply_update_bases :: "operation \<Rightarrow> manifest \<Rightarrow> manifest result" where
  "apply_update_bases op m =
     sbind (read_base_paths m) (\<lambda>bases.
     sbind (sfold add_base bases (op_new_bases op)) (\<lambda>bases. Inr (write_base_paths m bases)))"

definition apply_data_overlay :: "codecs \<Rightarrow> u64 \<Rightarrow> operation \<Rightarrow> manifest \<Rightarrow> manifest result" where
  "apply_data_overlay c new_version op m =
     sbind (sfold (\<lambda>fragments (fragment_id, overlays).
         sbind (update_first (\<lambda>f. fr_id f = fragment_id)
             (\<lambda>f. append_fragment_overlays (decode_data_file_message c) f overlays new_version) fragments)
           (need (''Invalid user input: data overlay for fragment '' @ to_string (unat fragment_id) @
                  '', which the dataset does not have'')))
       (m_fragments m) (op_overlay_groups op)) (\<lambda>fragments. Inr (m\<lparr>m_fragments := fragments\<rparr>))"

subsection \<open>What every operation ends with\<close>

definition only_tombstones :: "data_file \<Rightarrow> bool" where
  "only_tombstones file = (df_fields file \<noteq> [] \<and> list_all (\<lambda>i. i = kTombstone) (df_fields file))"

definition set_flag :: "bool \<Rightarrow> u64 \<Rightarrow> manifest \<Rightarrow> manifest" where
  "set_flag on flag m =
     (if on then m\<lparr>m_reader_flags := m_reader_flags m OR flag, m_writer_flags := m_writer_flags m OR flag\<rparr>
      else m\<lparr>m_reader_flags := m_reader_flags m AND NOT flag, m_writer_flags := m_writer_flags m AND NOT flag\<rparr>)"

definition raise_max_fragment_id :: "manifest \<Rightarrow> manifest" where
  "raise_max_fragment_id m =
     (let max_id = foldl (\<lambda>max_id f. max max_id (fr_id f))
            (if m_has_max_fragment_id m then ucast (m_max_fragment_id m) else 0) (m_fragments m)
      in if m_has_max_fragment_id m \<or> m_fragments m \<noteq> []
         then m\<lparr>m_has_max_fragment_id := True, m_max_fragment_id := ucast max_id\<rparr> else m)"

definition finish_manifest :: "bool \<Rightarrow> manifest \<Rightarrow> manifest" where
  "finish_manifest stable_ids m =
     (let m = raise_max_fragment_id
            (m\<lparr>m_fragments := map (drop_files only_tombstones) (sort_key fr_id (m_fragments m))\<rparr>);
          m = (if stable_ids then set_flag True kFlagStableRowIds m else m);
          m = set_flag (list_ex fragment_has_overlays (m_fragments m)) kFlagDataOverlays m
      in set_flag (list_ex (\<lambda>f. del_present (fr_deletion f)) (m_fragments m)) kFlagDeletionFiles m)"

subsection \<open>apply_operation\<close>

definition check_operation :: "manifest option \<Rightarrow> operation \<Rightarrow> unit result option" where
  "check_operation base op =
     (if base = None \<and> op_kind op \<noteq> Overwrite then
        Some (Inl (''Invalid user input: Cannot apply operation '' @ operation_name (op_kind op) @ '' to non-existent dataset''))
      else if op_kind op = Overwrite then
        Some (sbind (overwrite_fragments_valid (op_fragments op)) (\<lambda>_. files_have_fields (op_fragments op)))
      else if op_kind op = Append then Some (files_have_fields (op_fragments op))
      else if op_kind op = Update then
        Some (sbind (files_have_fields (op_updated_fragments op)) (\<lambda>_. files_have_fields (op_fragments op)))
      else if op_kind op = Merge then
        (case files_have_fields (op_fragments op) of
           Inl e \<Rightarrow> Some (Inl e)
         | Inr _ \<Rightarrow> merge_valid (the base) op)
      else Some (Inr ()))"

definition start_manifest :: "manifest option \<Rightarrow> operation \<Rightarrow> manifest" where
  "start_manifest base op =
     (let m = (case base of
            Some m \<Rightarrow> m
          | None \<Rightarrow> new_manifest\<lparr>m_file_format := ''lance'', m_format_version := storage_version_of (op_fragments op)\<rparr>);
          m = (if op_has_schema op then m\<lparr>m_fields := op_schema op\<rparr> else m)
      in if op_has_schema_metadata op \<or> op_kind op = Overwrite
         then m\<lparr>m_schema_metadata := op_schema_metadata op\<rparr> else m)"

definition change_manifest ::
  "codecs \<Rightarrow> read_limits \<Rightarrow> bool \<Rightarrow> u64 \<Rightarrow> manifest option \<Rightarrow> operation \<Rightarrow> manifest \<Rightarrow> manifest result" where
  "change_manifest c limits stable_ids new_version base op m =
     (let next_id = (case base of None \<Rightarrow> 0 | Some b \<Rightarrow> next_fragment_id b) in
      case op_kind op of
        Append \<Rightarrow> apply_append stable_ids new_version next_id op m
      | Delete \<Rightarrow> Inr (apply_delete op m)
      | Update \<Rightarrow> apply_update limits stable_ids new_version next_id op m
      | Overwrite \<Rightarrow> apply_overwrite stable_ids new_version next_id op m
      | Rewrite \<Rightarrow> apply_rewrite c next_id op m
      | Merge \<Rightarrow> Inr (apply_merge (the base) op m)
      | Project \<Rightarrow> Inr (apply_project m)
      | ReserveFragments \<Rightarrow> Inr (apply_reserve (the base) op m)
      | UpdateConfig \<Rightarrow> apply_update_config op m
      | CreateIndex \<Rightarrow> apply_create_index op m
      | DataReplacement \<Rightarrow> data_replacement (encode_data_fragment c) m op
      | UpdateBases \<Rightarrow> apply_update_bases op m
      | DataOverlay \<Rightarrow> apply_data_overlay c new_version op m
      | _ \<Rightarrow> Inl (''LanceDataset.commit of '' @ operation_name (op_kind op) @ '' is not supported''))"

text \<open>\<open>None\<close>: the check of the operation does not return.\<close>

definition apply_operation ::
  "codecs \<Rightarrow> read_limits \<Rightarrow> manifest option \<Rightarrow> operation \<Rightarrow> bool \<Rightarrow> u64 \<Rightarrow> manifest result option" where
  "apply_operation c limits base op enable_stable_row_ids new_version =
     map_option (\<lambda>checked. sbind checked (\<lambda>_.
       let m = start_manifest base op;
           stable_ids = (stable_row_ids m \<or> (enable_stable_row_ids \<and> (base = None \<or> op_kind op = Overwrite)))
       in sbind (change_manifest c limits stable_ids new_version base op m) (\<lambda>m. Inr (finish_manifest stable_ids m))))
     (check_operation base op)"

subsection \<open>Rebasing a change over later versions\<close>

definition rebase_restore :: "manifest \<Rightarrow> manifest \<Rightarrow> manifest" where
  "rebase_restore latest ours = ours\<lparr>m_has_max_fragment_id := True,
     m_max_fragment_id := max (if m_has_max_fragment_id latest then m_max_fragment_id latest else 0)
                              (if m_has_max_fragment_id ours then m_max_fragment_id ours else 0),
     m_next_row_id := max (m_next_row_id ours) (m_next_row_id latest)\<rparr>"

definition renumber :: "operation \<Rightarrow> operation" where
  "renumber op =
     (if op_kind op = Append \<or> op_kind op = Update
      then op\<lparr>op_fragments := map (\<lambda>f. f\<lparr>fr_id := 0\<rparr>) (op_fragments op)\<rparr> else op)"

definition replace_index :: "index_metadata list \<Rightarrow> index_metadata \<Rightarrow> index_metadata list" where
  "replace_index indices index =
     (case update_first (\<lambda>i. ix_uuid i = ix_uuid index) (\<lambda>_. Inr index :: index_metadata result) indices of
        Inr (Some indices) \<Rightarrow> indices | _ \<Rightarrow> indices)"

definition prune_concurrent :: "operation list \<Rightarrow> operation \<Rightarrow> manifest \<Rightarrow> manifest" where
  "prune_concurrent theirs op m =
     (let mine = filter (\<lambda>i. ix_uuid i \<in> set (map ix_uuid (op_new_indices op))) (m_indices m);
          mine = foldl (\<lambda>mine t. if op_kind t \<noteq> Update then mine
              else prune_updated_fields mine (map fr_id (op_updated_fragments t)) (op_fields_modified t)) mine theirs
      in m\<lparr>m_indices := foldl replace_index (m_indices m) mine\<rparr>)"

definition rebase_operation ::
  "codecs \<Rightarrow> read_limits \<Rightarrow> manifest \<Rightarrow> manifest \<Rightarrow> operation \<Rightarrow> operation list \<Rightarrow> u64 \<Rightarrow> manifest result option" where
  "rebase_operation c limits latest ours op theirs new_version =
     (if op_kind op = Restore then Some (Inr (rebase_restore latest ours))
      else if stable_row_ids latest \<and> op_kind op \<in> {Append, Update, Merge, Overwrite} then
        Some (Inl (''commit conflict: stable row ids: a rebase of '' @ operation_name (op_kind op) @ '' is not supported''))
      else map_option (\<lambda>r. sbind r (\<lambda>m. Inr (if op_kind op = CreateIndex then prune_concurrent theirs op m else m)))
        (apply_operation c limits (Some latest) (renumber op) False new_version))"

end
