(* ===== verification/Transaction_Invariants.thy ===== *)
theory Transaction_Invariants
  imports Dataset_Transaction "HOL-Library.Multiset"
begin

text \<open>
  What every manifest \<open>apply_operation\<close> builds has (\<open>src/src/table/dataset_transaction.cpp\<close>), and the
  fragment ids over a history of commits: ids are distinct, the recorded maximum is above them all, and an
  id that was given up is never given out again.
\<close>

subsection \<open>Feature flags\<close>

lemma set_flag_this:
  assumes "flag \<noteq> 0"
  shows "m_reader_flags (set_flag on flag m) AND flag \<noteq> 0 \<longleftrightarrow> on" "m_writer_flags (set_flag on flag m) AND flag \<noteq> 0 \<longleftrightarrow> on"
proof -
  have "(x OR flag) AND flag = flag" "(x AND NOT flag) AND flag = 0" for x
    by (auto simp: bit_eq_iff bit_simps)
  with assms show "m_reader_flags (set_flag on flag m) AND flag \<noteq> 0 \<longleftrightarrow> on" "m_writer_flags (set_flag on flag m) AND flag \<noteq> 0 \<longleftrightarrow> on"
    by (auto simp: set_flag_def)
qed

lemma set_flag_other:
  assumes "flag AND other = 0"
  shows "m_reader_flags (set_flag on flag m) AND other = m_reader_flags m AND other"
    "m_writer_flags (set_flag on flag m) AND other = m_writer_flags m AND other"
proof -
  have "(x OR flag) AND other = x AND other" "(x AND NOT flag) AND other = x AND other" for x
    using assms by (auto simp: bit_eq_iff bit_simps)
  then show "m_reader_flags (set_flag on flag m) AND other = m_reader_flags m AND other"
    "m_writer_flags (set_flag on flag m) AND other = m_writer_flags m AND other"
    by (auto simp: set_flag_def)
qed

lemma set_flag_same [simp]:
  "m_fragments (set_flag on flag m) = m_fragments m" "m_indices (set_flag on flag m) = m_indices m"
  "m_has_max_fragment_id (set_flag on flag m) = m_has_max_fragment_id m"
  "m_max_fragment_id (set_flag on flag m) = m_max_fragment_id m"
  "m_next_row_id (set_flag on flag m) = m_next_row_id m" "m_config (set_flag on flag m) = m_config m"
  "m_fields (set_flag on flag m) = m_fields m" "m_unknown (set_flag on flag m) = m_unknown m"
  by (simp_all add: set_flag_def)

lemma raise_max_same [simp]:
  "m_fragments (raise_max_fragment_id m) = m_fragments m" "m_indices (raise_max_fragment_id m) = m_indices m"
  "m_next_row_id (raise_max_fragment_id m) = m_next_row_id m" "m_config (raise_max_fragment_id m) = m_config m"
  "m_fields (raise_max_fragment_id m) = m_fields m" "m_unknown (raise_max_fragment_id m) = m_unknown m"
  "m_reader_flags (raise_max_fragment_id m) = m_reader_flags m" "m_writer_flags (raise_max_fragment_id m) = m_writer_flags m"
  by (simp_all add: raise_max_fragment_id_def Let_def)

lemma finish_fragments:
  "m_fragments (finish_manifest s m) = map (drop_files only_tombstones) (sort_key fr_id (m_fragments m))"
  by (simp add: finish_manifest_def Let_def)

lemma finish_other [simp]:
  "m_indices (finish_manifest s m) = m_indices m" "m_next_row_id (finish_manifest s m) = m_next_row_id m"
  "m_config (finish_manifest s m) = m_config m" "m_fields (finish_manifest s m) = m_fields m"
  "m_unknown (finish_manifest s m) = m_unknown m"
  by (simp_all add: finish_manifest_def Let_def)

lemma drop_files_same [simp]:
  "fr_id (drop_files gone f) = fr_id f" "fr_rows (drop_files gone f) = fr_rows f"
  "fr_deletion (drop_files gone f) = fr_deletion f" "fr_unknown (drop_files gone f) = fr_unknown f"
  by (simp_all add: drop_files_def)

lemma drop_files_overlays [simp]: "fragment_has_overlays (drop_files gone f) = fragment_has_overlays f"
  by (simp add: fragment_has_overlays_def)

lemma finish_flags:
  fixes s m
  defines "m' \<equiv> finish_manifest s m"
  shows "m_reader_flags m' AND kFlagDeletionFiles \<noteq> 0 \<longleftrightarrow> (\<exists>f \<in> set (m_fragments m'). del_present (fr_deletion f))"
    "m_writer_flags m' AND kFlagDeletionFiles \<noteq> 0 \<longleftrightarrow> (\<exists>f \<in> set (m_fragments m'). del_present (fr_deletion f))"
    "m_reader_flags m' AND kFlagDataOverlays \<noteq> 0 \<longleftrightarrow> (\<exists>f \<in> set (m_fragments m'). fragment_has_overlays f)"
    "m_writer_flags m' AND kFlagDataOverlays \<noteq> 0 \<longleftrightarrow> (\<exists>f \<in> set (m_fragments m'). fragment_has_overlays f)"
    "s \<Longrightarrow> stable_row_ids m'"
proof -
  have flags: "kFlagDeletionFiles \<noteq> 0" "kFlagDataOverlays \<noteq> 0" "kFlagDeletionFiles AND kFlagDataOverlays = 0"
    "kFlagStableRowIds \<noteq> 0" "kFlagDeletionFiles AND kFlagStableRowIds = 0" "kFlagDataOverlays AND kFlagStableRowIds = 0"
    by (simp_all add: kFlagDeletionFiles_def kFlagDataOverlays_def kFlagStableRowIds_def)
  show "m_reader_flags m' AND kFlagDeletionFiles \<noteq> 0 \<longleftrightarrow> (\<exists>f \<in> set (m_fragments m'). del_present (fr_deletion f))"
    "m_writer_flags m' AND kFlagDeletionFiles \<noteq> 0 \<longleftrightarrow> (\<exists>f \<in> set (m_fragments m'). del_present (fr_deletion f))"
    "m_reader_flags m' AND kFlagDataOverlays \<noteq> 0 \<longleftrightarrow> (\<exists>f \<in> set (m_fragments m'). fragment_has_overlays f)"
    "m_writer_flags m' AND kFlagDataOverlays \<noteq> 0 \<longleftrightarrow> (\<exists>f \<in> set (m_fragments m'). fragment_has_overlays f)"
    unfolding m'_def finish_manifest_def Let_def
    by (simp_all only: set_flag_this [OF flags(1)] set_flag_other [OF flags(3)] set_flag_this [OF flags(2)] set_flag_same list_ex_iff)
  show "s \<Longrightarrow> stable_row_ids m'"
    unfolding m'_def finish_manifest_def Let_def stable_row_ids_def
    by (simp only: set_flag_other [OF flags(5)] set_flag_other [OF flags(6)] set_flag_this [OF flags(4)] if_True)
qed

lemma apply_operationE:
  assumes "apply_operation c limits base op enable v = Some (Inr m')"
  obtains s m where "check_operation base op = Some (Inr ())"
    "change_manifest c limits s v base op (start_manifest base op) = Inr m" "m' = finish_manifest s m"
    "s = (stable_row_ids (start_manifest base op) \<or> (enable \<and> (base = None \<or> op_kind op = Overwrite)))"
  using assms by (auto simp: apply_operation_def sbind_eq_Inr Let_def)

text \<open>C7: the manifest an operation builds lists its fragments by ascending
  id, has no data file whose fields are all tombstones, and sets the deletion-file and the overlay
  feature flag, for readers and for writers, exactly when some fragment has a deletion file or an overlay.\<close>

theorem committed_manifest_finished:
  assumes "apply_operation c limits base op enable_stable_row_ids new_version = Some (Inr m)"
  shows "sorted (map fr_id (m_fragments m)) \<and>
    (\<forall>f \<in> set (m_fragments m). \<forall>file \<in> set (fr_files f). \<not> only_tombstones file) \<and>
    (m_reader_flags m AND kFlagDeletionFiles \<noteq> 0 \<longleftrightarrow> (\<exists>f \<in> set (m_fragments m). del_present (fr_deletion f))) \<and>
    (m_writer_flags m AND kFlagDeletionFiles \<noteq> 0 \<longleftrightarrow> (\<exists>f \<in> set (m_fragments m). del_present (fr_deletion f))) \<and>
    (m_reader_flags m AND kFlagDataOverlays \<noteq> 0 \<longleftrightarrow> (\<exists>f \<in> set (m_fragments m). fragment_has_overlays f)) \<and>
    (m_writer_flags m AND kFlagDataOverlays \<noteq> 0 \<longleftrightarrow> (\<exists>f \<in> set (m_fragments m). fragment_has_overlays f))"
  using assms
proof (rule apply_operationE)
  fix s m1
  assume "m = finish_manifest s m1"
  moreover have "sorted (map fr_id (m_fragments (finish_manifest s m1)))"
    by (simp add: finish_fragments comp_def)
  moreover have "\<forall>f \<in> set (m_fragments (finish_manifest s m1)). \<forall>file \<in> set (fr_files f). \<not> only_tombstones file"
    by (auto simp: finish_fragments drop_files_def)
  ultimately show ?thesis using finish_flags [of s m1] by simp
qed

subsection \<open>Fragment ids through each operation\<close>

lemma update_first_map:
  assumes "update_first P f xs = Inr (Some ys)" and "\<And>x y. f x = Inr y \<Longrightarrow> k y = k x"
  shows "map k ys = map k xs"
  using assms(1) by (rule update_first_SomeE) (simp add: assms(2))

lemma sfold_map:
  assumes "sfold step xs as = Inr ys" and "\<And>xs a ys. step xs a = Inr ys \<Longrightarrow> map k ys = map k xs"
  shows "map k ys = map k xs"
  using assms(1) by (induction as arbitrary: xs) (auto simp: sbind_eq_Inr dest: assms(2))

lemma stamp_missing_ids: "stamp_missing_row_meta fs n v = Inr (gs, n') \<Longrightarrow> map fr_id gs = map fr_id fs"
  by (induction fs arbitrary: n gs) (auto simp: sbind_eq_Inr dest: stamp_fragment_same)

lemma stamp_added_ids:
  assumes "stamp_added s v fs m = Inr (gs, m')"
  shows "map fr_id gs = map fr_id fs \<and> m_fragments m' = m_fragments m \<and>
    m_has_max_fragment_id m' = m_has_max_fragment_id m \<and> m_max_fragment_id m' = m_max_fragment_id m"
  using assms by (auto simp: stamp_added_def sbind_eq_Inr dest: stamp_missing_ids split: if_splits)

lemma stamp_updated_fragment_id: "stamp_updated_fragment limits bitmap v f = Inr g \<Longrightarrow> fr_id g = fr_id f"
  by (auto simp: stamp_updated_fragment_def sbind_eq_Inr split: if_splits)

lemma stamp_updated_ids: "stamp_updated_rows limits fs op v = Inr gs \<Longrightarrow> map fr_id gs = map fr_id fs"
  unfolding stamp_updated_rows_def
proof (erule sfold_map)
  fix xs a ys
  assume "(case a of (fragment_id, bitmap) \<Rightarrow>
      sbind (update_first (\<lambda>f. fr_id f = fragment_id) (stamp_updated_fragment limits bitmap v) xs)
        (\<lambda>r. Inr (case r of None \<Rightarrow> xs | Some fragments \<Rightarrow> fragments))) = Inr ys"
  then obtain i bitmap r where "update_first (\<lambda>f. fr_id f = i) (stamp_updated_fragment limits bitmap v) xs = Inr r"
    "ys = (case r of None \<Rightarrow> xs | Some fragments \<Rightarrow> fragments)"
    by (auto simp: sbind_eq_Inr split: prod.splits)
  then show "map fr_id ys = map fr_id xs"
    by (cases r) (auto dest: update_first_map [where k = fr_id] stamp_updated_fragment_id)
qed

lemma append_overlays_id: "append_fragment_overlays d f os v = Inr g \<Longrightarrow> fr_id g = fr_id f"
  unfolding append_fragment_overlays_def
  by (induction os arbitrary: f) (auto simp: sbind_eq_Inr append_overlay_def Let_def split: prod.splits if_splits option.splits)

lemma overlay_ids_kept: "apply_data_overlay c v op m = Inr m' \<Longrightarrow>
    map fr_id (m_fragments m') = map fr_id (m_fragments m) \<and>
    m_has_max_fragment_id m' = m_has_max_fragment_id m \<and> m_max_fragment_id m' = m_max_fragment_id m"
  unfolding apply_data_overlay_def
  by (auto simp: sbind_eq_Inr need_eq_Inr elim!: sfold_map
      dest!: update_first_map [OF _ append_overlays_id] split: prod.splits)

lemma replace_in_fragment_id: "replace_checked e r l f x = Inr y \<Longrightarrow> fr_id y = fr_id x"
  by (auto simp: replace_checked_def replace_in_fragment_def Let_def split: if_splits)

lemma replacement_ids_kept: "data_replacement e m op = Inr m' \<Longrightarrow>
    map fr_id (m_fragments m') = map fr_id (m_fragments m) \<and>
    m_has_max_fragment_id m' = m_has_max_fragment_id m \<and> m_max_fragment_id m' = m_max_fragment_id m"
  unfolding data_replacement_def Let_def
  by (auto simp: sbind_eq_Inr need_eq_Inr elim!: sfold_map
      dest!: update_first_map [OF _ replace_in_fragment_id] split: prod.splits if_splits)

lemma replace_fragments_ids:
  assumes "\<And>i g. updated i = Some g \<Longrightarrow> fr_id g = i"
  shows "map fr_id (replace_fragments removed updated fs) = filter (\<lambda>i. i \<notin> set removed) (map fr_id fs)"
  using assms by (induction fs) (auto simp: replace_fragments_def split: option.splits)

lemma by_id: "last_by_id fs i = Some g \<Longrightarrow> fr_id g = i" "first_by_id fs i = Some g \<Longrightarrow> fr_id g = i"
  by (auto simp: last_by_id_def first_by_id_def dest!: map_of_SomeD)

lemma assign_all: "\<forall>f \<in> set fs. fr_id f = 0 \<Longrightarrow> assign_ids fs n = (number_all fs n, n + of_nat (length fs))"
  by (induction fs arbitrary: n) (simp_all add: algebra_simps)

lemma assign_groups:
  "\<forall>g \<in> set gs. \<forall>f \<in> set (rg_new g). fr_id f = 0 \<Longrightarrow>
     concat (map rg_new (assign_group_ids gs n)) = number_all (concat (map rg_new gs)) n"
proof -
  have "number_all (fs @ hs) n = number_all fs n @ number_all hs (n + of_nat (length fs))" for fs hs n
    by (induction fs arbitrary: n) (simp_all add: algebra_simps)
  then show "\<forall>g \<in> set gs. \<forall>f \<in> set (rg_new g). fr_id f = 0 \<Longrightarrow> ?thesis"
    by (induction gs arbitrary: n) (simp_all add: assign_all)
qed

lemma number_all_ids:
  assumes "unat n + length fs < 2 ^ 64"
  shows "map (\<lambda>f. unat (fr_id f)) (number_all fs n) = [unat n..<unat n + length fs]"
  using assms
proof (induction fs arbitrary: n)
  case (Cons f fs)
  have "unat (n + 1) = unat n + 1"
    using Cons.prems by (intro unat_plus_1) (auto simp: word_less_nat_alt unsigned_minus_1_eq_mask mask_eq_exp_minus_1)
  with Cons.IH [of "n + 1"] Cons.prems show ?case by (simp add: upt_conv_Cons del: upt_Suc)
qed simp

lemma number_all_distinct:
  assumes "unat n + length fs < 2 ^ 64"
  shows "distinct (map fr_id (number_all fs n))"
    "i \<in> fr_id ` set (number_all fs n) \<Longrightarrow> n \<le> i \<and> unat i < unat n + length fs"
proof -
  note u = number_all_ids [OF assms]
  have "distinct (map unat (map fr_id (number_all fs n)))" using u by (simp add: comp_def)
  then show "distinct (map fr_id (number_all fs n))" by (simp only: distinct_map)
  assume "i \<in> fr_id ` set (number_all fs n)"
  then have "unat i \<in> set (map (\<lambda>f. unat (fr_id f)) (number_all fs n))" by auto
  then show "n \<le> i \<and> unat i < unat n + length fs" unfolding u by (simp add: word_le_nat_alt)
qed

lemma rewrite_fold_ids:
  assumes "sfold rewrite_fragments fs groups = Inr out"
    and "distinct (map fr_id fs @ map fr_id (concat (map rg_new groups)))"
  shows "distinct (map fr_id out) \<and> fr_id ` set out \<subseteq> fr_id ` set fs \<union> fr_id ` set (concat (map rg_new groups))"
  using assms
proof (induction groups arbitrary: fs)
  case (Cons g gs)
  let ?fs = "filter (\<lambda>f. fr_id f \<notin> fr_id ` set (rg_old g)) fs @ rg_new g"
  from Cons.prems(1) obtain x where "rewrite_fragments fs g = Inr x" and rest: "sfold rewrite_fragments x gs = Inr out"
    by (auto simp: sbind_eq_Inr)
  then have x: "x = ?fs" by (auto simp: rewrite_fragments_def split: list.splits)
  have "distinct (map fr_id (filter P fs) @ ys)" if "distinct (map fr_id fs @ ys)" for P ys
    using that by (auto simp: distinct_map_filter)
  from this [of "map fr_id (rg_new g) @ map fr_id (concat (map rg_new gs))"] Cons.prems(2)
  have "distinct (map fr_id ?fs @ map fr_id (concat (map rg_new gs)))" by simp
  note ih = Cons.IH [OF rest [unfolded x] this]
  moreover have "fr_id ` set ?fs \<subseteq> fr_id ` set fs \<union> fr_id ` set (rg_new g)" by auto
  moreover have "fr_id ` set (concat (map rg_new (g # gs))) = fr_id ` set (rg_new g) \<union> fr_id ` set (concat (map rg_new gs))"
    by (simp add: image_Un)
  ultimately show ?case by blast
qed simp

subsection \<open>Ids over a history\<close>

text \<open>A manifest whose fragment ids are distinct and no larger than the recorded maximum.\<close>

definition numbered :: "manifest \<Rightarrow> bool" where
  "numbered m \<longleftrightarrow> distinct (map fr_id (m_fragments m)) \<and> (m_has_max_fragment_id m \<or> m_fragments m = []) \<and>
     (\<forall>f \<in> set (m_fragments m). fr_id f \<le> ucast (m_max_fragment_id m))"

text \<open>The fragments an operation adds come without an id (a merge keeps those there are), and the ids it
  needs fit 32 bits.\<close>

definition added_fragments :: "operation \<Rightarrow> data_fragment list" where
  "added_fragments op =
     (case op_kind op of
        Append \<Rightarrow> op_fragments op | Update \<Rightarrow> op_fragments op | Overwrite \<Rightarrow> op_fragments op
      | Rewrite \<Rightarrow> concat (map rg_new (op_groups op)) | _ \<Rightarrow> [])"

definition unnumbered_op :: "manifest \<Rightarrow> operation \<Rightarrow> bool" where
  "unnumbered_op m op \<longleftrightarrow>
     (op_kind op \<noteq> Overwrite \<longrightarrow> (\<forall>f \<in> set (added_fragments op). fr_id f = 0)) \<and>
     (op_kind op = Merge \<longrightarrow> distinct (map fr_id (op_fragments op)) \<and> fr_id ` set (op_fragments op) \<subseteq> fr_id ` set (m_fragments m)) \<and>
     (op_kind op = ReserveFragments \<longrightarrow>
        (if m_has_max_fragment_id m then unat (m_max_fragment_id m) else 0) + unat (op_reserve op) < 2 ^ 32) \<and>
     unat (next_fragment_id m) + length (added_fragments op) < 2 ^ 32"

lemma start_same [simp]:
  "m_fragments (start_manifest (Some b) op) = m_fragments b"
  "m_has_max_fragment_id (start_manifest (Some b) op) = m_has_max_fragment_id b"
  "m_max_fragment_id (start_manifest (Some b) op) = m_max_fragment_id b"
  "m_indices (start_manifest (Some b) op) = m_indices b" "m_unknown (start_manifest (Some b) op) = m_unknown b"
  "m_next_row_id (start_manifest (Some b) op) = m_next_row_id b" "m_config (start_manifest (Some b) op) = m_config b"
  by (simp_all add: start_manifest_def Let_def)

lemma retain_same [simp]:
  "m_fragments (retain_indices m) = m_fragments m" "m_has_max_fragment_id (retain_indices m) = m_has_max_fragment_id m"
  "m_max_fragment_id (retain_indices m) = m_max_fragment_id m" "m_unknown (retain_indices m) = m_unknown m"
  "m_next_row_id (retain_indices m) = m_next_row_id m" "m_config (retain_indices m) = m_config m"
  by (simp_all add: retain_indices_def)

text \<open>The ids after an operation: some of those before it and some of the next ones.\<close>

definition ids_change :: "manifest \<Rightarrow> u64 \<Rightarrow> nat \<Rightarrow> manifest \<Rightarrow> bool" where
  "ids_change b next_id added m \<longleftrightarrow>
     distinct (map fr_id (m_fragments m)) \<and>
     (\<forall>f \<in> set (m_fragments m). fr_id f \<in> fr_id ` set (m_fragments b) \<or>
        (next_id \<le> fr_id f \<and> unat (fr_id f) < unat next_id + added))"

lemma ids_change_kept:
  assumes "map fr_id (m_fragments m) = filter P (map fr_id (m_fragments b))" and "distinct (map fr_id (m_fragments b))"
  shows "ids_change b next_id added m"
proof -
  have "fr_id ` set (m_fragments m) \<subseteq> fr_id ` set (m_fragments b)"
    using arg_cong [OF assms(1), of set] by auto
  with assms show ?thesis by (auto simp: ids_change_def)
qed

lemma ids_change_added:
  assumes ids: "map fr_id (m_fragments m) = filter P (map fr_id (m_fragments b)) @ map fr_id (number_all fs n)"
    and "distinct (map fr_id (m_fragments b))" and "unat n + length fs < 2 ^ 64"
    and "\<And>f. f \<in> set (m_fragments b) \<Longrightarrow> fr_id f < n"
  shows "ids_change b n (length fs) m"
proof -
  note new = number_all_distinct [OF assms(3)]
  have "set (filter P (map fr_id (m_fragments b))) \<inter> set (map fr_id (number_all fs n)) = {}"
    using new(2) assms(4) by fastforce
  with assms(2) new(1) have "distinct (map fr_id (m_fragments m))" unfolding ids by simp
  moreover have "fr_id ` set (m_fragments m) \<subseteq> fr_id ` set (m_fragments b) \<union> fr_id ` set (number_all fs n)"
    using arg_cong [OF ids, of set] by auto
  ultimately show ?thesis unfolding ids_change_def using new(2) by fastforce
qed

lemma number_all_append: "number_all (fs @ hs) n = number_all fs n @ number_all hs (n + of_nat (length fs))"
  by (induction fs arbitrary: n) (simp_all add: algebra_simps)

lemma overwrite_result:
  assumes "apply_overwrite s v n op m = Inr m'"
  shows "map fr_id (m_fragments m') = map fr_id (number_all (op_fragments op) n)"
    "m_has_max_fragment_id m' = m_has_max_fragment_id m" "m_max_fragment_id m' = m_max_fragment_id m"
proof -
  from assms obtain added m1 where st: "stamp_added s v (number_all (op_fragments op) n) m = Inr (added, m1)"
    by (auto simp: apply_overwrite_def sbind_eq_Inr)
  let ?m = "m1\<lparr>m_fragments := added, m_indices := [], m_index_section_error := [],
    m_config := foldl (\<lambda>c (k, v). map_put k v c) (m_config m1) (op_config_upserts op)\<rparr>"
  from assms st have "m' = ?m \<or> (\<exists>bases. m' = write_base_paths ?m bases)"
    unfolding apply_overwrite_def Let_def by (simp split: if_splits) (auto simp: sbind_eq_Inr)
  then show "map fr_id (m_fragments m') = map fr_id (number_all (op_fragments op) n)"
    "m_has_max_fragment_id m' = m_has_max_fragment_id m" "m_max_fragment_id m' = m_max_fragment_id m"
    using stamp_added_ids [OF st] by (auto simp: write_base_paths_def)
qed

lemma unchanged_ids:
  assumes "change_manifest c limits s v (Some b) op (start_manifest (Some b) op) = Inr m"
    and "op_kind op \<in> {Project, ReserveFragments, UpdateConfig, CreateIndex, DataReplacement, UpdateBases, DataOverlay}"
  shows "map fr_id (m_fragments m) = map fr_id (m_fragments b)"
proof -
  consider "op_kind op = Project" | "op_kind op = ReserveFragments" | "op_kind op = UpdateConfig" | "op_kind op = CreateIndex"
    | "op_kind op = DataReplacement" | "op_kind op = UpdateBases" | "op_kind op = DataOverlay" using assms(2) by auto
  then show ?thesis
  proof cases
    case 1
    with assms(1) show ?thesis by (auto simp: change_manifest_def apply_project_def Let_def comp_def)
  next
    case 2
    with assms(1) show ?thesis by (auto simp: change_manifest_def apply_reserve_def)
  next
    case 3
    with assms(1) show ?thesis by (auto simp: change_manifest_def apply_update_config_def sbind_eq_Inr)
  next
    case 4
    with assms(1) show ?thesis by (auto simp: change_manifest_def apply_create_index_def sbind_eq_Inr Let_def)
  next
    case 5
    with assms(1) show ?thesis by (auto simp: change_manifest_def dest: replacement_ids_kept)
  next
    case 6
    with assms(1) show ?thesis by (auto simp: change_manifest_def apply_update_bases_def sbind_eq_Inr write_base_paths_def)
  next
    case 7
    with assms(1) show ?thesis by (auto simp: change_manifest_def dest: overlay_ids_kept)
  qed
qed

lemma changed_ids:
  assumes change: "change_manifest c limits s v (Some b) op (start_manifest (Some b) op) = Inr m"
    and b: "distinct (map fr_id (m_fragments b))" "\<And>f. f \<in> set (m_fragments b) \<Longrightarrow> fr_id f < next_fragment_id b"
    and op: "unnumbered_op b op"
  shows "ids_change b (next_fragment_id b) (length (added_fragments op)) m"
proof -
  let ?n = "next_fragment_id b"
  have room: "unat ?n + length (added_fragments op) < 2 ^ 64" using op by (simp add: unnumbered_op_def)
  have zero: "op_kind op \<noteq> Overwrite \<Longrightarrow> \<forall>f \<in> set (added_fragments op). fr_id f = 0"
    using op by (simp add: unnumbered_op_def)
  note added_ids = ids_change_added [OF _ b(1) room b(2)]
  show ?thesis
  proof (cases "op_kind op")
    case Append
    with change zero have "map fr_id (m_fragments m) =
        filter (\<lambda>_. True) (map fr_id (m_fragments b)) @ map fr_id (number_all (added_fragments op) ?n)"
      by (auto simp: change_manifest_def apply_append_def sbind_eq_Inr added_fragments_def assign_all dest: stamp_added_ids)
    then show ?thesis by (rule added_ids)
  next
    case Delete
    with change have "map fr_id (m_fragments m) = filter (\<lambda>i. i \<notin> set (op_removed_ids op)) (map fr_id (m_fragments b))"
      by (auto simp: change_manifest_def apply_delete_def replace_fragments_ids [OF by_id(1)])
    then show ?thesis using b(1) by (rule ids_change_kept)
  next
    case Update
    with change zero have "map fr_id (m_fragments m) =
        filter (\<lambda>i. i \<notin> set (op_removed_ids op)) (map fr_id (m_fragments b)) @ map fr_id (number_all (added_fragments op) ?n)"
      by (auto simp: change_manifest_def apply_update_def sbind_eq_Inr Let_def added_fragments_def assign_all
          replace_fragments_ids [OF by_id(2)] dest!: stamp_added_ids stamp_updated_ids split: if_splits)
    then show ?thesis by (rule added_ids)
  next
    case Overwrite
    with change have "map fr_id (m_fragments m) =
        filter (\<lambda>_. False) (map fr_id (m_fragments b)) @ map fr_id (number_all (added_fragments op) ?n)"
      by (simp add: change_manifest_def added_fragments_def overwrite_result(1))
    then show ?thesis by (rule added_ids)
  next
    case Rewrite
    let ?groups = "assign_group_ids (op_groups op) ?n"
    from Rewrite change have fold: "sfold rewrite_fragments (m_fragments b) ?groups = Inr (m_fragments m)"
      by (auto simp: change_manifest_def apply_rewrite_def sbind_eq_Inr Let_def)
    from Rewrite zero have new: "concat (map rg_new ?groups) = number_all (added_fragments op) ?n"
      by (auto simp: added_fragments_def intro!: assign_groups)
    note n = number_all_distinct [OF room]
    have "distinct (map fr_id (m_fragments b) @ map fr_id (concat (map rg_new ?groups)))"
      unfolding new using b n by fastforce
    from rewrite_fold_ids [OF fold this] show ?thesis
      unfolding new ids_change_def using n(2) by blast
  next
    case Merge
    with change have "m_fragments m = op_fragments op" by (auto simp: change_manifest_def apply_merge_def)
    with Merge op show ?thesis unfolding unnumbered_op_def ids_change_def by (metis imageI subsetD)
  next
    case Restore
    with change show ?thesis by (simp add: change_manifest_def)
  next
    case Clone
    with change show ?thesis by (simp add: change_manifest_def)
  next
    case Other
    with change show ?thesis by (simp add: change_manifest_def)
  qed (use unchanged_ids [OF change] b(1) in \<open>auto intro: ids_change_kept [of _ "\<lambda>_. True"]\<close>)
qed

lemma change_max:
  assumes "change_manifest c limits s v (Some b) op (start_manifest (Some b) op) = Inr m" and "op_kind op \<noteq> ReserveFragments"
  shows "m_has_max_fragment_id m = m_has_max_fragment_id b \<and> m_max_fragment_id m = m_max_fragment_id b"
proof (cases "op_kind op")
  case Append
  with assms(1) show ?thesis
    by (auto simp: change_manifest_def apply_append_def sbind_eq_Inr dest!: stamp_added_ids)
next
  case Update
  with assms(1) show ?thesis
    by (auto simp: change_manifest_def apply_update_def sbind_eq_Inr Let_def dest!: stamp_added_ids)
next
  case Overwrite
  with assms(1) show ?thesis
    by (auto simp: change_manifest_def dest: overwrite_result(2,3))
next
  case DataOverlay
  with assms(1) show ?thesis by (auto simp: change_manifest_def dest: overlay_ids_kept)
next
  case DataReplacement
  with assms(1) show ?thesis by (auto simp: change_manifest_def dest: replacement_ids_kept)
next
  case UpdateBases
  with assms(1) show ?thesis by (auto simp: change_manifest_def apply_update_bases_def sbind_eq_Inr write_base_paths_def)
next
  case CreateIndex
  with assms(1) show ?thesis by (auto simp: change_manifest_def apply_create_index_def sbind_eq_Inr Let_def)
next
  case UpdateConfig
  with assms(1) show ?thesis by (auto simp: change_manifest_def apply_update_config_def sbind_eq_Inr)
next
  case Rewrite
  with assms(1) show ?thesis by (auto simp: change_manifest_def apply_rewrite_def sbind_eq_Inr Let_def)
qed (use assms in \<open>auto simp: change_manifest_def apply_delete_def apply_merge_def apply_project_def Let_def\<close>)

lemma finish_max:
  fixes s m
  assumes "\<And>f. f \<in> set (m_fragments m) \<Longrightarrow> unat (fr_id f) < 2 ^ 32"
  defines "m' \<equiv> finish_manifest s m"
  shows "m_has_max_fragment_id m' \<longleftrightarrow> m_has_max_fragment_id m \<or> m_fragments m \<noteq> []"
    "f \<in> set (m_fragments m) \<Longrightarrow> fr_id f \<le> ucast (m_max_fragment_id m')"
    "m_has_max_fragment_id m \<Longrightarrow> m_max_fragment_id m \<le> m_max_fragment_id m'"
proof -
  let ?start = "if m_has_max_fragment_id m then ucast (m_max_fragment_id m) else 0 :: u64"
  let ?max = "foldl (\<lambda>n f. max n (fr_id f)) ?start (map (drop_files only_tombstones) (sort_key fr_id (m_fragments m)))"
  have bound: "unat (foldl (\<lambda>n f. max n (fr_id f)) n fs) < 2 ^ 32"
    if "unat n < 2 ^ 32" "\<forall>f \<in> set fs. unat (fr_id f) < 2 ^ 32" for n fs
    using that by (induction fs arbitrary: n) (auto simp: max_def)
  have small: "unat ?max < 2 ^ 32"
    using assms(1) unat_u32 [of "m_max_fragment_id m"] by (intro bound) (auto simp: unat_ucast_up)
  have empty: "sort_key fr_id xs = [] \<longleftrightarrow> xs = []" for xs
    by (metis length_0_conv length_sort)
  have max': "m_has_max_fragment_id m' = (m_has_max_fragment_id m \<or> m_fragments m \<noteq> [])"
    "m_has_max_fragment_id m \<or> m_fragments m \<noteq> [] \<Longrightarrow> m_max_fragment_id m' = ucast ?max"
    by (auto simp: m'_def finish_manifest_def raise_max_fragment_id_def Let_def empty)
  then show "m_has_max_fragment_id m' \<longleftrightarrow> m_has_max_fragment_id m \<or> m_fragments m \<noteq> []" by simp
  have cast: "ucast (m_max_fragment_id m') = ?max" if "m_has_max_fragment_id m \<or> m_fragments m \<noteq> []"
    unfolding max'(2) [OF that] using small by (simp add: ucast_ucast_small)
  show "fr_id f \<le> ucast (m_max_fragment_id m')" if "f \<in> set (m_fragments m)"
  proof -
    have "fr_id (drop_files only_tombstones f) \<le> ?max" using that by (intro foldl_max_mem) simp
    moreover have "m_fragments m \<noteq> []" using that by auto
    ultimately show ?thesis using cast by simp
  qed
  assume has: "m_has_max_fragment_id m"
  have "?start \<le> ?max" by (rule foldl_max_ge)
  with has cast have "unat (m_max_fragment_id m) \<le> unat (ucast (m_max_fragment_id m') :: u64)"
    by (simp add: word_le_nat_alt unat_ucast_up)
  then show "m_max_fragment_id m \<le> m_max_fragment_id m'" by (simp add: word_le_nat_alt unat_ucast_up)
qed

lemma commit_step:
  assumes "apply_operation c limits (Some b) op enable v = Some (Inr m')" and "numbered b" and "unnumbered_op b op"
  shows "numbered m' \<and> (m_has_max_fragment_id b \<longrightarrow> m_has_max_fragment_id m' \<and> m_max_fragment_id b \<le> m_max_fragment_id m') \<and>
    (\<forall>f \<in> set (m_fragments m'). fr_id f \<in> fr_id ` set (m_fragments b) \<or> (m_has_max_fragment_id b \<longrightarrow> ucast (m_max_fragment_id b) < fr_id f))"
  using assms(1)
proof (rule apply_operationE)
  fix s m
  assume change: "change_manifest c limits s v (Some b) op (start_manifest (Some b) op) = Inr m"
    and m': "m' = finish_manifest s m"
  have below: "fr_id f < next_fragment_id b" if "f \<in> set (m_fragments b)" for f
  proof (rule next_fragment_id_above [OF that])
    have "unat (fr_id f) \<le> unat (ucast (m_max_fragment_id b) :: u64)"
      using assms(2) that by (auto simp: numbered_def word_le_nat_alt)
    then have "unat (fr_id f) < 2 ^ 32" using unat_u32 [of "m_max_fragment_id b"] by (simp add: unat_ucast_up)
    then show "fr_id f \<noteq> - 1" by (auto simp: unsigned_minus_1_eq_mask mask_eq_exp_minus_1)
  qed
  have ids: "ids_change b (next_fragment_id b) (length (added_fragments op)) m"
    using assms(2) below by (intro changed_ids [OF change _ _ assms(3)]) (auto simp: numbered_def)
  have small: "unat (fr_id f) < 2 ^ 32" if "f \<in> set (m_fragments m)" for f
  proof (cases "fr_id f \<in> fr_id ` set (m_fragments b)")
    case True
    then obtain g where "g \<in> set (m_fragments b)" "fr_id f = fr_id g" by auto
    then have "unat (fr_id f) < unat (next_fragment_id b)" using below by (simp add: word_less_nat_alt)
    then show ?thesis using assms(3) by (simp add: unnumbered_op_def)
  next
    case False
    then show ?thesis using ids that assms(3) by (auto simp: ids_change_def unnumbered_op_def)
  qed
  note fin = finish_max [of m, OF small, where s = s, folded m']
  have frags: "m_fragments m' = map (drop_files only_tombstones) (sort_key fr_id (m_fragments m))"
    unfolding m' by (rule finish_fragments)
  have "numbered m'"
    unfolding numbered_def
  proof (intro conjI ballI)
    have "mset (map fr_id (m_fragments m')) = mset (map fr_id (m_fragments m))" unfolding frags by (simp add: comp_def mset_map)
    then show "distinct (map fr_id (m_fragments m'))"
      using ids mset_eq_imp_distinct_iff unfolding ids_change_def by blast
    show "m_has_max_fragment_id m' \<or> m_fragments m' = []" using fin(1) unfolding frags by (cases "m_fragments m = []") simp_all
    show "fr_id f \<le> ucast (m_max_fragment_id m')" if "f \<in> set (m_fragments m')" for f
      using that fin(2) unfolding frags by auto
  qed
  moreover have "m_has_max_fragment_id m' \<and> m_max_fragment_id b \<le> m_max_fragment_id m'" if "m_has_max_fragment_id b"
  proof (cases "op_kind op = ReserveFragments")
    case True
    with change have "m = apply_reserve b op (start_manifest (Some b) op)" by (simp add: change_manifest_def)
    then have m: "m_has_max_fragment_id m" "m_max_fragment_id m = ucast (ucast (m_max_fragment_id b) + op_reserve op)"
      using that by (simp_all add: apply_reserve_def)
    have room: "unat (m_max_fragment_id b) + unat (op_reserve op) < 2 ^ 32"
      using assms(3) True that by (simp add: unnumbered_op_def)
    then have "unat (ucast (m_max_fragment_id b) + op_reserve op :: u64) = unat (m_max_fragment_id b) + unat (op_reserve op)"
      by (subst unat_plus_u64) (simp_all add: unat_ucast_up)
    then have "unat (m_max_fragment_id m) = unat (m_max_fragment_id b) + unat (op_reserve op)"
      unfolding m(2) using room by (simp add: unsigned_ucast_eq take_bit_nat_eq_self)
    then have "m_max_fragment_id b \<le> m_max_fragment_id m" by (simp add: word_le_nat_alt)
    with fin(1,3) m(1) show ?thesis by auto
  next
    case False
    with change_max [OF change False] that fin(1,3) show ?thesis by auto
  qed
  moreover have "fr_id f \<in> fr_id ` set (m_fragments b) \<or> (m_has_max_fragment_id b \<longrightarrow> ucast (m_max_fragment_id b) < fr_id f)"
    if "f \<in> set (m_fragments m')" for f
  proof -
    from that obtain g where "g \<in> set (m_fragments m)" "fr_id f = fr_id g" unfolding frags by auto
    with ids have "fr_id f \<in> fr_id ` set (m_fragments b) \<or> next_fragment_id b \<le> fr_id f" by (auto simp: ids_change_def)
    with next_fragment_id_mark [of b] show ?thesis by (meson less_le_trans)
  qed
  ultimately show ?thesis by blast
qed

text \<open>A dataset that was created by an overwrite and changed by operations that leave numbering to the commit.\<close>

inductive committed :: "codecs \<Rightarrow> read_limits \<Rightarrow> manifest \<Rightarrow> bool" for c limits where
  created: "apply_operation c limits None op enable v = Some (Inr m) \<Longrightarrow> length (op_fragments op) < 2 ^ 32 \<Longrightarrow> committed c limits m"
| changed: "committed c limits b \<Longrightarrow> unnumbered_op b op \<Longrightarrow> apply_operation c limits (Some b) op enable v = Some (Inr m) \<Longrightarrow>
    committed c limits m"

inductive later :: "codecs \<Rightarrow> read_limits \<Rightarrow> manifest \<Rightarrow> manifest \<Rightarrow> bool" for c limits m where
  same: "later c limits m m"
| commit: "later c limits m b \<Longrightarrow> unnumbered_op b op \<Longrightarrow> apply_operation c limits (Some b) op enable v = Some (Inr m') \<Longrightarrow>
    later c limits m m'"

lemma created_numbered:
  assumes "apply_operation c limits None op enable v = Some (Inr m')" and "length (op_fragments op) < 2 ^ 32"
  shows "numbered m'"
  using assms(1)
proof (rule apply_operationE)
  fix s m
  assume check: "check_operation None op = Some (Inr ())" and m': "m' = finish_manifest s m"
    and change: "change_manifest c limits s v None op (start_manifest None op) = Inr m"
  from check have "op_kind op = Overwrite" by (auto simp: check_operation_def split: if_splits)
  with change have ids: "map fr_id (m_fragments m) = map fr_id (number_all (op_fragments op) 0)"
    by (simp add: change_manifest_def overwrite_result(1))
  have room: "unat (0 :: u64) + length (op_fragments op) < 2 ^ 64" using assms(2) by simp
  note n = number_all_distinct [OF room]
  have small: "unat (fr_id f) < 2 ^ 32" if "f \<in> set (m_fragments m)" for f
  proof -
    have "fr_id f \<in> fr_id ` set (number_all (op_fragments op) 0)"
      using arg_cong [OF ids, of set] that by auto
    from n(2) [OF this] assms(2) show ?thesis by simp
  qed
  note fin = finish_max [of m, OF small, where s = s, folded m']
  have frags: "m_fragments m' = map (drop_files only_tombstones) (sort_key fr_id (m_fragments m))"
    unfolding m' by (rule finish_fragments)
  show ?thesis
    unfolding numbered_def
  proof (intro conjI ballI)
    have "mset (map fr_id (m_fragments m')) = mset (map fr_id (m_fragments m))" unfolding frags by (simp add: comp_def mset_map)
    then show "distinct (map fr_id (m_fragments m'))"
      using n(1) mset_eq_imp_distinct_iff unfolding ids by blast
    show "m_has_max_fragment_id m' \<or> m_fragments m' = []"
      using fin(1) unfolding frags by (cases "m_fragments m = []") simp_all
    show "fr_id f \<le> ucast (m_max_fragment_id m')" if "f \<in> set (m_fragments m')" for f
      using that fin(2) unfolding frags by auto
  qed
qed

lemma committed_numbered: "committed c limits m \<Longrightarrow> numbered m"
  by (induction rule: committed.induct) (use created_numbered commit_step in blast)+

lemma later_ids:
  assumes "later c limits m m'" and "numbered m" and "m_has_max_fragment_id m"
  shows "numbered m' \<and> m_has_max_fragment_id m' \<and> m_max_fragment_id m \<le> m_max_fragment_id m' \<and>
    (\<forall>f \<in> set (m_fragments m'). fr_id f \<in> fr_id ` set (m_fragments m) \<or> ucast (m_max_fragment_id m) < fr_id f)"
  using assms
proof (induction rule: later.induct)
  case (commit b op enable v m')
  then have ih: "numbered b" "m_has_max_fragment_id b" "m_max_fragment_id m \<le> m_max_fragment_id b"
    "\<And>f. f \<in> set (m_fragments b) \<Longrightarrow> fr_id f \<in> fr_id ` set (m_fragments m) \<or> ucast (m_max_fragment_id m) < fr_id f"
    by auto
  note step = commit_step [OF commit.hyps(3) ih(1) commit.hyps(2)]
  have le: "(ucast (m_max_fragment_id m) :: u64) \<le> ucast (m_max_fragment_id b)"
    using ih(3) by (simp add: word_le_nat_alt unat_ucast_up)
  have "fr_id f \<in> fr_id ` set (m_fragments m) \<or> ucast (m_max_fragment_id m) < fr_id f" if "f \<in> set (m_fragments m')" for f
  proof -
    from step that ih(2) consider "fr_id f \<in> fr_id ` set (m_fragments b)" | "ucast (m_max_fragment_id b) < fr_id f" by blast
    then show ?thesis
    proof cases
      case 1
      then show ?thesis using ih(4) by (metis imageE)
    next
      case 2
      with le show ?thesis by (auto intro: le_less_trans)
    qed
  qed
  with step ih show ?case by (auto intro: order_trans)
qed auto


definition example_codecs :: codecs where
  "example_codecs = \<lparr>decode_data_file_message = (\<lambda>_. None), encode_data_fragment = (\<lambda>f. bytes_of (concat (map df_path (fr_files f)))),
     make_index_metadata = (\<lambda>uuid cols name version ids url index_version at files details. new_index\<lparr>ix_uuid := uuid, ix_fields := cols,
       ix_name := name, ix_dataset_version := version, ix_has_bitmap := True, ix_fragment_ids := ids, ix_details_type_url := url,
       ix_version := index_version, ix_created_at := at, ix_files := files, ix_details_value := details\<rparr>)\<rparr>"

text \<open>A dataset of two fragments, the second of them deleted, a third appended.\<close>

definition example_create :: operation where
  "example_create = (new_operation Overwrite)\<lparr>op_fragments := [new_fragment\<lparr>fr_rows := 3\<rparr>, new_fragment\<lparr>fr_rows := 2\<rparr>]\<rparr>"

definition example_remove :: operation where
  "example_remove = (new_operation Delete)\<lparr>op_removed_ids := [1]\<rparr>"

definition example_append :: operation where
  "example_append = (new_operation Append)\<lparr>op_fragments := [new_fragment\<lparr>fr_rows := 4\<rparr>]\<rparr>"

definition example_next :: "manifest option \<Rightarrow> operation \<Rightarrow> manifest" where
  "example_next b op = projr (the (apply_operation example_codecs initial_read_limits b op False 1))"

lemma example_nextI:
  assumes "map_option isl (apply_operation example_codecs initial_read_limits b op False 1) = Some False"
  shows "apply_operation example_codecs initial_read_limits b op False 1 = Some (Inr (example_next b op))"
  using assms by (auto simp: example_next_def Inr_projr)

theorem committed_manifest_finished_witness:
  "let m = example_next None example_create
   in map fr_id (m_fragments m) = [0, 1] \<and> sorted (map fr_id (m_fragments m)) \<and> m_reader_flags m AND kFlagDeletionFiles = 0"
proof -
  define m where "m = example_next None example_create"
  have "apply_operation example_codecs initial_read_limits None example_create False 1 = Some (Inr m)"
    unfolding m_def by (rule example_nextI) code_simp
  note finished = committed_manifest_finished [OF this]
  have "map fr_id (m_fragments m) = [0, 1]" "map (del_present \<circ> fr_deletion) (m_fragments m) = [False, False]"
    unfolding m_def by code_simp+
  then have "\<not> (\<exists>f \<in> set (m_fragments m). del_present (fr_deletion f))"
    using arg_cong [of _ _ set] by (metis (mono_tags, lifting) comp_apply imageI list.set_map empty_iff insertE list.set(1) list.set(2))
  with finished \<open>map fr_id (m_fragments m) = [0, 1]\<close> show ?thesis
    unfolding m_def [symmetric] Let_def by blast
qed


text \<open>Reserving fragment ids past 32 bits wraps the recorded maximum: of a
  dataset that has given out ids up to 5, a reservation of \<open>2 ^ 32 - 1\<close> more leaves a maximum of 4, and the
  next fragment takes the id 5 again.\<close>

lemma reserve_wraps_maximum:
  "let b = new_manifest\<lparr>m_has_max_fragment_id := True, m_max_fragment_id := 5\<rparr>;
       m = projr (the (apply_operation c limits (Some b) ((new_operation ReserveFragments)\<lparr>op_reserve := 0xFFFFFFFF\<rparr>) False v))
   in next_fragment_id b = 6 \<and> m_max_fragment_id m = 4 \<and> next_fragment_id m = 5"
proof -
  let ?b = "new_manifest\<lparr>m_has_max_fragment_id := True, m_max_fragment_id := 5\<rparr>"
  let ?op = "(new_operation ReserveFragments)\<lparr>op_reserve := 0xFFFFFFFF\<rparr>"
  let ?m = "apply_reserve ?b ?op ?b"
  have start: "start_manifest (Some ?b) ?op = ?b" by (simp add: start_manifest_def new_operation_def)
  have "apply_operation c limits (Some ?b) ?op False v = Some (Inr (finish_manifest False ?m))"
    unfolding apply_operation_def start
    by (simp add: check_operation_def change_manifest_def new_operation_def stable_row_ids_def new_manifest_def Let_def)
  moreover have "m_fragments ?m = []" "m_indices ?m = []" "m_has_max_fragment_id ?m" "m_max_fragment_id ?m = 4"
    by (simp_all add: apply_reserve_def new_operation_def new_manifest_def)
  then have "m_fragments (finish_manifest False ?m) = []" "m_max_fragment_id (finish_manifest False ?m) = 4"
    "m_has_max_fragment_id (finish_manifest False ?m)"
    by (simp_all add: finish_manifest_def raise_max_fragment_id_def Let_def)
  ultimately show ?thesis
    by (simp add: next_fragment_id_def first_fragment_id_after_indices_def apply_reserve_def Let_def new_manifest_def)
qed

end
