(* ===== verification/Deletion_Merge.thy ===== *)
theory Deletion_Merge
  imports Transaction_Invariants Commit_Conflicts
begin

text \<open>
  Merging concurrent deletions (\<open>src/src/dataset/dataset.cpp\<close>): when two writers deleted rows of the same
  fragment, the later one's deletion file becomes the union of both, unless they deleted the same row.
  The dataset's files and the clock are arguments (\<open>io_env\<close>).
\<close>

subsection \<open>Set algorithms of the standard library on ascending ranges\<close>

fun set_union :: "'a::linorder list \<Rightarrow> 'a list \<Rightarrow> 'a list" where
  "set_union [] ys = ys"
| "set_union xs [] = xs"
| "set_union (x # xs) (y # ys) =
     (if x < y then x # set_union xs (y # ys)
      else if y < x then y # set_union (x # xs) ys
      else x # set_union xs ys)"

fun set_intersection :: "'a::linorder list \<Rightarrow> 'a list \<Rightarrow> 'a list" where
  "set_intersection [] ys = []"
| "set_intersection xs [] = []"
| "set_intersection (x # xs) (y # ys) =
     (if x < y then set_intersection xs (y # ys)
      else if y < x then set_intersection (x # xs) ys
      else x # set_intersection xs ys)"

lemma set_set_union [simp]: "set (set_union xs ys) = set xs \<union> set ys"
  by (induction xs ys rule: set_union.induct) auto

lemma sorted_set_union: "sorted_wrt (<) xs \<Longrightarrow> sorted_wrt (<) ys \<Longrightarrow> sorted_wrt (<) (set_union xs ys)"
  by (induction xs ys rule: set_union.induct) (auto dest: less_trans)

lemma set_set_intersection: "sorted_wrt (<) xs \<Longrightarrow> sorted_wrt (<) ys \<Longrightarrow> set (set_intersection xs ys) = set xs \<inter> set ys"
  by (induction xs ys rule: set_intersection.induct) auto

subsection \<open>Conflict messages\<close>

definition is_conflict :: "string \<Rightarrow> bool" where
  "is_conflict error = (take (length ''commit conflict'') error = ''commit conflict'')"

definition retryable_error :: "u64 \<Rightarrow> string \<Rightarrow> string \<Rightarrow> string" where
  "retryable_error version ours theirs =
     ''commit conflict: Retryable commit conflict for version '' @ to_string (unat version) @ '': This '' @ ours @
     '' transaction was preempted by concurrent transaction '' @ theirs @ '' at version '' @ to_string (unat version) @
     ''. Please retry.''"

lemma retryable_is_conflict: "is_conflict (retryable_error version ours theirs)"
  by (simp add: is_conflict_def retryable_error_def)

subsection \<open>Merging one fragment\<close>

record io_env =
  env_path :: string
  env_open :: file_reader
  env_zstd :: zstd
  env_limits :: read_limits
  env_write :: "string \<Rightarrow> u32 list \<Rightarrow> unit result"
  env_entropy :: "u64 \<Rightarrow> u64 \<times> u64 \<times> u64"

definition same_deletion_file :: "deletion_file \<Rightarrow> deletion_file \<Rightarrow> bool" where
  "same_deletion_file a b =
     (del_present a = del_present b \<and> del_type a = del_type b \<and> del_read_version a = del_read_version b \<and>
      del_id a = del_id b \<and> del_num_rows a = del_num_rows b \<and> del_unknown a = del_unknown b)"

definition fragment_by_id :: "manifest \<Rightarrow> u64 \<Rightarrow> data_fragment option" where
  "fragment_by_id m i = find (\<lambda>f. fr_id f = i) (m_fragments m)"

lemma fragment_by_id_Some: "fragment_by_id m i = Some f \<Longrightarrow> f \<in> set (m_fragments m) \<and> i = fr_id f"
  by (auto simp: fragment_by_id_def find_Some_iff)

definition both_modified_error :: "string \<Rightarrow> string \<Rightarrow> u64 \<Rightarrow> u64 \<Rightarrow> u32 list \<Rightarrow> string" where
  "both_modified_error ours_name theirs_name latest_version i both =
     ''commit conflict: This '' @ ours_name @ '' transaction was preempted by concurrent transaction '' @ theirs_name @
     '' at version '' @ to_string (unat latest_version) @ '' (both modified rows at addresses ['' @
     comma_list (map (\<lambda>offset. push_bit 32 i OR ucast offset) (take 5 both)) @ '']). Please retry.''"

text \<open>The rows already deleted and the change's own, merged; nothing to merge (the empty list) when nobody
  changed the fragment's deletion file.\<close>

definition merge_fragment ::
  "io_env \<Rightarrow> manifest \<Rightarrow> manifest \<Rightarrow> u64 \<Rightarrow> (u64 \<rightharpoonup> u32 list) \<Rightarrow> string \<Rightarrow> string \<Rightarrow> u64 \<Rightarrow> u32 list result" where
  "merge_fragment env base latest latest_version affected ours_name theirs_name i =
     (case (fragment_by_id base i, fragment_by_id latest i) of
        (Some was, Some now) \<Rightarrow>
          if same_deletion_file (fr_deletion was) (fr_deletion now) then Inr []
          else sbind (read_manifest_deletion_vector (env_open env) (env_zstd env) (env_limits env) (env_path env) latest i
                 (fr_deletion now)) (\<lambda>existing.
            let ours_rows = remdups_adj (sort (case affected i of None \<Rightarrow> [] | Some rows \<Rightarrow> rows));
                both = set_intersection existing ours_rows
            in if both \<noteq> [] then Inl (both_modified_error ours_name theirs_name latest_version i both)
               else Inr (set_union existing ours_rows))
      | _ \<Rightarrow> Inl (retryable_error latest_version ours_name theirs_name))"

subsection \<open>Merging an operation\<close>

definition merge_updated_step ::
  "io_env \<Rightarrow> manifest \<Rightarrow> manifest \<Rightarrow> u64 \<Rightarrow> (u64 \<rightharpoonup> u32 list) \<Rightarrow> string \<Rightarrow> string \<Rightarrow>
   u64 list \<times> data_fragment list \<Rightarrow> data_fragment \<Rightarrow> (u64 list \<times> data_fragment list) result" where
  "merge_updated_step env base latest latest_version affected ours_name theirs_name = (\<lambda>(removed, kept) f.
     sbind (merge_fragment env base latest latest_version affected ours_name theirs_name (fr_id f)) (\<lambda>merged.
     if merged = [] then Inr (removed, kept @ [f])
     else if length merged \<ge> unat (fr_rows (the (fragment_by_id latest (fr_id f)))) then Inr (removed @ [fr_id f], kept)
     else let (now, counter, random) = env_entropy env (fr_id f) in
       sbind (write_deletion_file (env_write env) now counter random (env_path env) (fr_id f) latest_version merged) (\<lambda>file.
       Inr (removed, kept @ [f\<lparr>fr_deletion := file\<rparr>]))))"

definition merge_deletion_vectors ::
  "io_env \<Rightarrow> manifest \<Rightarrow> manifest \<Rightarrow> u64 \<Rightarrow> (u64 \<rightharpoonup> u32 list) \<Rightarrow> string \<Rightarrow> operation \<Rightarrow> operation result" where
  "merge_deletion_vectors env base latest latest_version affected theirs_name mine =
     (let ours_name = operation_name (op_kind mine) in
      sbind (sfold (\<lambda>_ i. sbind (merge_fragment env base latest latest_version affected ours_name theirs_name i) (\<lambda>_. Inr ()))
        () (op_removed_ids mine)) (\<lambda>_.
      sbind (sfold (merge_updated_step env base latest latest_version affected ours_name theirs_name)
        (op_removed_ids mine, []) (op_updated_fragments mine)) (\<lambda>(removed, kept).
      Inr (mine\<lparr>op_removed_ids := removed, op_updated_fragments := kept\<rparr>))))"

subsection \<open>What a merge keeps\<close>

text \<open>The storage gives back what was written: the bytes at a path a column was written to parse as that column.\<close>

definition writes_read_back :: "io_env \<Rightarrow> bool" where
  "writes_read_back env \<longleftrightarrow> (\<forall>path rows. env_write env path rows = Inr () \<longrightarrow>
     (\<exists>bytes. env_open env path = Some (Some bytes) \<and>
        parse_arrow_ipc_uint32_column (env_zstd env) (env_limits env) bytes (of_nat (length rows)) = Inr rows))"

lemma length_u32_distinct:
  assumes "sorted_wrt (<) (xs :: u32 list)"
  shows "length xs < 2 ^ 64"
proof -
  have "length xs = card (set xs)" using assms by (simp add: distinct_card strict_sorted_iff)
  also have "\<dots> \<le> card (UNIV :: u32 set)" by (rule card_mono) simp_all
  also have "\<dots> < 2 ^ 64" by (simp add: card_word)
  finally show ?thesis .
qed

lemma read_manifest_ascending:
  "read_manifest_deletion_vector op z limits path m i file = Inr rows \<Longrightarrow> sorted_wrt (<) rows"
  by (auto simp: read_manifest_deletion_vector_def sbind_eq_Inr intro: read_deletion_vector_ascending)

lemma merged_file_read:
  assumes "writes_read_back env" and "sorted_wrt (<) rows"
    and "write_deletion_file (env_write env) now counter random (env_path env) i version rows = Inr file"
  shows "read_manifest_deletion_vector (env_open env) (env_zstd env) (env_limits env) (env_path env) m i file = Inr rows"
proof -
  have "read_deletion_vector (env_open env) (env_zstd env) (env_limits env) (path_join (env_path env) ''_deletions'') i file = Inr rows"
    using assms(1) unfolding writes_read_back_def
    by (intro written_file_read [OF assms(3) _ assms(2) length_u32_distinct [OF assms(2)]]) blast
  moreover have "del_unknown file = []"
    using assms(3) by (auto simp: write_deletion_file_def sbind_eq_Inr Let_def no_deletion_file_def)
  then have "deletion_file_base_id file = Inr None"
    by (simp add: deletion_file_base_id_def find_varint_def pr.fields_Nil)
  ultimately show ?thesis
    by (simp add: read_manifest_deletion_vector_def deletion_file_dir_def deletion_dir_def)
qed

text \<open>The rows a change deletes in a fragment.\<close>

definition own_rows :: "(u64 \<rightharpoonup> u32 list) \<Rightarrow> u64 \<Rightarrow> u32 set" where
  "own_rows affected i = (case affected i of None \<Rightarrow> {} | Some rows \<Rightarrow> set rows)"

lemma merge_fragment_union:
  assumes "merge_fragment env base latest lv affected ours theirs i = Inr merged"
    and "fragment_by_id base i = Some was" and "fragment_by_id latest i = Some now"
    and "\<not> same_deletion_file (fr_deletion was) (fr_deletion now)"
  obtains existing where
    "read_manifest_deletion_vector (env_open env) (env_zstd env) (env_limits env) (env_path env) latest i (fr_deletion now) = Inr existing"
    "set existing \<inter> own_rows affected i = {}" "set merged = set existing \<union> own_rows affected i" "sorted_wrt (<) merged"
proof -
  let ?rows = "remdups_adj (sort (case affected i of None \<Rightarrow> [] | Some rows \<Rightarrow> rows))"
  from assms obtain existing where ex:
    "read_manifest_deletion_vector (env_open env) (env_zstd env) (env_limits env) (env_path env) latest i (fr_deletion now) = Inr existing"
    and "set_intersection existing ?rows = []" and m: "merged = set_union existing ?rows"
    by (auto simp: merge_fragment_def sbind_eq_Inr Let_def split: if_splits)
  have asc: "sorted_wrt (<) existing" "sorted_wrt (<) ?rows"
    using read_manifest_ascending [OF ex] strict_sorted_remdups_adj by auto
  have own: "set ?rows = own_rows affected i" by (simp add: own_rows_def split: option.splits)
  have "set existing \<inter> own_rows affected i = {}"
    using set_set_intersection [OF asc] \<open>set_intersection existing ?rows = []\<close> own by simp
  with ex m own sorted_set_union [OF asc] show ?thesis by (intro that [of existing]) simp_all
qed

lemma merge_fold:
  assumes "sfold (merge_updated_step env base latest lv affected ours theirs) (removed, kept) fs = Inr (removed', kept')"
  shows "\<exists>r k. removed' = removed @ r \<and> kept' = kept @ k \<and> set r \<subseteq> fr_id ` set fs \<and> fr_id ` set k \<subseteq> fr_id ` set fs"
  using assms
proof (induction fs arbitrary: removed kept)
  case (Cons f fs)
  then obtain r1 k1 where step: "merge_updated_step env base latest lv affected ours theirs (removed, kept) f = Inr (r1, k1)"
    and rest: "sfold (merge_updated_step env base latest lv affected ours theirs) (r1, k1) fs = Inr (removed', kept')"
    by (auto simp: sbind_eq_Inr)
  from step have "(r1 = removed \<and> (\<exists>g. k1 = kept @ [g] \<and> fr_id g = fr_id f)) \<or> (r1 = removed @ [fr_id f] \<and> k1 = kept)"
    by (auto simp: merge_updated_step_def sbind_eq_Inr Let_def split: if_splits prod.splits)
  then show ?case using Cons.IH [OF rest] by fastforce
qed simp

lemma filter_no_id: "i \<notin> fr_id ` set k \<Longrightarrow> filter (\<lambda>g. fr_id g = i) k = []"
  by (induction k) auto

lemma merged_operation:
  assumes merge: "merge_deletion_vectors env base latest lv affected theirs_name mine = Inr mine'"
    and f: "f \<in> set (op_updated_fragments mine)" "distinct (map fr_id (op_updated_fragments mine))"
      "fr_id f \<notin> set (op_removed_ids mine)"
    and was: "fragment_by_id base (fr_id f) = Some was" and now: "fragment_by_id latest (fr_id f) = Some now"
    and changed: "\<not> same_deletion_file (fr_deletion was) (fr_deletion now)" and own: "own_rows affected (fr_id f) \<noteq> {}"
    and env: "writes_read_back env"
  obtains existing where
    "read_manifest_deletion_vector (env_open env) (env_zstd env) (env_limits env) (env_path env) latest (fr_id f) (fr_deletion now) = Inr existing"
    "set existing \<inter> own_rows affected (fr_id f) = {}"
    "mine' = mine\<lparr>op_removed_ids := op_removed_ids mine', op_updated_fragments := op_updated_fragments mine'\<rparr>"
    "(fr_id f \<notin> set (op_removed_ids mine') \<and>
        (\<exists>file rows. filter (\<lambda>g. fr_id g = fr_id f) (op_updated_fragments mine') = [f\<lparr>fr_deletion := file\<rparr>] \<and>
          set rows = set existing \<union> own_rows affected (fr_id f) \<and>
          (\<forall>m. read_manifest_deletion_vector (env_open env) (env_zstd env) (env_limits env) (env_path env) m (fr_id f) file = Inr rows))) \<or>
     (fr_id f \<in> set (op_removed_ids mine') \<and> unat (fr_rows now) \<le> card (set existing \<union> own_rows affected (fr_id f)))"
proof -
  let ?step = "merge_updated_step env base latest lv affected (operation_name (op_kind mine)) theirs_name"
  let ?i = "fr_id f"
  from merge obtain r' k' where fold: "sfold ?step (op_removed_ids mine, []) (op_updated_fragments mine) = Inr (r', k')"
    and mine': "mine' = mine\<lparr>op_removed_ids := r', op_updated_fragments := k'\<rparr>"
    by (auto simp: merge_deletion_vectors_def sbind_eq_Inr Let_def)
  from f(1) obtain as bs where fs: "op_updated_fragments mine = as @ f # bs" by (meson split_list)
  with f(2) have other: "?i \<notin> fr_id ` set as" "?i \<notin> fr_id ` set bs" by auto
  from fold obtain r1 k1 r2 k2 where a: "sfold ?step (op_removed_ids mine, []) as = Inr (r1, k1)"
    and step: "?step (r1, k1) f = Inr (r2, k2)" and b: "sfold ?step (r2, k2) bs = Inr (r', k')"
    unfolding fs sfold_append by (auto simp: sbind_eq_Inr)
  have before: "?i \<notin> set r1" "?i \<notin> fr_id ` set k1" using merge_fold [OF a] other(1) f(3) by auto
  have none: "filter (\<lambda>g. fr_id g = ?i) k1 = []" using before(2) by (rule filter_no_id)
  from merge_fold [OF b] obtain r3 k3 where after: "r' = r2 @ r3" "k' = k2 @ k3"
    and sub: "set r3 \<subseteq> fr_id ` set bs" "fr_id ` set k3 \<subseteq> fr_id ` set bs" by blast
  have later_none: "?i \<notin> set r3" "filter (\<lambda>g. fr_id g = ?i) k3 = []"
    using sub other(2) by (auto intro: filter_no_id)
  from step obtain merged where mf: "merge_fragment env base latest lv affected (operation_name (op_kind mine)) theirs_name ?i = Inr merged"
    by (auto simp: merge_updated_step_def sbind_eq_Inr)
  from merge_fragment_union [OF mf was now changed] obtain existing where ex:
    "read_manifest_deletion_vector (env_open env) (env_zstd env) (env_limits env) (env_path env) latest ?i (fr_deletion now) = Inr existing"
    "set existing \<inter> own_rows affected ?i = {}" "set merged = set existing \<union> own_rows affected ?i" "sorted_wrt (<) merged" .
  then have "merged \<noteq> []" using own by auto
  with step mf now consider
      (all) "unat (fr_rows now) \<le> length merged" "r2 = r1 @ [?i]" "k2 = k1"
    | (some) df t c x where "write_deletion_file (env_write env) t c x (env_path env) ?i lv merged = Inr df" "r2 = r1" "k2 = k1 @ [f\<lparr>fr_deletion := df\<rparr>]"
    by (auto simp: merge_updated_step_def sbind_eq_Inr Let_def split: if_splits prod.splits)
  then show ?thesis
  proof cases
    case all
    have "length merged = card (set merged)" using ex(4) by (simp add: distinct_card strict_sorted_iff)
    with all ex(3) after mine' have "?i \<in> set (op_removed_ids mine') \<and> unat (fr_rows now) \<le> card (set existing \<union> own_rows affected ?i)"
      by simp
    with ex mine' show ?thesis by (intro that [of existing]) simp_all
  next
    case some
    have "?i \<notin> set (op_removed_ids mine')" using before(1) some(2) after later_none mine' by simp
    moreover have "filter (\<lambda>g. fr_id g = ?i) (op_updated_fragments mine') = [f\<lparr>fr_deletion := df\<rparr>]"
      using none after later_none some(3) mine' by simp
    ultimately show ?thesis
      using ex mine' merged_file_read [OF env ex(4) some(1)] by (intro that [of existing]) auto
  qed
qed

lemma last_by_id_filter:
  "last_by_id fs i = (if filter (\<lambda>g. fr_id g = i) fs = [] then None else Some (last (filter (\<lambda>g. fr_id g = i) fs)))"
  by (induction fs rule: rev_induct) (auto simp: last_by_id_def)

lemma merge_kind: "merge_deletion_vectors env base latest lv affected theirs_name mine = Inr mine' \<Longrightarrow> op_kind mine' = op_kind mine"
  by (auto simp: merge_deletion_vectors_def sbind_eq_Inr Let_def)

lemma rebase_delete_total:
  assumes "op_kind op = Delete"
  shows "rebase_operation c limits latest ours op theirs v = Some (Inr (projr (the (rebase_operation c limits latest ours op theirs v))))"
  using assms
  by (simp add: rebase_operation_def apply_operation_def check_operation_def change_manifest_def renumber_def Let_def)

lemma rebased_delete:
  assumes "rebase_operation c limits latest ours op theirs v = Some (Inr m)" and "op_kind op = Delete"
  shows "m_fragments m = map (drop_files only_tombstones)
      (sort_key fr_id (replace_fragments (op_removed_ids op) (last_by_id (op_updated_fragments op)) (m_fragments latest)))"
proof -
  from assms have "apply_operation c limits (Some latest) op False v = Some (Inr m)"
    by (auto simp: rebase_operation_def renumber_def sbind_eq_Inr)
  then obtain s m1 where "change_manifest c limits s v (Some latest) op (start_manifest (Some latest) op) = Inr m1"
    "m = finish_manifest s m1" by (rule apply_operationE)
  with assms(2) show ?thesis by (auto simp: change_manifest_def apply_delete_def finish_fragments)
qed

text \<open>C6: when a delete is rebased over another writer's change to the deletion
  file of a fragment both delete from, the rows deleted by the other are disjoint from its own, and
  the fragment of the new version has a deletion file that reads as the rows of both, or is gone
  because together they leave none of its rows.\<close>

theorem concurrent_deletes_kept:
  assumes "merge_deletion_vectors env base latest latest_version affected theirs_name mine = Inr mine'"
    and "op_kind mine = Delete" and "rebase_operation c limits latest ours mine' theirs new_version = Some (Inr m)"
    and "f \<in> set (op_updated_fragments mine)" and "distinct (map fr_id (op_updated_fragments mine))"
    and "fr_id f \<notin> set (op_removed_ids mine)"
    and "fragment_by_id base (fr_id f) = Some was" and "fragment_by_id latest (fr_id f) = Some now"
    and "\<not> same_deletion_file (fr_deletion was) (fr_deletion now)" and "own_rows affected (fr_id f) \<noteq> {}"
    and "writes_read_back env"
  shows "\<exists>existing.
    read_manifest_deletion_vector (env_open env) (env_zstd env) (env_limits env) (env_path env) latest (fr_id f) (fr_deletion now) = Inr existing \<and>
    set existing \<inter> own_rows affected (fr_id f) = {} \<and>
    (((\<exists>g \<in> set (m_fragments m). fr_id g = fr_id f) \<and>
      (\<forall>g \<in> set (m_fragments m). fr_id g = fr_id f \<longrightarrow> (\<exists>rows. set rows = set existing \<union> own_rows affected (fr_id f) \<and>
         read_manifest_deletion_vector (env_open env) (env_zstd env) (env_limits env) (env_path env) m (fr_id f) (fr_deletion g) = Inr rows))) \<or>
     ((\<forall>g \<in> set (m_fragments m). fr_id g \<noteq> fr_id f) \<and> unat (fr_rows now) \<le> card (set existing \<union> own_rows affected (fr_id f))))"
  using assms(1,4-11)
proof (rule merged_operation)
  fix existing
  let ?i = "fr_id f"
  let ?read = "\<lambda>m. read_manifest_deletion_vector (env_open env) (env_zstd env) (env_limits env) (env_path env) m ?i"
  assume ex: "?read latest (fr_deletion now) = Inr existing" "set existing \<inter> own_rows affected ?i = {}"
    and mine': "mine' = mine\<lparr>op_removed_ids := op_removed_ids mine', op_updated_fragments := op_updated_fragments mine'\<rparr>"
    and cases: "(?i \<notin> set (op_removed_ids mine') \<and>
        (\<exists>df rows. filter (\<lambda>g. fr_id g = ?i) (op_updated_fragments mine') = [f\<lparr>fr_deletion := df\<rparr>] \<and>
          set rows = set existing \<union> own_rows affected ?i \<and> (\<forall>m. ?read m df = Inr rows))) \<or>
     (?i \<in> set (op_removed_ids mine') \<and> unat (fr_rows now) \<le> card (set existing \<union> own_rows affected ?i))"
  have "op_kind mine' = Delete" using assms(2) by (subst mine') simp
  note frags = rebased_delete [OF assms(3) this]
  let ?kept = "replace_fragments (op_removed_ids mine') (last_by_id (op_updated_fragments mine')) (m_fragments latest)"
  have mem: "g \<in> set (m_fragments m) \<longleftrightarrow> (\<exists>h \<in> set ?kept. g = drop_files only_tombstones h)" for g
    unfolding frags by auto
  have same: "fr_id ` set (m_fragments m) = fr_id ` set ?kept" unfolding frags by (simp add: image_image)
  have ids: "fr_id ` set ?kept = {i \<in> fr_id ` set (m_fragments latest). i \<notin> set (op_removed_ids mine')}"
    using arg_cong [OF replace_fragments_ids [OF by_id(1)], where f = set] by auto
  have there: "?i \<in> fr_id ` set (m_fragments latest)"
    using fragment_by_id_Some [OF assms(8)] by auto
  from cases show ?thesis
  proof
    assume "?i \<in> set (op_removed_ids mine') \<and> unat (fr_rows now) \<le> card (set existing \<union> own_rows affected ?i)"
    moreover from this ids have "?i \<notin> fr_id ` set ?kept" by auto
    then have "\<forall>g \<in> set (m_fragments m). fr_id g \<noteq> ?i" unfolding same [symmetric] by (auto simp: image_iff)
    ultimately show ?thesis using ex by blast
  next
    assume "?i \<notin> set (op_removed_ids mine') \<and>
        (\<exists>df rows. filter (\<lambda>g. fr_id g = ?i) (op_updated_fragments mine') = [f\<lparr>fr_deletion := df\<rparr>] \<and>
          set rows = set existing \<union> own_rows affected ?i \<and> (\<forall>m. ?read m df = Inr rows))"
    then obtain df rows where kept: "?i \<notin> set (op_removed_ids mine')"
      and flt: "filter (\<lambda>g. fr_id g = ?i) (op_updated_fragments mine') = [f\<lparr>fr_deletion := df\<rparr>]"
      and rows: "set rows = set existing \<union> own_rows affected ?i" "\<And>m. ?read m df = Inr rows" by blast
    from kept ids there have "?i \<in> fr_id ` set ?kept" by auto
    then have "\<exists>g \<in> set (m_fragments m). fr_id g = ?i" unfolding same [symmetric] by (auto simp: image_iff)
    moreover have "fr_deletion g = df" if g: "g \<in> set (m_fragments m)" "fr_id g = ?i" for g
    proof -
      from g mem obtain h where h: "h \<in> set ?kept" "g = drop_files only_tombstones h" by blast
      then obtain x where x: "x \<in> set (m_fragments latest)"
        "h = (case last_by_id (op_updated_fragments mine') (fr_id x) of None \<Rightarrow> x | Some y \<Rightarrow> y)"
        by (auto simp: replace_fragments_def)
      have "fr_id x = fr_id h" using x(2) by_id(1) by (auto split: option.splits)
      then have "fr_id x = ?i" using h(2) g(2) by simp
      then have "h = f\<lparr>fr_deletion := df\<rparr>" using x(2) flt by (simp add: last_by_id_filter)
      with h(2) show ?thesis by simp
    qed
    ultimately show ?thesis using ex rows by blast
  qed
qed

text \<open>A fragment of ten rows; another writer deleted row 3, this change deletes row 5.\<close>

definition example_env :: io_env where
  "example_env = \<lparr>env_path = ''d'', env_open = (\<lambda>path. Some (Some (if last path = CHR ''n'' then encode [3] else example_ipc))),
     env_zstd = no_zstd, env_limits = initial_read_limits,
     env_write = (\<lambda>path rows. if rows = [3, 5] \<and> last path \<noteq> CHR ''n'' then Inr () else Inl ''not written''),
     env_entropy = (\<lambda>_. (1, 2, 3))\<rparr>"

definition example_version :: "deletion_file \<Rightarrow> manifest" where
  "example_version file = new_manifest\<lparr>m_fragments := [new_fragment\<lparr>fr_id := 4, fr_rows := 10, fr_deletion := file\<rparr>]\<rparr>"

definition example_deleted :: deletion_file where
  "example_deleted = no_deletion_file\<lparr>del_present := True, del_type := 1, del_id := 7, del_num_rows := 1\<rparr>"

definition example_delete_row :: operation where
  "example_delete_row = (new_operation Delete)\<lparr>op_updated_fragments :=
     [new_fragment\<lparr>fr_id := 4, fr_rows := 10, fr_deletion := no_deletion_file\<lparr>del_present := True, del_id := 9, del_num_rows := 1\<rparr>\<rparr>]\<rparr>"

lemma example_read:
  "read_manifest_deletion_vector (env_open example_env) (env_zstd example_env) (env_limits example_env) (env_path example_env)
     (example_version example_deleted) 4 example_deleted = Inr [3]"
proof -
  have "decode (encode [3]) = Inr [3]" by (simp add: decode_def rb.dec_enc_whole)
  then have "parse_roaring_bitmap initial_read_limits (encode [3]) 1 = Inr [3]"
    by (rule parse_decoded) (simp add: value_budget_def)
  then show ?thesis
    by (simp add: read_manifest_deletion_vector_def deletion_file_dir_def deletion_file_base_id_def find_varint_def pr.fields_Nil
        deletion_dir_def read_deletion_vector_def example_env_def example_deleted_def no_deletion_file_def path_join_def
        deletion_file_name_def)
qed

lemma example_writes_read_back: "writes_read_back example_env"
  using parse_example_ipc by (simp add: writes_read_back_def example_env_def)

theorem concurrent_deletes_kept_witness:
  "\<exists>existing.
    read_manifest_deletion_vector (env_open example_env) (env_zstd example_env) (env_limits example_env) (env_path example_env)
      (example_version example_deleted) 4 example_deleted = Inr existing \<and> set existing \<inter> own_rows [4 \<mapsto> [5]] 4 = {}"
proof -
  let ?merged = "merge_deletion_vectors example_env (example_version no_deletion_file) (example_version example_deleted) 2
    [4 \<mapsto> [5]] ''Delete'' example_delete_row"
  let ?f = "new_fragment\<lparr>fr_id := 4, fr_rows := 10, fr_deletion := no_deletion_file\<lparr>del_present := True, del_id := 9, del_num_rows := 1\<rparr>\<rparr>"
  let ?rebased = "rebase_operation example_codecs initial_read_limits (example_version example_deleted) new_manifest (projr ?merged) [] 3"
  have frag: "fragment_by_id (example_version df) 4 = Some (new_fragment\<lparr>fr_id := 4, fr_rows := 10, fr_deletion := df\<rparr>)" for df
    by (simp add: fragment_by_id_def example_version_def)
  have changed: "\<not> same_deletion_file no_deletion_file example_deleted"
    by (simp add: same_deletion_file_def example_deleted_def no_deletion_file_def)
  obtain df where written: "write_deletion_file (env_write example_env) 1 2 3 (env_path example_env) 4 2 [3, 5] = Inr df"
    by (simp add: write_deletion_file_def example_env_def Let_def path_join_def)
  have "\<not> isl ?merged"
    using example_read changed written
    by (auto simp: merge_deletion_vectors_def example_delete_row_def new_operation_def merge_updated_step_def merge_fragment_def frag
        example_env_def)
  then have merged: "?merged = Inr (projr ?merged)" by (rule Inr_projr)
  have rebased: "?rebased = Some (Inr (projr (the ?rebased)))"
    using rebase_delete_total merge_kind [OF merged] by (auto simp: example_delete_row_def new_operation_def)
  have f: "?f \<in> set (op_updated_fragments example_delete_row)" "distinct (map fr_id (op_updated_fragments example_delete_row))"
    "fr_id ?f \<notin> set (op_removed_ids example_delete_row)" "op_kind example_delete_row = Delete"
    by (simp_all add: example_delete_row_def new_operation_def)
  from concurrent_deletes_kept [OF merged f(4) rebased f(1-3), where was = "new_fragment\<lparr>fr_id := 4, fr_rows := 10, fr_deletion := no_deletion_file\<rparr>" and now = "new_fragment\<lparr>fr_id := 4, fr_rows := 10, fr_deletion := example_deleted\<rparr>"] frag changed example_writes_read_back
  show ?thesis by (auto simp: own_rows_def)
qed

end
