(* ===== verification/Operation_Codec.thy ===== *)
theory Operation_Codec
  imports Manifest Proto_Wire
begin

text \<open>
  Decoding the operation of a transaction (\<open>src/src/table/dataset_operation.cpp\<close>): the file's own protobuf
  reader \<open>WireReader\<close>, the decoder of every kind of operation, and finding the operation in a transaction file.

  The encoders and decoders of fragments, schema fields, indices and data files are the protobuf codec of
  \<open>lance_minimal.pb.cpp\<close>, which rests on a third-party library: they are the parameter \<open>message_codecs\<close>.
\<close>

subsection \<open>The reader\<close>

text \<open>\<open>WireReader::varint\<close>: the loop's \<open>shift\<close> and \<open>out\<close> are arguments.\<close>

fun wire_varint :: "nat \<Rightarrow> u64 \<Rightarrow> byte list \<Rightarrow> (u64 \<times> byte list) option" where
  "wire_varint shift out [] = None"
| "wire_varint shift out (b # rest) =
     (if shift < 64 then
        let out' = out OR push_bit shift (ucast (b AND 0x7F)) in
        if b AND 0x80 = 0 then Some (out', rest) else wire_varint (shift + 7) out' rest
      else None)"

text \<open>\<open>WireReader::next\<close>: every field starts from a default \<open>WireField\<close>, so the one before does not matter. A fixed-width
  field has its number in \<open>value\<close> and no data.\<close>

definition fixed_width :: "field \<Rightarrow> nat \<Rightarrow> byte list \<Rightarrow> next_result" where
  "fixed_width f n r = (if length r < n then Malformed else Next (f\<lparr>f_value := le_word (take n r)\<rparr>) (drop n r))"

definition wire_next :: "field \<Rightarrow> byte list \<Rightarrow> next_result" where
  "wire_next _ bs =
     (if bs = [] then AtEnd
      else case wire_varint 0 0 bs of
        None \<Rightarrow> Malformed
      | Some (key, r) \<Rightarrow>
          let wire = ucast (key AND 7);
              f = empty_field\<lparr>f_number := ucast (drop_bit 3 key), f_wire := wire\<rparr>
          in if wire = 0 then
               (case wire_varint 0 0 r of None \<Rightarrow> Malformed | Some (v, r') \<Rightarrow> Next (f\<lparr>f_value := v\<rparr>) r')
             else if wire = 1 then fixed_width f 8 r
             else if wire = 2 then
               (case wire_varint 0 0 r of
                  None \<Rightarrow> Malformed
                | Some (n, r') \<Rightarrow> if unat n > length r' then Malformed
                    else Next (f\<lparr>f_data := Some (take (unat n) r')\<rparr>) (drop (unat n) r'))
             else if wire = 5 then fixed_width f 4 r
             else Malformed)"

text \<open>\<open>while (r.next(f))\<close>: the fields, and whether the message ended cleanly.\<close>

definition wire_fields :: "byte list \<Rightarrow> field list \<times> bool" where
  "wire_fields = read_fields wire_next empty_field"

definition wf_bytes :: "field \<Rightarrow> byte list" where
  "wf_bytes f = (case f_data f of None \<Rightarrow> [] | Some d \<Rightarrow> d)"

definition wf_text :: "field \<Rightarrow> string" where
  "wf_text f = text_of (wf_bytes f)"

text \<open>The fields of a nested message, whose clean end is not looked at.\<close>

definition nested :: "field \<Rightarrow> field list" where
  "nested f = fst (wire_fields (wf_bytes f))"

function read_varints :: "byte list \<Rightarrow> u64 list" where
  "read_varints bs =
     (case wire_varint 0 0 bs of
        None \<Rightarrow> []
      | Some (v, r) \<Rightarrow> if length r < length bs then v # read_varints r else [])"
  by pat_completeness auto
termination
  by (relation "measure length") auto

declare read_varints.simps [simp del]

definition append_varints :: "field \<Rightarrow> u64 list \<Rightarrow> u64 list" where
  "append_varints f out = (if f_wire f = 0 then out @ [f_value f] else out @ read_varints (wf_bytes f))"

subsection \<open>Decoding an operation\<close>

record message_codecs =
  pb_decode_fragment :: "byte list \<Rightarrow> data_fragment option"
  pb_decode_field :: "byte list \<Rightarrow> pb_field option"
  pb_decode_index :: "byte list \<Rightarrow> index_metadata option"
  pb_decode_file :: "byte list \<Rightarrow> data_file option"
  pb_encode_fragment :: "data_fragment \<Rightarrow> byte list"
  pb_encode_field :: "pb_field \<Rightarrow> byte list"
  pb_encode_index :: "index_metadata \<Rightarrow> byte list"

definition decode_fragment :: "message_codecs \<Rightarrow> field \<Rightarrow> data_fragment result" where
  "decode_fragment c f =
     need ''Invalid user input: a fragment of the transaction could not be decoded'' (pb_decode_fragment c (wf_bytes f))"

definition decode_fields :: "message_codecs \<Rightarrow> field list \<Rightarrow> pb_field list result" where
  "decode_fields c protos = sfold (\<lambda>out p.
     sbind (need ''Invalid user input: a schema field of the transaction could not be decoded'' (pb_decode_field c (wf_bytes p)))
       (\<lambda>x. Inr (out @ [x]))) [] protos"

definition map_entry :: "field \<Rightarrow> string \<times> byte list" where
  "map_entry f = foldl (\<lambda>(k, v) e.
     if f_number e = 1 then (wf_text e, v) else if f_number e = 2 then (k, wf_bytes e) else (k, v)) ([], []) (nested f)"

definition update_entry :: "field \<Rightarrow> string \<times> string option" where
  "update_entry e = foldl (\<lambda>(k, v) kv.
     if f_number kv = 1 then (wf_text kv, v) else if f_number kv = 2 then (k, Some (wf_text kv)) else (k, v)) ([], None) (nested e)"

definition empty_update_map :: update_map where
  "empty_update_map = \<lparr>um_entries = [], um_replace = False\<rparr>"

definition decode_update_map :: "field \<Rightarrow> update_map" where
  "decode_update_map f = foldl (\<lambda>out e.
     if f_number e = 1 then out\<lparr>um_entries := um_entries out @ [update_entry e]\<rparr>
     else if f_number e = 2 then out\<lparr>um_replace := f_value e \<noteq> 0\<rparr> else out) empty_update_map (nested f)"

definition uuid_of :: "field \<Rightarrow> byte list \<Rightarrow> byte list" where
  "uuid_of f out = (case find (\<lambda>e. f_number e = 1 \<and> length (wf_bytes e) = 16) (nested f) of
     None \<Rightarrow> out | Some e \<Rightarrow> wf_bytes e)"

definition decode_append :: "message_codecs \<Rightarrow> operation \<Rightarrow> field \<Rightarrow> operation result" where
  "decode_append c op f =
     (if f_number f = 1 then sbind (decode_fragment c f) (\<lambda>x. Inr (op\<lparr>op_fragments := op_fragments op @ [x]\<rparr>)) else Inr op)"

definition decode_delete :: "message_codecs \<Rightarrow> operation \<Rightarrow> field \<Rightarrow> operation result" where
  "decode_delete c op f =
     (if f_number f = 1 then sbind (decode_fragment c f) (\<lambda>x. Inr (op\<lparr>op_updated_fragments := op_updated_fragments op @ [x]\<rparr>))
      else if f_number f = 2 then Inr (op\<lparr>op_removed_ids := append_varints f (op_removed_ids op)\<rparr>)
      else Inr op)"

text \<open>The schema is collected first and decoded at the end.\<close>

definition decode_table :: "message_codecs \<Rightarrow> operation \<times> field list \<Rightarrow> field \<Rightarrow> (operation \<times> field list) result" where
  "decode_table c = (\<lambda>(op, schema) f.
     if f_number f = 1 then sbind (decode_fragment c f) (\<lambda>x. Inr (op\<lparr>op_fragments := op_fragments op @ [x]\<rparr>, schema))
     else if f_number f = 2 then Inr (op, schema @ [f])
     else if f_number f = 3 then
       let (k, v) = map_entry f
       in Inr (op\<lparr>op_has_schema_metadata := True, op_schema_metadata := map_insert k v (op_schema_metadata op)\<rparr>, schema)
     else if f_number f = 4 then
       (if op_kind op = Overwrite then
          let (k, v) = map_entry f in Inr (op\<lparr>op_config_upserts := map_put k (text_of v) (op_config_upserts op)\<rparr>, schema)
        else Inr (op\<lparr>op_preserves_nullability := f_value f \<noteq> 0\<rparr>, schema))
     else if f_number f = 5 \<and> op_kind op = Overwrite then
       Inr (op\<lparr>op_initial_bases := op_initial_bases op @ [wf_bytes f]\<rparr>, schema)
     else Inr (op, schema))"

definition decode_project :: "operation \<times> field list \<Rightarrow> field \<Rightarrow> operation \<times> field list" where
  "decode_project = (\<lambda>(op, schema) f.
     if f_number f = 1 then (op, schema @ [f])
     else if f_number f = 2 then (op\<lparr>op_preserves_nullability := f_value f \<noteq> 0\<rparr>, schema)
     else (op, schema))"

definition decode_create_index :: "message_codecs \<Rightarrow> operation \<Rightarrow> field \<Rightarrow> operation result" where
  "decode_create_index c op f =
     (if f_number f = 1 \<or> f_number f = 2 then
        sbind (need ''Invalid user input: an index of the transaction could not be decoded'' (pb_decode_index c (wf_bytes f))) (\<lambda>index.
        Inr (if f_number f = 1 then op\<lparr>op_new_indices := op_new_indices op @ [index]\<rparr>
             else op\<lparr>op_removed_indices := op_removed_indices op @ [index]\<rparr>))
      else Inr op)"

definition offsets_entry :: "field \<Rightarrow> u64 \<times> byte list" where
  "offsets_entry f = foldl (\<lambda>(k, v) e.
     let (k, v) = (if f_number e = 1 then (f_value e, v) else (k, v))
     in if f_number e = 2 then (k, wf_bytes e) else (k, v)) (0, []) (nested f)"

definition decode_update :: "message_codecs \<Rightarrow> operation \<Rightarrow> field \<Rightarrow> operation result" where
  "decode_update c op f =
     (if f_number f = 1 then Inr (op\<lparr>op_removed_ids := append_varints f (op_removed_ids op)\<rparr>)
      else if f_number f = 2 then
        sbind (decode_fragment c f) (\<lambda>x. Inr (op\<lparr>op_updated_fragments := op_updated_fragments op @ [x]\<rparr>))
      else if f_number f = 3 then sbind (decode_fragment c f) (\<lambda>x. Inr (op\<lparr>op_fragments := op_fragments op @ [x]\<rparr>))
      else if f_number f = 4 then Inr (op\<lparr>op_fields_modified := append_varints f (op_fields_modified op)\<rparr>)
      else if f_number f = 7 then Inr (op\<lparr>op_rewrite_columns := f_value f = 1\<rparr>)
      else if f_number f = 10 then
        Inr (op\<lparr>op_updated_fragment_offsets := op_updated_fragment_offsets op @ [offsets_entry f]\<rparr>)
      else Inr op)"

definition empty_group :: rewrite_group where
  "empty_group = \<lparr>rg_old = [], rg_new = []\<rparr>"

definition decode_group :: "message_codecs \<Rightarrow> field \<Rightarrow> rewrite_group result" where
  "decode_group c f = sfold (\<lambda>group g.
     if f_number g = 1 then sbind (decode_fragment c g) (\<lambda>x. Inr (group\<lparr>rg_old := rg_old group @ [x]\<rparr>))
     else if f_number g = 2 then sbind (decode_fragment c g) (\<lambda>x. Inr (group\<lparr>rg_new := rg_new group @ [x]\<rparr>))
     else Inr group) empty_group (nested f)"

definition decode_details :: "rewritten_index \<Rightarrow> field \<Rightarrow> rewritten_index" where
  "decode_details ri g = foldl (\<lambda>ri a.
     if f_number a = 1 then ri\<lparr>ri_details_type_url := wf_text a\<rparr>
     else if f_number a = 2 then ri\<lparr>ri_details_value := wf_bytes a\<rparr> else ri) ri (nested g)"

definition decode_rewritten_index :: "field \<Rightarrow> rewritten_index" where
  "decode_rewritten_index f = foldl (\<lambda>ri g.
     if f_number g = 1 then ri\<lparr>ri_old_id := uuid_of g (ri_old_id ri)\<rparr>
     else if f_number g = 2 then ri\<lparr>ri_new_id := uuid_of g (ri_new_id ri)\<rparr>
     else if f_number g = 3 then decode_details ri g
     else if f_number g = 4 then ri\<lparr>ri_index_version := ucast (f_value g)\<rparr> else ri)
     \<lparr>ri_old_id = replicate 16 0, ri_new_id = replicate 16 0, ri_details_type_url = [], ri_details_value = [], ri_index_version = 0\<rparr>
     (nested f)"

text \<open>Fields 1 and 2 are the deprecated single group.\<close>

definition decode_rewrite :: "message_codecs \<Rightarrow> operation \<Rightarrow> field \<Rightarrow> operation result" where
  "decode_rewrite c op f =
     (if f_number f = 1 \<or> f_number f = 2 then
        let groups = (if op_groups op = [] then [empty_group] else op_groups op); group = hd groups in
        sbind (decode_fragment c f) (\<lambda>x.
        Inr (op\<lparr>op_groups := (if f_number f = 1 then group\<lparr>rg_old := rg_old group @ [x]\<rparr>
                              else group\<lparr>rg_new := rg_new group @ [x]\<rparr>) # tl groups\<rparr>))
      else if f_number f = 3 then sbind (decode_group c f) (\<lambda>g. Inr (op\<lparr>op_groups := op_groups op @ [g]\<rparr>))
      else if f_number f = 4 then Inr (op\<lparr>op_rewritten_indices := op_rewritten_indices op @ [decode_rewritten_index f]\<rparr>)
      else Inr op)"

definition field_metadata_entry :: "field \<Rightarrow> int \<times> update_map" where
  "field_metadata_entry f = foldl (\<lambda>(i, m) e.
     if f_number e = 1 then (sint (ucast (f_value e) :: u32), m)
     else if f_number e = 2 then (i, decode_update_map e) else (i, m)) (0, empty_update_map) (nested f)"

definition push_entry :: "string \<times> string option \<Rightarrow> update_map \<Rightarrow> update_map" where
  "push_entry e u = u\<lparr>um_entries := um_entries u @ [e]\<rparr>"

text \<open>Fields 1 to 3 are the deprecated upserts, deletions and replacements of the same maps.\<close>

definition decode_update_config :: "operation \<Rightarrow> field \<Rightarrow> operation" where
  "decode_update_config op f =
     (if f_number f = 6 then op\<lparr>op_config_updates := Some (decode_update_map f)\<rparr>
      else if f_number f = 7 then op\<lparr>op_table_metadata_updates := Some (decode_update_map f)\<rparr>
      else if f_number f = 8 then op\<lparr>op_schema_metadata_updates := Some (decode_update_map f)\<rparr>
      else if f_number f = 9 then
        let (i, m) = field_metadata_entry f in op\<lparr>op_field_metadata_updates := map_put i m (op_field_metadata_updates op)\<rparr>
      else if f_number f = 1 then
        let (k, v) = map_entry f; u = (case op_config_updates op of None \<Rightarrow> empty_update_map | Some u \<Rightarrow> u)
        in op\<lparr>op_config_updates := Some (push_entry (k, Some (text_of v)) u)\<rparr>
      else if f_number f = 2 then
        let u = (case op_config_updates op of None \<Rightarrow> empty_update_map | Some u \<Rightarrow> u)
        in op\<lparr>op_config_updates := Some (push_entry (wf_text f, None) u)\<rparr>
      else if f_number f = 3 then
        let (k, v) = map_entry f;
            u = (case op_schema_metadata_updates op of None \<Rightarrow> empty_update_map\<lparr>um_replace := True\<rparr> | Some u \<Rightarrow> u)
        in op\<lparr>op_schema_metadata_updates := Some (push_entry (k, Some (text_of v)) u)\<rparr>
      else op)"

definition replacement_group :: "message_codecs \<Rightarrow> field \<Rightarrow> u64 \<times> data_file option" where
  "replacement_group c f = foldl (\<lambda>(i, file) g.
     if f_number g = 1 then (f_value g, file)
     else if f_number g = 2 then (i, pb_decode_file c (wf_bytes g)) else (i, file)) (0, None) (nested f)"

definition decode_data_replacement :: "message_codecs \<Rightarrow> operation \<Rightarrow> field \<Rightarrow> operation result" where
  "decode_data_replacement c op f =
     (if f_number f = 1 then
        case replacement_group c f of
          (_, None) \<Rightarrow> Inl ''Invalid user input: a DataReplacementGroup has no new file''
        | (i, Some new_file) \<Rightarrow> Inr (op\<lparr>op_replacements := op_replacements op @ [(i, new_file)]\<rparr>)
      else Inr op)"

definition overlay_group :: "field \<Rightarrow> u64 \<times> byte list list" where
  "overlay_group f = foldl (\<lambda>(i, os) g.
     if f_number g = 1 then (f_value g, os)
     else if f_number g = 2 then (i, os @ [wf_bytes g]) else (i, os)) (0, []) (nested f)"

definition decode_data_overlay :: "operation \<Rightarrow> field \<Rightarrow> operation" where
  "decode_data_overlay op f =
     (if f_number f = 1 then op\<lparr>op_overlay_groups := op_overlay_groups op @ [overlay_group f]\<rparr> else op)"

text \<open>The switch of the field loop, over the operation decoded so far and the schema fields met.\<close>

definition decode_step :: "message_codecs \<Rightarrow> operation \<times> field list \<Rightarrow> field \<Rightarrow> (operation \<times> field list) result" where
  "decode_step c = (\<lambda>(op, schema) f.
     let keep = (\<lambda>r. sbind r (\<lambda>op. Inr (op, schema))) in
     case op_kind op of
       Append \<Rightarrow> keep (decode_append c op f)
     | Delete \<Rightarrow> keep (decode_delete c op f)
     | Overwrite \<Rightarrow> decode_table c (op, schema) f
     | Merge \<Rightarrow> decode_table c (op, schema) f
     | Project \<Rightarrow> Inr (decode_project (op, schema) f)
     | CreateIndex \<Rightarrow> keep (decode_create_index c op f)
     | Restore \<Rightarrow> Inr (if f_number f = 1 then op\<lparr>op_restore_version := f_value f\<rparr> else op, schema)
     | ReserveFragments \<Rightarrow> Inr (if f_number f = 1 then op\<lparr>op_reserve := f_value f\<rparr> else op, schema)
     | Update \<Rightarrow> keep (decode_update c op f)
     | Rewrite \<Rightarrow> keep (decode_rewrite c op f)
     | UpdateBases \<Rightarrow> Inr (if f_number f = 1 then op\<lparr>op_new_bases := op_new_bases op @ [wf_bytes f]\<rparr> else op, schema)
     | UpdateConfig \<Rightarrow> Inr (decode_update_config op f, schema)
     | DataReplacement \<Rightarrow> keep (decode_data_replacement c op f)
     | DataOverlay \<Rightarrow> Inr (decode_data_overlay op f, schema)
     | k \<Rightarrow> Inl (''LanceDataset.commit of '' @ operation_name k @ '' is not supported''))"

fun decodes :: "kind \<Rightarrow> bool" where
  "decodes Clone = False"
| "decodes (Other n) = False"
| "decodes k = True"

definition decode_operation :: "message_codecs \<Rightarrow> kind \<Rightarrow> byte list \<Rightarrow> operation result" where
  "decode_operation c k message =
     (if \<not> decodes k then Inl (''LanceDataset.commit of '' @ operation_name k @ '' is not supported'')
      else let (fs, ok) = wire_fields message in
        sbind (sfold (decode_step c) (new_operation k, []) fs) (\<lambda>(op, schema).
        if \<not> ok then Inl ''Invalid user input: the transaction's operation could not be decoded''
        else sbind (decode_fields c schema) (\<lambda>decoded.
          Inr (op\<lparr>op_has_schema := (schema \<noteq> [] \<or> k = Overwrite \<or> k = Merge \<or> k = Project), op_schema := decoded\<rparr>))))"

text \<open>The operation of a transaction file: its field number and its message.\<close>

definition transaction_file_operation :: "byte list \<Rightarrow> (u32 \<times> byte list) result" where
  "transaction_file_operation bytes =
     (let (fs, ok) = wire_fields bytes in
      case find (\<lambda>f. 100 \<le> f_number f \<and> f_number f \<le> 115 \<and> f_wire f = 2) fs of
        Some f \<Rightarrow> Inr (f_number f, wf_bytes f)
      | None \<Rightarrow> Inl (if \<not> ok then ''a transaction file could not be decoded'' else ''a transaction file has no operation''))"

subsection \<open>The reader agrees with the other protobuf reader\<close>

lemma wire_varint_eq: "7 dvd shift \<Longrightarrow> wire_varint shift out bs = varint shift out bs"
proof (induction shift out bs rule: varint.induct)
  case (2 shift out b rest)
  then obtain n where "shift = 7 * n" by (auto elim: dvdE)
  then have "shift < 64 \<longleftrightarrow> shift < 70" by presburger
  with 2 show ?case by (auto simp: Let_def)
qed simp

lemma wire_varint_0 [simp]: "wire_varint 0 0 bs = varint 0 0 bs"
  by (rule wire_varint_eq) simp

lemma wire_next_shrinks: "wire_next f bs = Next g r \<Longrightarrow> length r < length bs"
  by (auto simp: wire_next_def fixed_width_def Let_def split: if_splits option.splits dest!: varint_shorter)
    linarith+

text \<open>The fields a message of the writers is read as.\<close>

definition bytes_item :: "u32 \<Rightarrow> byte list \<Rightarrow> field" where
  "bytes_item n b = empty_field\<lparr>f_number := n, f_wire := 2, f_data := Some b\<rparr>"

definition uint_item :: "u32 \<Rightarrow> u64 \<Rightarrow> field" where
  "uint_item n v = empty_field\<lparr>f_number := n, f_wire := 0, f_value := v\<rparr>"

lemma item_simps [simp]:
  "f_number (bytes_item n b) = n" "f_wire (bytes_item n b) = 2" "wf_bytes (bytes_item n b) = b" "wf_text (bytes_item n b) = text_of b"
  "f_number (uint_item n v) = n" "f_wire (uint_item n v) = 0" "f_value (uint_item n v) = v"
  by (simp_all add: bytes_item_def uint_item_def wf_bytes_def wf_text_def)

lemma wire_next_bytes:
  assumes "length b < 2 ^ 64"
  shows "wire_next f (put_bytes_field n b @ rest) = Next (bytes_item n b) rest"
proof -
  have "unat (of_nat (length b) :: u64) = length b"
    using assms by (simp add: unat_of_nat_small)
  then show ?thesis
    using key_parts [of 2 n] by (simp add: wire_next_def put_bytes_field_def put_key_def Let_def bytes_item_def)
qed

lemma wire_next_u64:
  "v \<noteq> 0 \<Longrightarrow> wire_next f (put_u64_field n v @ rest) = Next (uint_item n v) rest"
  using key_parts [of 0 n] by (simp add: wire_next_def put_u64_field_def put_key_def Let_def uint_item_def)

interpretation wr: field_reader wire_next "\<lambda>_. bytes_item" "\<lambda>_. uint_item"
  by unfold_locales (simp_all add: wire_next_bytes wire_next_u64 wire_next_shrinks, simp add: wire_next_def)

lemma wire_fields_any: "read_fields wire_next f bs = wire_fields bs"
proof -
  have "wire_next f bs = wire_next empty_field bs" by (simp add: wire_next_def)
  then show ?thesis
    by (simp add: wire_fields_def wr.read_fields_unfold [of f bs] wr.read_fields_unfold [of empty_field bs])
qed

lemma wire_fields_simps [codec_simps]:
  "wire_fields [] = ([], True)"
  "length b < 2 ^ 64 \<Longrightarrow> wire_fields (put_bytes_field n b @ rest) = apfst (Cons (bytes_item n b)) (wire_fields rest)"
  "length b < 2 ^ 64 \<Longrightarrow> wire_fields (put_bytes_field n b) = ([bytes_item n b], True)"
  "wire_fields (put_u64_field n v @ rest) = (if v = 0 then wire_fields rest else apfst (Cons (uint_item n v)) (wire_fields rest))"
  "wire_fields (put_u64_field n v) = (if v = 0 then [] else [uint_item n v], True)"
  by (simp_all add: wr.fields_simps [unfolded wire_fields_any])

lemma wire_fields_repeated [codec_simps]:
  assumes "\<forall>b \<in> set bs. length b < 2 ^ 64"
  shows "wire_fields (concat (map (put_bytes_field n) bs) @ rest) = apfst ((@) (map (bytes_item n) bs)) (wire_fields rest)"
  using assms
proof (induction bs)
  case Nil
  show ?case by (cases "wire_fields rest") simp
next
  case (Cons b bs)
  then show ?case by (cases "wire_fields rest") (simp add: wire_fields_simps)
qed

lemma read_varints_packed: "read_varints (concat (map put_varint vs)) = vs"
proof (induction vs)
  case (Cons v vs)
  have "0 < length (put_varint v)" by simp
  with Cons show ?case by (subst read_varints.simps) simp
qed (simp add: read_varints.simps)

end
