(* ===== verification/Transaction_File.thy ===== *)
theory Transaction_File
  imports Operation_Codec Dataset_Transaction
begin

text \<open>
  The transaction file of a commit (\<open>src/src/table/transaction_file.cpp\<close>): the operation read off the change from
  the version before, its message, and the file around it. The properties are that what is written here is what
  \<open>Operation_Codec\<close> reads, and that applying the operation read back makes the same change again.
\<close>

subsection \<open>Protobuf, written by hand\<close>

definition tag :: "u32 \<Rightarrow> u32 \<Rightarrow> byte list" where
  "tag field wire_type = put_varint (ucast (push_bit 3 field OR wire_type))"

definition put_uint :: "u32 \<Rightarrow> u64 \<Rightarrow> byte list" where
  "put_uint field v = (if v \<noteq> 0 then tag field 0 @ put_varint v else [])"

definition put_bytes :: "u32 \<Rightarrow> byte list \<Rightarrow> byte list" where
  "put_bytes field b = tag field 2 @ put_varint (of_nat (length b)) @ b"

definition put_string :: "u32 \<Rightarrow> string \<Rightarrow> byte list" where
  "put_string field s = (if s \<noteq> [] then put_bytes field (bytes_of s) else [])"

definition put_entry :: "u32 \<Rightarrow> string \<Rightarrow> byte list \<Rightarrow> byte list" where
  "put_entry field key v = put_bytes field (put_string 1 key @ put_bytes 2 v)"

definition put_fragments :: "message_codecs \<Rightarrow> u32 \<Rightarrow> data_fragment list \<Rightarrow> byte list" where
  "put_fragments c field fs = concat (map (\<lambda>f. put_bytes field (pb_encode_fragment c f)) fs)"

definition put_schema :: "message_codecs \<Rightarrow> u32 \<Rightarrow> manifest \<Rightarrow> byte list" where
  "put_schema c field m = concat (map (\<lambda>f. put_bytes field (pb_encode_field c f)) (m_fields m))"

definition put_schema_metadata :: "u32 \<Rightarrow> manifest \<Rightarrow> byte list" where
  "put_schema_metadata field m = concat (map (\<lambda>(k, v). put_entry field k v) (m_schema_metadata m))"

text \<open>Entries set a key; an entry without a value removes it.\<close>

definition update_map_bytes :: "(string, string) std_map \<Rightarrow> (string, string) std_map \<Rightarrow> byte list" where
  "update_map_bytes old new =
     concat (map (\<lambda>(k, v). if map_of old k \<noteq> Some v then put_bytes 1 (put_string 1 k @ put_bytes 2 (bytes_of v)) else []) new) @
     concat (map (\<lambda>(k, v). if map_of new k = None then put_bytes 1 (put_string 1 k) else []) old)"

definition packed :: "u64 list \<Rightarrow> byte list" where
  "packed ids = concat (map put_varint ids)"

definition as_strings :: "(string, byte list) std_map \<Rightarrow> (string, string) std_map" where
  "as_strings m = map (\<lambda>(k, v). (k, text_of v)) m"

subsection \<open>Nullability\<close>

definition project_tightens_nullability :: "manifest \<Rightarrow> manifest \<Rightarrow> bool" where
  "project_tightens_nullability old new =
     (let nullable = foldl (\<lambda>m f. m(pf_id f \<mapsto> pf_nullable f)) Map.empty (m_fields old)
      in list_ex (\<lambda>f. nullable (pf_id f) = Some True \<and> \<not> pf_nullable f) (m_fields new))"

definition children :: "manifest \<Rightarrow> int \<Rightarrow> pb_field list" where
  "children m parent = filter (\<lambda>f. pf_parent_id f = parent) (m_fields m)"

definition named_child :: "manifest \<Rightarrow> int \<Rightarrow> pb_field \<Rightarrow> pb_field option" where
  "named_child old parent f = find (\<lambda>x. pf_name x = pf_name f) (children old parent)"

text \<open>Whether anything below the fields \<open>fs\<close> is new, and whether a first new node is not nullable; the loop over the children
  of \<open>new_parent\<close> is the recursion on \<open>fs\<close>. A schema whose ids are not unique may have no leaves: \<open>None\<close> is not returning.\<close>

partial_function (option) subtree :: "manifest \<Rightarrow> manifest \<Rightarrow> int \<Rightarrow> pb_field list \<Rightarrow> (bool \<times> bool) option" where
  "subtree old new old_parent fs =
     (if fs = [] then Some (False, False)
      else case named_child old old_parent (hd fs) of
        None \<Rightarrow>
          Option.bind (subtree old new old_parent (tl fs)) (\<lambda>others. Some (True, \<not> pf_nullable (hd fs) \<or> snd others))
      | Some x \<Rightarrow>
          Option.bind (subtree old new (pf_id x) (children new (pf_id (hd fs)))) (\<lambda>below.
          Option.bind (subtree old new old_parent (tl fs)) (\<lambda>others.
          Some (fst below \<or> fst others, snd below \<or> snd others))))"

fun requires_field :: "manifest \<Rightarrow> manifest \<Rightarrow> pb_field list \<Rightarrow> bool option" where
  "requires_field old new [] = Some False"
| "requires_field old new (f # fs) =
     (case named_child old (- 1) f of
        None \<Rightarrow> if \<not> pf_nullable f then Some True else requires_field old new fs
      | Some x \<Rightarrow>
          Option.bind (subtree old new (pf_id x) (children new (pf_id f))) (\<lambda>(any_new, any_required).
          if any_required \<or> (any_new \<and> \<not> pf_nullable f) then Some True else requires_field old new fs))"

definition merge_introduces_required_field :: "manifest \<Rightarrow> manifest \<Rightarrow> bool option" where
  "merge_introduces_required_field old new = requires_field old new (children new (- 1))"

subsection \<open>The change between two versions\<close>

text \<open>What the loop over the new version's fragments collects.\<close>

record change =
  ch_added :: "data_fragment list"
  ch_changed :: "data_fragment list"
  ch_files_changed :: bool
  ch_fields_modified :: "u32 list"

definition fragments_before :: "message_codecs \<Rightarrow> manifest \<Rightarrow> (u64 \<rightharpoonup> byte list)" where
  "fragments_before c parent = foldl (\<lambda>m f. m(fr_id f \<mapsto> pb_encode_fragment c f)) Map.empty (m_fragments parent)"

definition new_files :: "manifest \<Rightarrow> data_fragment \<Rightarrow> data_file list" where
  "new_files parent f =
     (case find (\<lambda>p. fr_id p = fr_id f) (m_fragments parent) of
        None \<Rightarrow> []
      | Some old \<Rightarrow> filter (\<lambda>x. df_path x \<notin> set (map df_path (fr_files old))) (fr_files f))"

definition change_step :: "message_codecs \<Rightarrow> manifest \<Rightarrow> change \<Rightarrow> data_fragment \<Rightarrow> change" where
  "change_step c parent ch f =
     (case fragments_before c parent (fr_id f) of
        None \<Rightarrow> ch\<lparr>ch_added := ch_added ch @ [f]\<rparr>
      | Some bytes \<Rightarrow>
          if pb_encode_fragment c f = bytes then ch
          else ch\<lparr>ch_changed := ch_changed ch @ [f],
            ch_files_changed := (ch_files_changed ch \<or> new_files parent f \<noteq> []),
            ch_fields_modified := ch_fields_modified ch @
              map (\<lambda>i. word_of_int i) (filter (\<lambda>i. 0 \<le> i) (concat (map df_fields (new_files parent f))))\<rparr>)"

definition change_of :: "message_codecs \<Rightarrow> manifest \<Rightarrow> manifest \<Rightarrow> change" where
  "change_of c parent new = foldl (change_step c parent)
     \<lparr>ch_added = [], ch_changed = [], ch_files_changed = False, ch_fields_modified = []\<rparr> (m_fragments new)"

text \<open>A fragment is kept when the new version has its id.\<close>

definition gone_fragments :: "manifest \<Rightarrow> manifest \<Rightarrow> data_fragment list" where
  "gone_fragments parent new = filter (\<lambda>f. fr_id f \<notin> set (map fr_id (m_fragments new))) (m_fragments parent)"

definition field_metadata_step :: "message_codecs \<Rightarrow> bool \<times> byte list \<Rightarrow> pb_field \<times> pb_field \<Rightarrow> bool \<times> byte list" where
  "field_metadata_step c = (\<lambda>(only, out) (a, b).
     if \<not> only then (only, out)
     else let changes = update_map_bytes (as_strings (pf_metadata a)) (as_strings (pf_metadata b));
              only = (pb_encode_field c (a\<lparr>pf_metadata := []\<rparr>) = pb_encode_field c (b\<lparr>pf_metadata := []\<rparr>))
          in (only, if only \<and> changes \<noteq> []
                    then out @ put_bytes 9 (put_uint 1 (ucast (word_of_int (pf_id b) :: u32)) @ put_bytes 2 changes) else out))"

text \<open>The update of field metadata, when that is all that changed.\<close>

definition field_metadata_change :: "message_codecs \<Rightarrow> manifest \<Rightarrow> manifest \<Rightarrow> byte list option" where
  "field_metadata_change c parent new =
     (if length (m_fields parent) = length (m_fields new) \<and> length (m_fragments parent) = length (m_fragments new) then
        let (only, out) = foldl (field_metadata_step c) (m_schema_metadata parent = m_schema_metadata new, [])
              (zip (m_fields parent) (m_fields new));
            same = list_all2 (\<lambda>a b. pb_encode_fragment c a = pb_encode_fragment c b) (m_fragments parent) (m_fragments new)
        in if only \<and> same then Some out else None
      else None)"

subsection \<open>The operation\<close>

definition overwrite_message :: "message_codecs \<Rightarrow> manifest \<Rightarrow> (string, string) std_map \<Rightarrow> byte list" where
  "overwrite_message c new prior_config =
     put_fragments c 1 (m_fragments new) @ put_schema c 2 new @ put_schema_metadata 3 new @
     concat (map (\<lambda>(k, v). if map_of prior_config k \<noteq> Some v then put_entry 4 k (bytes_of v) else []) (m_config new))"

definition rewrite_message :: "message_codecs \<Rightarrow> manifest \<Rightarrow> manifest \<Rightarrow> change \<Rightarrow> byte list" where
  "rewrite_message c parent new ch =
     put_bytes 3 (put_fragments c 1 (gone_fragments parent new) @
       concat (map (\<lambda>f. put_bytes 1 (the (fragments_before c parent (fr_id f))) @ put_bytes 2 (pb_encode_fragment c f)) (ch_changed ch)) @
       put_fragments c 2 (ch_added ch))"

definition put_packed :: "u32 \<Rightarrow> u64 list \<Rightarrow> byte list" where
  "put_packed field ids = (if ids \<noteq> [] then put_bytes field (packed ids) else [])"

definition delete_message :: "message_codecs \<Rightarrow> change \<Rightarrow> u64 list \<Rightarrow> byte list" where
  "delete_message c ch removed = put_fragments c 1 (ch_changed ch) @ put_packed 2 removed"

definition update_message :: "message_codecs \<Rightarrow> change \<Rightarrow> u64 list \<Rightarrow> byte list" where
  "update_message c ch removed =
     put_packed 1 removed @ put_fragments c 2 (ch_changed ch) @ put_fragments c 3 (ch_added ch) @
     put_packed 4 (map ucast (sort (remdups (ch_fields_modified ch))))"

definition index_messages :: "message_codecs \<Rightarrow> manifest \<Rightarrow> (string \<rightharpoonup> byte list)" where
  "index_messages c m = foldl (\<lambda>t ix. t(uuid_string (ix_uuid ix) \<mapsto> pb_encode_index c ix)) Map.empty (m_indices m)"

definition created_indices :: "message_codecs \<Rightarrow> manifest \<Rightarrow> manifest \<Rightarrow> byte list" where
  "created_indices c parent new =
     concat (map (\<lambda>ix. if index_messages c parent (uuid_string (ix_uuid ix)) \<noteq> Some (pb_encode_index c ix)
                        then put_bytes 1 (pb_encode_index c ix) else []) (m_indices new))"

definition dropped_indices :: "message_codecs \<Rightarrow> manifest \<Rightarrow> manifest \<Rightarrow> byte list" where
  "dropped_indices c parent new =
     concat (map (\<lambda>ix.
       case find (\<lambda>i. uuid_string (ix_uuid i) = uuid_string (ix_uuid ix)) (m_indices new) of
         None \<Rightarrow> put_bytes 2 (pb_encode_index c ix)
       | Some now \<Rightarrow> if pb_encode_index c now \<noteq> pb_encode_index c ix then put_bytes 2 (pb_encode_index c ix) else [])
       (m_indices parent))"

definition put_changes :: "u32 \<Rightarrow> byte list \<Rightarrow> byte list" where
  "put_changes field changes = (if changes \<noteq> [] then put_bytes field changes else [])"

definition config_message :: "manifest \<Rightarrow> manifest \<Rightarrow> byte list \<Rightarrow> byte list" where
  "config_message parent new field_metadata =
     put_changes 6 (update_map_bytes (m_config parent) (m_config new)) @
     put_changes 7 (update_map_bytes (m_table_metadata parent) (m_table_metadata new)) @
     put_changes 8 (update_map_bytes (as_strings (m_schema_metadata parent)) (as_strings (m_schema_metadata new))) @
     field_metadata"

text \<open>The operation from the change: its kind and its message.\<close>

definition derived_change :: "message_codecs \<Rightarrow> manifest \<Rightarrow> manifest \<Rightarrow> (kind \<times> byte list) option" where
  "derived_change c parent new =
     (let ch = change_of c parent new;
          removed = map fr_id (gone_fragments parent new);
          schema_changed = (put_schema c 1 parent \<noteq> put_schema c 1 new);
          field_metadata = (if schema_changed then field_metadata_change c parent new else None);
          schema_changed = (schema_changed \<and> field_metadata = None);
          update = (m_operation new = UpdateTag)
      in if m_operation new = RewriteTag then Some (Rewrite, rewrite_message c parent new ch)
         else if schema_changed then
           (if ch_added ch = [] \<and> removed = [] \<and> \<not> ch_files_changed ch then
              Some (Project, put_schema c 1 new @ put_uint 2 (if project_tightens_nullability parent new then 0 else 1))
            else map_option (\<lambda>required.
              (Merge, put_fragments c 1 (m_fragments new) @ put_schema c 2 new @ put_schema_metadata 3 new @
                put_uint 4 (if required then 0 else 1))) (merge_introduces_required_field parent new))
         else if \<not> update \<and> ch_added ch \<noteq> [] \<and> removed = [] \<and> ch_changed ch = [] then
           Some (Append, put_fragments c 1 (ch_added ch))
         else if \<not> update \<and> ch_added ch = [] \<and> \<not> ch_files_changed ch \<and> (ch_changed ch \<noteq> [] \<or> removed \<noteq> []) then
           Some (Delete, delete_message c ch removed)
         else if update \<or> ch_added ch \<noteq> [] \<or> removed \<noteq> [] \<or> ch_changed ch \<noteq> [] then
           Some (Update, update_message c ch removed)
         else let indices = created_indices c parent new @ dropped_indices c parent new in
           if indices \<noteq> [] then Some (CreateIndex, indices)
           else Some (UpdateConfig, config_message parent new (case field_metadata of None \<Rightarrow> [] | Some b \<Rightarrow> b)))"

definition derive_operation :: "message_codecs \<Rightarrow> manifest option \<Rightarrow> manifest \<Rightarrow> (kind \<times> byte list) option" where
  "derive_operation c parent new =
     (if m_operation new = ReserveTag then Some (ReserveFragments, put_uint 1 (ucast (m_reserved_fragments new)))
      else if m_operation new = AppendTag then
        Some (Append, put_fragments c 1 (drop (m_first_new_fragment new) (m_fragments new)))
      else if m_operation new = RestoreTag then Some (Restore, put_uint 1 (m_restored_version new))
      else case parent of
        None \<Rightarrow> Some (Overwrite, overwrite_message c new [])
      | Some p \<Rightarrow>
          if m_operation new = OverwriteTag then Some (Overwrite, overwrite_message c new (m_config p))
          else derived_change c p new)"

subsection \<open>The file\<close>

fun kind_number :: "kind \<Rightarrow> u32" where
  "kind_number Append = 100"
| "kind_number Delete = 101"
| "kind_number Overwrite = 102"
| "kind_number CreateIndex = 103"
| "kind_number Rewrite = 104"
| "kind_number Merge = 105"
| "kind_number Restore = 106"
| "kind_number ReserveFragments = 107"
| "kind_number Update = 108"
| "kind_number Project = 109"
| "kind_number UpdateConfig = 110"
| "kind_number DataReplacement = 111"
| "kind_number Clone = 113"
| "kind_number UpdateBases = 114"
| "kind_number DataOverlay = 115"
| "kind_number (Other n) = n"

text \<open>The version a commit says it read, and whether its operation is read off the version before.\<close>

definition txn_read_version :: "manifest \<Rightarrow> u64" where
  "txn_read_version new =
     (if m_explicit_operation_field new \<noteq> 0 then m_explicit_read_version new
      else if m_version new > 0 then m_version new - 1 else 0)"

definition needs_parent :: "manifest \<Rightarrow> bool" where
  "needs_parent new = (m_explicit_operation_field new = 0 \<and> m_operation new \<notin> {AppendTag, OverwriteTag, RestoreTag, ReserveTag})"

definition transaction_bytes :: "manifest \<Rightarrow> string \<Rightarrow> u32 \<Rightarrow> byte list \<Rightarrow> byte list" where
  "transaction_bytes new uuid field op =
     put_uint 1 (txn_read_version new) @ put_string 2 uuid @
     concat (map (\<lambda>(k, v). put_bytes 4 (put_string 1 k @ put_string 2 v)) (m_transaction_properties new)) @
     put_bytes field op"

text \<open>\<open>write_transaction_file\<close>, up to writing the bytes: the name of the file and what goes into it. Loading the version before is the
  argument \<open>load\<close>, and the random id is \<open>uuid\<close>. \<open>None\<close>: deriving the operation does not return.\<close>

definition transaction_file :: "message_codecs \<Rightarrow> (u64 \<Rightarrow> manifest result) \<Rightarrow> string \<Rightarrow> manifest \<Rightarrow> (string \<times> byte list) result option" where
  "transaction_file c load uuid new =
     (let read_version = txn_read_version new;
          loaded = (if read_version > 0 \<and> needs_parent new then Some (load read_version) else None);
          name = to_string (unat read_version) @ ''-'' @ uuid @ ''.txn''
      in case loaded of
           Some (Inl e) \<Rightarrow>
             if m_operation new = DeriveTag then
               Some (Inl (''cannot write the transaction of version '' @ to_string (unat (m_version new)) @ '': '' @ e))
             else map_option (\<lambda>(k, op). Inr (name, transaction_bytes new uuid (kind_number k) op)) (derive_operation c None new)
         | _ \<Rightarrow>
             if m_explicit_operation_field new \<noteq> 0 then
               Some (Inr (name, transaction_bytes new uuid (m_explicit_operation_field new) (m_explicit_operation new)))
             else map_option (\<lambda>(k, op). Inr (name, transaction_bytes new uuid (kind_number k) op))
               (derive_operation c (map_option projr loaded) new))"

subsection \<open>The writers agree with the reader\<close>

lemma tag_eq: "field < 0x20000000 \<Longrightarrow> wire < 8 \<Longrightarrow> tag field wire = put_key field wire"
proof -
  assume "field < 0x20000000" "wire < 8"
  then have small: "unat field < 2 ^ 29" "unat wire < 2 ^ 3" by (simp_all add: word_less_nat_alt)
  have "bit field k \<Longrightarrow> k < 29" "bit wire k \<Longrightarrow> k < 3" for k
    using bit_above_unat [OF small(1)] bit_above_unat [OF small(2)] not_le by blast+
  then have "ucast (push_bit 3 field OR wire) = (push_bit 3 (ucast field) OR ucast wire :: u64)"
    by (intro bit_word_eqI) (force simp: bit_simps)
  then show ?thesis by (simp add: tag_def put_key_def)
qed

lemma put_bytes_eq: "field < 0x20000000 \<Longrightarrow> put_bytes field b = put_bytes_field field b"
  by (simp add: put_bytes_def put_bytes_field_def tag_eq)

lemma put_uint_eq: "field < 0x20000000 \<Longrightarrow> put_uint field v = put_u64_field field v"
  by (simp add: put_uint_def put_u64_field_def tag_eq)

lemma length_put_bytes: "length b < length (put_bytes field b)"
proof -
  have "0 < length (put_varint (of_nat (length b)))" by (simp del: length_0_conv)
  then show ?thesis by (simp add: put_bytes_def)
qed

lemma length_put_bytes_less: "length (put_bytes field b) < n \<Longrightarrow> length b < n"
  using length_put_bytes [of b field] by linarith

lemma fields_put_bytes [codec_simps]:
  "field < 0x20000000 \<Longrightarrow> length b < 2 ^ 64 \<Longrightarrow>
     wire_fields (put_bytes field b @ rest) = apfst (Cons (bytes_item field b)) (wire_fields rest)"
  by (simp add: put_bytes_eq wire_fields_simps)

lemma fields_put_uint [codec_simps]:
  "field < 0x20000000 \<Longrightarrow>
     wire_fields (put_uint field v @ rest) = (if v = 0 then wire_fields rest else apfst (Cons (uint_item field v)) (wire_fields rest))"
  by (simp add: put_uint_eq wire_fields_simps)

lemma fields_put_string [codec_simps]:
  "field < 0x20000000 \<Longrightarrow> length s < 2 ^ 64 \<Longrightarrow>
     wire_fields (put_string field s @ rest) =
       (if s = [] then wire_fields rest else apfst (Cons (bytes_item field (bytes_of s))) (wire_fields rest))"
  by (simp add: put_string_def fields_put_bytes)

text \<open>Each part of a message is shorter than the message.\<close>

lemma length_concat_part: "x \<in> set xs \<Longrightarrow> length (g x) \<le> length (concat (map g xs))"
  by (induction xs) auto

lemma fields_put_all:
  assumes "field < 0x20000000" "\<forall>x \<in> set xs. length (g x) < 2 ^ 64"
  shows "wire_fields (concat (map (\<lambda>x. put_bytes field (g x)) xs) @ rest) =
    apfst ((@) (map (\<lambda>x. bytes_item field (g x)) xs)) (wire_fields rest)"
  using assms
proof (induction xs)
  case Nil
  show ?case by (cases "wire_fields rest") simp
next
  case (Cons x xs)
  then show ?case by (cases "wire_fields rest") (simp add: fields_put_bytes)
qed

lemma fields_put_fragments:
  assumes "field < 0x20000000" "length (put_fragments c field fs) < 2 ^ 64"
  shows "wire_fields (put_fragments c field fs @ rest) =
    apfst ((@) (map (\<lambda>f. bytes_item field (pb_encode_fragment c f)) fs)) (wire_fields rest)"
  unfolding put_fragments_def
proof (rule fields_put_all [OF assms(1)], rule ballI)
  fix f assume "f \<in> set fs"
  from length_concat_part [OF this, of "\<lambda>f. put_bytes field (pb_encode_fragment c f)"] assms(2)
  show "length (pb_encode_fragment c f) < 2 ^ 64"
    using length_put_bytes [of "pb_encode_fragment c f" field] unfolding put_fragments_def by linarith
qed

lemma fields_put_packed:
  assumes "field < 0x20000000" "length (put_packed field ids) < 2 ^ 64"
  shows "wire_fields (put_packed field ids @ rest) =
    apfst ((@) (if ids = [] then [] else [bytes_item field (packed ids)])) (wire_fields rest)"
proof (cases "ids = []")
  case True
  then show ?thesis by (cases "wire_fields rest") (simp add: put_packed_def)
next
  case False
  have "length (packed ids) < 2 ^ 64"
    using assms(2) False by (auto simp: put_packed_def intro: length_put_bytes_less)
  with False assms(1) show ?thesis by (cases "wire_fields rest") (simp add: put_packed_def fields_put_bytes)
qed

subsection \<open>Messages read back\<close>

text \<open>A fragment that is read back as it was written.\<close>

definition fragment_ok :: "message_codecs \<Rightarrow> data_fragment \<Rightarrow> bool" where
  "fragment_ok c f \<longleftrightarrow> pb_decode_fragment c (pb_encode_fragment c f) = Some f"

lemma decode_fragment_ok: "fragment_ok c f \<Longrightarrow> decode_fragment c (bytes_item n (pb_encode_fragment c f)) = Inr f"
  by (simp add: fragment_ok_def decode_fragment_def)

lemma decode_new_fragments:
  assumes "\<forall>f \<in> set fs. fragment_ok c f" and "(op_kind op, n) \<in> {(Append, 1), (Update, 3)}"
  shows "sfold (decode_step c) (op, s) (map (\<lambda>f. bytes_item n (pb_encode_fragment c f)) fs) =
    Inr (op\<lparr>op_fragments := op_fragments op @ fs\<rparr>, s)"
  using assms
proof (induction fs arbitrary: op)
  case (Cons f fs)
  have "decode_step c (op, s) (bytes_item n (pb_encode_fragment c f)) = Inr (op\<lparr>op_fragments := op_fragments op @ [f]\<rparr>, s)"
    using Cons.prems by (auto simp: decode_step_def decode_append_def decode_update_def decode_fragment_ok)
  with Cons show ?case by simp
qed simp

lemma decode_updated_fragments:
  assumes "\<forall>f \<in> set fs. fragment_ok c f" and "(op_kind op, n) \<in> {(Delete, 1), (Update, 2)}"
  shows "sfold (decode_step c) (op, s) (map (\<lambda>f. bytes_item n (pb_encode_fragment c f)) fs) =
    Inr (op\<lparr>op_updated_fragments := op_updated_fragments op @ fs\<rparr>, s)"
  using assms
proof (induction fs arbitrary: op)
  case (Cons f fs)
  have "decode_step c (op, s) (bytes_item n (pb_encode_fragment c f)) =
      Inr (op\<lparr>op_updated_fragments := op_updated_fragments op @ [f]\<rparr>, s)"
    using Cons.prems by (auto simp: decode_step_def decode_delete_def decode_update_def decode_fragment_ok)
  with Cons show ?case by simp
qed simp

lemma decode_removed_ids:
  assumes "(op_kind op, n) \<in> {(Delete, 2), (Update, 1)}"
  shows "sfold (decode_step c) (op, s) (if ids = [] then [] else [bytes_item n (packed ids)]) =
    Inr (op\<lparr>op_removed_ids := op_removed_ids op @ ids\<rparr>, s)"
  using assms
  by (auto simp: decode_step_def decode_delete_def decode_update_def append_varints_def packed_def read_varints_packed)

lemma decode_fields_modified:
  "op_kind op = Update \<Longrightarrow> sfold (decode_step c) (op, s) (if ids = [] then [] else [bytes_item 4 (packed ids)]) =
    Inr (op\<lparr>op_fields_modified := op_fields_modified op @ ids\<rparr>, s)"
  by (auto simp: decode_step_def decode_update_def append_varints_def packed_def read_varints_packed)

lemmas decode_parts = decode_new_fragments decode_updated_fragments decode_removed_ids decode_fields_modified

lemma decode_operation_from:
  assumes "decodes k" "wire_fields message = (fs, True)" "sfold (decode_step c) (new_operation k, []) fs = Inr (op, [])"
    and "k \<notin> {Overwrite, Merge, Project}" "op_schema op = []" "\<not> op_has_schema op"
  shows "decode_operation c k message = Inr op"
  using assms by (simp add: decode_operation_def decode_fields_def)

lemma decode_append_message:
  assumes "\<forall>f \<in> set fs. fragment_ok c f" "length (put_fragments c 1 fs) < 2 ^ 64"
  shows "decode_operation c Append (put_fragments c 1 fs) = Inr ((new_operation Append)\<lparr>op_fragments := fs\<rparr>)"
proof (rule decode_operation_from)
  show "wire_fields (put_fragments c 1 fs) = (map (\<lambda>f. bytes_item 1 (pb_encode_fragment c f)) fs, True)"
    using fields_put_fragments [OF _ assms(2), of "[]"] by (simp add: wire_fields_simps)
  show "sfold (decode_step c) (new_operation Append, []) (map (\<lambda>f. bytes_item 1 (pb_encode_fragment c f)) fs) =
      Inr ((new_operation Append)\<lparr>op_fragments := fs\<rparr>, [])"
    using decode_new_fragments [OF assms(1), of "new_operation Append" 1 "[]"] by (simp add: new_operation_def)
qed (simp_all add: new_operation_def)

lemma decode_delete_message:
  assumes "\<forall>f \<in> set (ch_changed ch). fragment_ok c f" "length (delete_message c ch removed) < 2 ^ 64"
  shows "decode_operation c Delete (delete_message c ch removed) =
    Inr ((new_operation Delete)\<lparr>op_updated_fragments := ch_changed ch, op_removed_ids := removed\<rparr>)"
proof (rule decode_operation_from)
  let ?items = "map (\<lambda>f. bytes_item 1 (pb_encode_fragment c f)) (ch_changed ch) @
    (if removed = [] then [] else [bytes_item 2 (packed removed)])"
  have "length (put_fragments c 1 (ch_changed ch)) < 2 ^ 64" "length (put_packed 2 removed) < 2 ^ 64"
    using assms(2) by (simp_all add: delete_message_def)
  then show "wire_fields (delete_message c ch removed) = (?items, True)"
    using fields_put_packed [of 2 removed "[]"]
    by (simp add: delete_message_def fields_put_fragments wire_fields_simps)
  show "sfold (decode_step c) (new_operation Delete, []) ?items =
      Inr ((new_operation Delete)\<lparr>op_updated_fragments := ch_changed ch, op_removed_ids := removed\<rparr>, [])"
    using assms(1) by (simp add: sfold_append decode_parts new_operation_def)
qed (simp_all add: new_operation_def)

lemma decode_update_parts:
  defines "message \<equiv> \<lambda>removed changed added ids c. put_packed 1 removed @ put_fragments c 2 changed @ put_fragments c 3 added @ put_packed 4 ids"
  assumes "\<forall>f \<in> set changed \<union> set added. fragment_ok c f" "length (message removed changed added ids c) < 2 ^ 64"
  shows "decode_operation c Update (message removed changed added ids c) =
    Inr ((new_operation Update)\<lparr>op_fragments := added, op_updated_fragments := changed, op_removed_ids := removed,
      op_fields_modified := ids\<rparr>)"
proof (rule decode_operation_from)
  let ?items = "(if removed = [] then [] else [bytes_item 1 (packed removed)]) @
    map (\<lambda>f. bytes_item 2 (pb_encode_fragment c f)) changed @
    map (\<lambda>f. bytes_item 3 (pb_encode_fragment c f)) added @ (if ids = [] then [] else [bytes_item 4 (packed ids)])"
  have "length (put_fragments c 2 changed) < 2 ^ 64" "length (put_fragments c 3 added) < 2 ^ 64"
    "length (put_packed 1 removed) < 2 ^ 64" "length (put_packed 4 ids) < 2 ^ 64"
    using assms(3) by (simp_all add: message_def)
  then show "wire_fields (message removed changed added ids c) = (?items, True)"
    using fields_put_packed [of 4 ids "[]"] fields_put_packed [of 1 removed]
    by (simp add: message_def fields_put_fragments wire_fields_simps)
  show "sfold (decode_step c) (new_operation Update, []) ?items =
      Inr ((new_operation Update)\<lparr>op_fragments := added, op_updated_fragments := changed, op_removed_ids := removed,
        op_fields_modified := ids\<rparr>, [])"
    using assms(2) by (simp add: sfold_append decode_parts new_operation_def)
qed (simp_all add: new_operation_def)

lemma decode_update_message:
  assumes "\<forall>f \<in> set (ch_changed ch) \<union> set (ch_added ch). fragment_ok c f" "length (update_message c ch removed) < 2 ^ 64"
  shows "decode_operation c Update (update_message c ch removed) =
    Inr ((new_operation Update)\<lparr>op_fragments := ch_added ch, op_updated_fragments := ch_changed ch, op_removed_ids := removed,
      op_fields_modified := map ucast (sort (remdups (ch_fields_modified ch)))\<rparr>)"
  using assms unfolding update_message_def by (intro decode_update_parts)

text \<open>A transaction file is read back as the operation written into it.\<close>

lemma kind_of_number: "k \<noteq> Clone \<Longrightarrow> decodes k \<Longrightarrow> kind_of (kind_number k) = k \<and> 100 \<le> kind_number k \<and> kind_number k \<le> 115"
  by (cases k) simp_all

lemma transaction_bytes_read:
  assumes "length (transaction_bytes new uuid n message) < 2 ^ 64" "100 \<le> n" "n \<le> 115"
  shows "transaction_file_operation (transaction_bytes new uuid n message) = Inr (n, message)"
proof -
  let ?props = "m_transaction_properties new" and ?entry = "\<lambda>(k, v). put_string 1 k @ put_string 2 v"
  have small: "n < 0x20000000" using assms(3) by (rule order.strict_trans1) simp
  have parts: "length (put_string 2 uuid) < 2 ^ 64" "length (put_bytes n message) < 2 ^ 64"
    "length (concat (map (\<lambda>p. put_bytes 4 (?entry p)) ?props)) < 2 ^ 64"
    using assms(1) by (simp_all add: transaction_bytes_def case_prod_unfold)
  have "length uuid < 2 ^ 64" "length message < 2 ^ 64"
    using parts(1,2) length_put_bytes [of "bytes_of uuid" 2] length_put_bytes [of message n]
    by (auto simp: put_string_def split: if_splits)
  moreover have "\<forall>p \<in> set ?props. length (?entry p) < 2 ^ 64"
  proof
    fix p assume "p \<in> set ?props"
    from length_concat_part [OF this, of "\<lambda>p. put_bytes 4 (?entry p)"] parts(3) show "length (?entry p) < 2 ^ 64"
      using length_put_bytes [of "?entry p" 4] by linarith
  qed
  ultimately have "fst (wire_fields (transaction_bytes new uuid n message)) =
      (if txn_read_version new = 0 then [] else [uint_item 1 (txn_read_version new)]) @
      (if uuid = [] then [] else [bytes_item 2 (bytes_of uuid)]) @ map (\<lambda>p. bytes_item 4 (?entry p)) ?props @ [bytes_item n message]"
    using small fields_put_all [of 4 ?props ?entry] fields_put_bytes [OF small, of message "[]"]
    by (simp add: transaction_bytes_def fields_put_uint fields_put_string wire_fields_simps case_prod_unfold)
  moreover have "find (\<lambda>f. 100 \<le> f_number f \<and> f_number f \<le> 115 \<and> f_wire f = 2) (map (\<lambda>p. bytes_item 4 (g p)) ps @ [bytes_item n message]) =
      Some (bytes_item n message)" for g and ps :: "(string \<times> string) list"
    using assms by (induction ps) auto
  ultimately show ?thesis
    by (simp add: transaction_file_operation_def split_def)
qed

subsection \<open>The change read off two versions\<close>

lemma fragments_before_eq:
  "fragments_before c parent = map_of (rev (map (\<lambda>f. (fr_id f, pb_encode_fragment c f)) (m_fragments parent)))"
proof -
  have "foldl (\<lambda>m f. m(fr_id f \<mapsto> pb_encode_fragment c f)) m fs =
      m ++ map_of (rev (map (\<lambda>f. (fr_id f, pb_encode_fragment c f)) fs))" for m fs
    by (induction fs arbitrary: m) (simp_all add: map_add_assoc [symmetric] map_add_upd [symmetric])
  from this [of Map.empty] show ?thesis by (simp add: fragments_before_def)
qed

lemma fragments_before_None: "fragments_before c parent i = None \<longleftrightarrow> i \<notin> fr_id ` set (m_fragments parent)"
  by (auto simp: fragments_before_eq map_of_eq_None_iff image_image)

lemma fragments_before_Some:
  assumes "distinct (map fr_id (m_fragments parent))" "p \<in> set (m_fragments parent)"
  shows "fragments_before c parent (fr_id p) = Some (pb_encode_fragment c p)"
  unfolding fragments_before_eq
  using assms by (intro map_of_is_SomeI) (auto simp: comp_def rev_map [symmetric])

definition changed_fragment :: "message_codecs \<Rightarrow> manifest \<Rightarrow> data_fragment \<Rightarrow> bool" where
  "changed_fragment c parent f \<longleftrightarrow>
     (\<exists>bytes. fragments_before c parent (fr_id f) = Some bytes \<and> pb_encode_fragment c f \<noteq> bytes)"

lemma change_of_fragments:
  "ch_added (change_of c parent new) = filter (\<lambda>f. fr_id f \<notin> fr_id ` set (m_fragments parent)) (m_fragments new)"
  "ch_changed (change_of c parent new) = filter (changed_fragment c parent) (m_fragments new)"
proof -
  have step: "ch_added (change_step c parent ch f) = ch_added ch @ (if fr_id f \<notin> fr_id ` set (m_fragments parent) then [f] else [])"
    "ch_changed (change_step c parent ch f) = ch_changed ch @ (if changed_fragment c parent f then [f] else [])" for ch f
    using fragments_before_None [of c parent "fr_id f"]
    by (cases "fragments_before c parent (fr_id f)"; simp add: change_step_def changed_fragment_def)+
  have "ch_added (foldl (change_step c parent) ch fs) =
      ch_added ch @ filter (\<lambda>f. fr_id f \<notin> fr_id ` set (m_fragments parent)) fs \<and>
    ch_changed (foldl (change_step c parent) ch fs) = ch_changed ch @ filter (changed_fragment c parent) fs" for ch fs
    by (induction fs arbitrary: ch) (simp_all add: step)
  then show "ch_added (change_of c parent new) = filter (\<lambda>f. fr_id f \<notin> fr_id ` set (m_fragments parent)) (m_fragments new)"
    "ch_changed (change_of c parent new) = filter (changed_fragment c parent) (m_fragments new)"
    by (simp_all add: change_of_def)
qed

end
