(* ===== verification/Transaction_Replay.thy ===== *)
theory Transaction_Replay
  imports Transaction_File Transaction_Invariants
begin

text \<open>
  A commit's transaction makes its change again: the operation read from the transaction file of a version,
  applied to the version before it, gives the fragments the version has. This is what a rebase relies on
  (\<open>src/src/dataset/dataset.cpp\<close>, \<open>commit_next_version\<close>), which applies the operation derived from a change to a later
  version.
\<close>

subsection \<open>Kept and changed fragments\<close>

text \<open>The versions a change is read off, and what is needed of them.\<close>

definition versions_ok :: "message_codecs \<Rightarrow> manifest \<Rightarrow> manifest \<Rightarrow> bool" where
  "versions_ok c parent new \<longleftrightarrow>
     distinct (map fr_id (m_fragments parent)) \<and> sorted_wrt (<) (map fr_id (m_fragments new)) \<and>
     (\<forall>f \<in> set (m_fragments parent) \<union> set (m_fragments new). fragment_ok c f)"

lemma same_bytes: "fragment_ok c f \<Longrightarrow> fragment_ok c g \<Longrightarrow> pb_encode_fragment c f = pb_encode_fragment c g \<Longrightarrow> f = g"
  by (simp add: fragment_ok_def)

lemma fragment_ids_inj: "distinct (map fr_id fs) \<Longrightarrow> f \<in> set fs \<Longrightarrow> g \<in> set fs \<Longrightarrow> fr_id f = fr_id g \<Longrightarrow> f = g"
  by (simp add: distinct_map inj_on_def)

lemma replaced_fragment:
  assumes "versions_ok c parent new" and "p \<in> set (m_fragments parent)" "n \<in> set (m_fragments new)" "fr_id n = fr_id p"
    and updated: "\<And>i g. updated i = Some g \<longleftrightarrow> g \<in> set (ch_changed (change_of c parent new)) \<and> fr_id g = i"
  shows "(case updated (fr_id p) of None \<Rightarrow> p | Some g \<Rightarrow> g) = n"
proof -
  have ids: "distinct (map fr_id (m_fragments parent))" "distinct (map fr_id (m_fragments new))"
    using assms(1) by (auto simp: versions_ok_def strict_sorted_iff)
  have "fragments_before c parent (fr_id n) = Some (pb_encode_fragment c p)"
    using fragments_before_Some [OF ids(1) assms(2)] assms(4) by simp
  then have changed: "changed_fragment c parent n \<longleftrightarrow> n \<noteq> p"
    using assms(1-3) same_bytes [of c n p] by (auto simp: changed_fragment_def versions_ok_def)
  show ?thesis
  proof (cases "updated (fr_id p)")
    case None
    then have "n \<notin> set (ch_changed (change_of c parent new))" using updated [of "fr_id p" n] assms(4) by simp
    with None changed assms(3) show ?thesis by (simp add: change_of_fragments)
  next
    case (Some g)
    then have "g \<in> set (m_fragments new)" "fr_id g = fr_id n"
      using updated [of "fr_id p" g] assms(4) by (auto simp: change_of_fragments)
    with Some fragment_ids_inj [OF ids(2)] assms(3) show ?thesis by auto
  qed
qed

text \<open>Replacing what changed and dropping what is gone leaves the fragments both versions have, as the new one has them.\<close>

lemma replaced_fragments:
  assumes "versions_ok c parent new"
    and updated: "\<And>i g. updated i = Some g \<longleftrightarrow> g \<in> set (ch_changed (change_of c parent new)) \<and> fr_id g = i"
  defines "kept \<equiv> replace_fragments (map fr_id (gone_fragments parent new)) updated (m_fragments parent)"
  shows "set kept = {n \<in> set (m_fragments new). fr_id n \<in> fr_id ` set (m_fragments parent)}" "distinct (map fr_id kept)"
proof -
  let ?g = "\<lambda>p. case updated (fr_id p) of None \<Rightarrow> p | Some g \<Rightarrow> g"
  let ?both = "filter (\<lambda>p. fr_id p \<in> fr_id ` set (m_fragments new)) (m_fragments parent)"
  have kept: "kept = map ?g ?both"
    by (auto simp: kept_def replace_fragments_def gone_fragments_def image_iff intro!: map_cong filter_cong)
  have g: "?g p = n" if "p \<in> set (m_fragments parent)" "n \<in> set (m_fragments new)" "fr_id n = fr_id p" for p n
    using replaced_fragment [OF assms(1) that updated] .
  have "fr_id (?g p) = fr_id p" if "p \<in> set ?both" for p
    using that g [of p] by force
  then have "map fr_id kept = map fr_id ?both" by (simp add: kept)
  moreover have "distinct (map fr_id ?both)" using assms(1) by (auto simp: versions_ok_def intro: distinct_map_filter)
  ultimately show "distinct (map fr_id kept)" by simp
  show "set kept = {n \<in> set (m_fragments new). fr_id n \<in> fr_id ` set (m_fragments parent)}"
  proof (intro equalityI subsetI)
    fix x assume "x \<in> set kept"
    then show "x \<in> {n \<in> set (m_fragments new). fr_id n \<in> fr_id ` set (m_fragments parent)}"
      using g by (force simp: kept)
  next
    fix n assume "n \<in> {n \<in> set (m_fragments new). fr_id n \<in> fr_id ` set (m_fragments parent)}"
    then obtain p where "p \<in> set (m_fragments parent)" "n \<in> set (m_fragments new)" "fr_id n = fr_id p" by auto
    then have "n = ?g p" "p \<in> set ?both" using g [of p n] by (simp_all add: rev_image_eqI)
    then show "n \<in> set kept" unfolding kept set_map by (rule image_eqI)
  qed
qed

text \<open>Sorted by id, the kept and the added fragments are the new version's.\<close>

lemma finished_fragments:
  assumes "versions_ok c parent new" and "\<forall>f \<in> set (m_fragments new). \<forall>x \<in> set (fr_files f). \<not> only_tombstones x"
    and "set kept = {n \<in> set (m_fragments new). fr_id n \<in> fr_id ` set (m_fragments parent)}" "distinct (map fr_id kept)"
  shows "map (drop_files only_tombstones) (sort_key fr_id (kept @ ch_added (change_of c parent new))) = m_fragments new"
proof -
  have new: "distinct (map fr_id (m_fragments new))" "sorted (map fr_id (m_fragments new))"
    using assms(1) by (auto simp: versions_ok_def strict_sorted_iff)
  let ?all = "kept @ ch_added (change_of c parent new)"
  have all: "set ?all = set (m_fragments new)" "distinct ?all"
    using assms(3) distinct_map [THEN iffD1, OF assms(4)] distinct_map [THEN iffD1, OF new(1)] by (auto simp: change_of_fragments)
  have "sort_key fr_id ?all = m_fragments new"
  proof (rule sort_key_inj_key_eq)
    show "mset ?all = mset (m_fragments new)"
      using set_eq_iff_mset_eq_distinct [OF all(2), of "m_fragments new"] all(1) new(1) by (simp add: distinct_map)
    show "inj_on fr_id (set ?all)" using all(1) new(1) by (simp add: distinct_map)
  qed (rule new(2))
  moreover have "drop_files only_tombstones f = f" if "f \<in> set (m_fragments new)" for f
    using assms(2) that by (simp add: drop_files_def)
  ultimately show ?thesis by (simp add: map_idI)
qed

subsection \<open>Applying what was read back\<close>

lemma assign_ids_numbered: "\<forall>f \<in> set fs. fr_id f \<noteq> 0 \<Longrightarrow> assign_ids fs n = (fs, n)"
  by (induction fs) auto

lemma last_by_id_iff:
  "distinct (map fr_id fs) \<Longrightarrow> last_by_id fs i = Some g \<longleftrightarrow> g \<in> set fs \<and> fr_id g = i"
  "distinct (map fr_id fs) \<Longrightarrow> first_by_id fs i = Some g \<longleftrightarrow> g \<in> set fs \<and> fr_id g = i"
  unfolding last_by_id_def first_by_id_def
  by (subst map_of_eq_Some_iff; auto simp: comp_def rev_map [symmetric])+

lemma files_have_fields_iff: "files_have_fields fs = Inr () \<longleftrightarrow> (\<forall>f \<in> set fs. \<forall>x \<in> set (fr_files f). df_fields x \<noteq> [])"
proof -
  have "files_have_fields fs = Inr () \<longleftrightarrow> find (\<lambda>x. df_fields x = []) (concat (map fr_files fs)) = None"
    by (simp add: files_have_fields_def split: option.splits)
  then show ?thesis by (auto simp: find_None_iff)
qed

text \<open>What a version needs so that replaying its transaction passes the checks and keeps its fragments as they are.\<close>

definition replayable :: "message_codecs \<Rightarrow> manifest \<Rightarrow> manifest \<Rightarrow> bool" where
  "replayable c parent new \<longleftrightarrow> versions_ok c parent new \<and> \<not> stable_row_ids parent \<and>
     (\<forall>f \<in> set (m_fragments new). \<forall>x \<in> set (fr_files f). df_fields x \<noteq> [] \<and> \<not> only_tombstones x) \<and>
     (\<forall>f \<in> set (m_fragments new). fr_id f = 0 \<longrightarrow> 0 \<in> fr_id ` set (m_fragments parent))"

lemma replay_append:
  assumes "replayable c parent new" and "gone_fragments parent new = []" "ch_changed (change_of c parent new) = []"
  defines "op \<equiv> (new_operation Append)\<lparr>op_fragments := ch_added (change_of c parent new)\<rparr>"
  shows "\<exists>m. apply_operation cs limits (Some parent) op False v = Some (Inr m) \<and> m_fragments m = m_fragments new"
proof -
  let ?added = "ch_added (change_of c parent new)"
  have ok: "versions_ok c parent new" using assms(1) by (simp add: replayable_def)
  have "files_have_fields ?added = Inr ()" "\<forall>f \<in> set ?added. fr_id f \<noteq> 0"
    using assms(1) by (auto simp: replayable_def files_have_fields_iff change_of_fragments)
  then have "apply_operation cs limits (Some parent) op False v =
      Some (Inr (finish_manifest False (parent\<lparr>m_fragments := m_fragments parent @ ?added\<rparr>)))"
    using assms(1)
    by (simp add: apply_operation_def check_operation_def start_manifest_def change_manifest_def op_def new_operation_def
        apply_append_def stamp_added_def assign_ids_numbered replayable_def)
  moreover have "replace_fragments [] (\<lambda>_. None) (m_fragments parent) = m_fragments parent"
    by (simp add: replace_fragments_def)
  then have "map (drop_files only_tombstones) (sort_key fr_id (m_fragments parent @ ?added)) = m_fragments new"
    using finished_fragments [OF ok, of "m_fragments parent"] replaced_fragments [OF ok, of "\<lambda>_. None"] assms(1-3)
    by (simp add: replayable_def)
  ultimately show ?thesis by (simp add: finish_fragments)
qed

lemma replay_delete:
  assumes "replayable c parent new" and "ch_added (change_of c parent new) = []"
  defines "op \<equiv> (new_operation Delete)\<lparr>op_updated_fragments := ch_changed (change_of c parent new),
      op_removed_ids := map fr_id (gone_fragments parent new)\<rparr>"
  shows "\<exists>m. apply_operation cs limits (Some parent) op False v = Some (Inr m) \<and> m_fragments m = m_fragments new"
proof -
  let ?changed = "ch_changed (change_of c parent new)"
  let ?kept = "replace_fragments (map fr_id (gone_fragments parent new)) (last_by_id ?changed) (m_fragments parent)"
  have ok: "versions_ok c parent new" using assms(1) by (simp add: replayable_def)
  have "apply_operation cs limits (Some parent) op False v =
      Some (Inr (finish_manifest False (retain_indices (parent\<lparr>m_fragments := ?kept\<rparr>))))"
    using assms(1)
    by (simp add: apply_operation_def check_operation_def start_manifest_def change_manifest_def op_def new_operation_def
        apply_delete_def replayable_def)
  moreover have "distinct (map fr_id ?changed)"
    using ok by (auto simp: versions_ok_def change_of_fragments strict_sorted_iff intro: distinct_map_filter)
  then have "map (drop_files only_tombstones) (sort_key fr_id (?kept @ ch_added (change_of c parent new))) = m_fragments new"
    using assms(1) by (intro finished_fragments [OF ok] replaced_fragments [OF ok]) (auto simp: replayable_def last_by_id_iff)
  ultimately show ?thesis using assms(2) by (simp add: finish_fragments retain_indices_def)
qed

lemma replay_update:
  fixes ids :: "u64 list"
  assumes "replayable c parent new"
  defines "op \<equiv> (new_operation Update)\<lparr>op_fragments := ch_added (change_of c parent new),
      op_updated_fragments := ch_changed (change_of c parent new), op_removed_ids := map fr_id (gone_fragments parent new),
      op_fields_modified := ids\<rparr>"
  shows "\<exists>m. apply_operation cs limits (Some parent) op False v = Some (Inr m) \<and> m_fragments m = m_fragments new"
proof -
  let ?changed = "ch_changed (change_of c parent new)" and ?added = "ch_added (change_of c parent new)"
  let ?kept = "replace_fragments (map fr_id (gone_fragments parent new)) (first_by_id ?changed) (m_fragments parent)"
  have ok: "versions_ok c parent new" using assms(1) by (simp add: replayable_def)
  have "files_have_fields ?added = Inr ()" "files_have_fields ?changed = Inr ()" "\<forall>f \<in> set ?added. fr_id f \<noteq> 0"
    using assms(1) by (auto simp: replayable_def files_have_fields_iff change_of_fragments)
  then have "apply_operation cs limits (Some parent) op False v =
      Some (Inr (finish_manifest False (retain_indices (parent\<lparr>m_indices := prune_updated_fields (m_indices parent) (map fr_id ?changed) ids,
        m_fragments := ?kept @ ?added\<rparr>))))"
    using assms(1)
    by (simp add: apply_operation_def check_operation_def start_manifest_def change_manifest_def op_def new_operation_def
        apply_update_def stamp_added_def assign_ids_numbered replayable_def)
  moreover have "distinct (map fr_id ?changed)"
    using ok by (auto simp: versions_ok_def change_of_fragments strict_sorted_iff intro: distinct_map_filter)
  then have "map (drop_files only_tombstones) (sort_key fr_id (?kept @ ?added)) = m_fragments new"
    using assms(1) by (intro finished_fragments [OF ok] replaced_fragments [OF ok]) (auto simp: replayable_def last_by_id_iff)
  ultimately show ?thesis by (simp add: finish_fragments retain_indices_def)
qed

subsection \<open>From the transaction file\<close>

definition changes_data :: "kind \<Rightarrow> bool" where
  "changes_data k \<longleftrightarrow> k = Append \<or> k = Delete \<or> k = Update"

lemma derived_change_replays:
  assumes "replayable c parent new" "derived_change c parent new = Some (k, message)" "changes_data k" "length message < 2 ^ 64"
  shows "\<exists>op m. decode_operation c k message = Inr op \<and> op_kind op = k \<and>
    apply_operation cs limits (Some parent) op False v = Some (Inr m) \<and> m_fragments m = m_fragments new"
proof -
  let ?ch = "change_of c parent new"
  have ok: "\<forall>f \<in> set (ch_changed ?ch) \<union> set (ch_added ?ch). fragment_ok c f"
    using assms(1) by (auto simp: replayable_def versions_ok_def change_of_fragments)
  consider (append) "k = Append" "message = put_fragments c 1 (ch_added ?ch)" "gone_fragments parent new = []" "ch_changed ?ch = []"
    | (delete) "k = Delete" "message = delete_message c ?ch (map fr_id (gone_fragments parent new))" "ch_added ?ch = []"
    | (update) "k = Update" "message = update_message c ?ch (map fr_id (gone_fragments parent new))"
    using assms(2,3) by (auto simp: derived_change_def changes_data_def Let_def split: if_splits)
  then show ?thesis
  proof cases
    case append
    with assms(4) ok decode_append_message [of "ch_added ?ch" c] replay_append [OF assms(1)] show ?thesis
      by (auto simp: new_operation_def)
  next
    case delete
    with assms(4) ok decode_delete_message [of ?ch c] replay_delete [OF assms(1)] show ?thesis
      by (auto simp: new_operation_def)
  next
    case update
    with assms(4) ok decode_update_message [of ?ch c] replay_update [OF assms(1)] show ?thesis
      by (auto simp: new_operation_def)
  qed
qed

lemma unchanged_fragments:
  assumes "versions_ok c parent new" "ch_added (change_of c parent new) = []" "ch_changed (change_of c parent new) = []"
    "gone_fragments parent new = []"
  shows "set (m_fragments new) = set (m_fragments parent)"
proof -
  have "set (replace_fragments (map fr_id (gone_fragments parent new)) (\<lambda>_. None) (m_fragments parent)) =
      {n \<in> set (m_fragments new). fr_id n \<in> fr_id ` set (m_fragments parent)}"
    by (rule replaced_fragments(1) [OF assms(1)]) (simp add: assms(3))
  with assms(2,4) show ?thesis by (auto simp: replace_fragments_def change_of_fragments filter_empty_conv)
qed

lemma derived_changes_data:
  assumes "versions_ok c parent new" "m_fields new = m_fields parent" "m_operation new \<in> {DeriveTag, UpdateTag}"
    "set (m_fragments new) \<noteq> set (m_fragments parent)"
  obtains k message where "derived_change c parent new = Some (k, message)" "changes_data k"
proof -
  have "put_schema c 1 new = put_schema c 1 parent" using assms(2) by (simp add: put_schema_def)
  then show ?thesis
    using unchanged_fragments [OF assms(1)] assms(3,4) that
    by (fastforce simp: derived_change_def Let_def changes_data_def split: if_splits)
qed


definition example_fragment_at :: "u64 \<Rightarrow> bool \<Rightarrow> data_fragment" where
  "example_fragment_at i deleted = new_fragment\<lparr>fr_id := i, fr_rows := 4,
     fr_deletion := no_deletion_file\<lparr>del_present := deleted, del_num_rows := (if deleted then 1 else 0)\<rparr>\<rparr>"

definition example_encode :: "data_fragment \<Rightarrow> byte list" where
  "example_encode f = [ucast (fr_id f), if del_present (fr_deletion f) then 1 else 0]"

definition example_messages :: message_codecs where
  "example_messages = \<lparr>
     pb_decode_fragment = (\<lambda>b. case b of [i, d] \<Rightarrow> Some (example_fragment_at (ucast i) (d = 1)) | _ \<Rightarrow> None),
     pb_decode_field = (\<lambda>_. None), pb_decode_index = (\<lambda>_. None), pb_decode_file = (\<lambda>_. None),
     pb_encode_fragment = example_encode, pb_encode_field = (\<lambda>_. []), pb_encode_index = ix_uuid\<rparr>"

text \<open>Of three fragments one is removed, one loses a row, and a new one is added.\<close>

definition example_parent :: manifest where
  "example_parent = new_manifest\<lparr>m_version := 4,
     m_fragments := [example_fragment_at 0 False, example_fragment_at 1 False, example_fragment_at 2 False]\<rparr>"

definition example_new :: manifest where
  "example_new = new_manifest\<lparr>m_version := 5,
     m_fragments := [example_fragment_at 0 False, example_fragment_at 2 True, example_fragment_at 3 False]\<rparr>"

definition example_txn :: "string \<times> byte list" where
  "example_txn = projr (the (transaction_file example_messages (\<lambda>_. Inr example_parent) ''ab'' example_new))"


subsection \<open>Configuration and metadata\<close>

lemma bytes_of_text_of [simp]: "bytes_of (text_of b) = b"
proof -
  have "of_nat (of_char (char_of (unat x) :: char)) = x" for x :: byte
  proof -
    have "unat x < 256" using unsigned_less [of x] by simp
    then show ?thesis by (simp add: of_char_of)
  qed
  then show ?thesis by (simp add: text_of_def bytes_of_def comp_def)
qed

text \<open>The entries an update map has when it is written, in order.\<close>

definition map_updates :: "(string, string) std_map \<Rightarrow> (string, string) std_map \<Rightarrow> (string \<times> string option) list" where
  "map_updates old new =
     map (\<lambda>(k, v). (k, Some v)) (filter (\<lambda>(k, v). map_of old k \<noteq> Some v) new) @
     map (\<lambda>(k, v). (k, None)) (filter (\<lambda>(k, v). map_of new k = None) old)"

definition entry_bytes :: "string \<times> string option \<Rightarrow> byte list" where
  "entry_bytes e = put_string 1 (fst e) @ (case snd e of None \<Rightarrow> [] | Some v \<Rightarrow> put_bytes 2 (bytes_of v))"

lemma concat_map_if: "concat (map (\<lambda>x. if P x then f x else []) xs) = concat (map f (filter P xs))"
  by (induction xs) auto

lemma update_map_bytes_eq: "update_map_bytes old new = concat (map (\<lambda>e. put_bytes 1 (entry_bytes e)) (map_updates old new))"
  by (simp add: update_map_bytes_def map_updates_def entry_bytes_def comp_def case_prod_unfold concat_map_if)

lemma update_entry_read:
  assumes "length (entry_bytes e) < 2 ^ 64"
  shows "update_entry (bytes_item 1 (entry_bytes e)) = e"
proof -
  obtain k v where e: "e = (k, v)" by (cases e)
  have "length k < 2 ^ 64" "\<And>x. v = Some x \<Longrightarrow> length x < 2 ^ 64"
    using assms length_put_bytes [of "bytes_of k" 1] length_put_bytes [of "bytes_of (the v)" 2]
    by (auto simp: e entry_bytes_def put_string_def split: if_splits option.splits)
  then show ?thesis
    using fields_put_bytes [of 2 "bytes_of (the v)" "[]"] fields_put_string [of 1 k "[]"]
    by (cases v) (auto simp: e update_entry_def nested_def entry_bytes_def fields_put_string wire_fields_simps)
qed

lemma update_map_read:
  assumes "length (update_map_bytes old new) < 2 ^ 64"
  shows "decode_update_map (bytes_item n (update_map_bytes old new)) = \<lparr>um_entries = map_updates old new, um_replace = False\<rparr>"
proof -
  have small: "\<forall>e \<in> set (map_updates old new). length (entry_bytes e) < 2 ^ 64"
  proof
    fix e assume "e \<in> set (map_updates old new)"
    from length_concat_part [OF this, of "\<lambda>e. put_bytes 1 (entry_bytes e)"] assms show "length (entry_bytes e) < 2 ^ 64"
      using length_put_bytes [of "entry_bytes e" 1] unfolding update_map_bytes_eq by linarith
  qed
  then have items: "fst (wire_fields (update_map_bytes old new)) = map (\<lambda>e. bytes_item 1 (entry_bytes e)) (map_updates old new)"
    using fields_put_all [of 1 "map_updates old new" entry_bytes "[]"] by (simp add: update_map_bytes_eq wire_fields_simps)
  have "foldl (\<lambda>out e. if f_number e = 1 then out\<lparr>um_entries := um_entries out @ [update_entry e]\<rparr>
        else if f_number e = 2 then out\<lparr>um_replace := f_value e \<noteq> 0\<rparr> else out) u
      (map (\<lambda>e. bytes_item 1 (entry_bytes e)) es) = u\<lparr>um_entries := um_entries u @ es\<rparr>"
    if "\<forall>e \<in> set es. length (entry_bytes e) < 2 ^ 64" for es and u :: update_map
    using that by (induction es arbitrary: u) (simp_all add: update_entry_read)
  from this [OF small] items show ?thesis
    by (simp add: decode_update_map_def nested_def empty_update_map_def)
qed

lemma map_updates_applied:
  assumes "map_ok old" "map_ok new"
  shows "map_of (rev (map_updates old new)) k =
    (if map_of old k = map_of new k then None else Some (map_of new k))"
proof -
  have ok: "distinct (map fst old)" "distinct (map fst new)" using assms by (simp_all add: map_ok_distinct)
  let ?es = "rev (map_updates old new)"
  have "distinct (map fst (map_updates old new))"
    using ok by (auto simp: map_updates_def comp_def case_prod_unfold distinct_map_filter map_of_eq_None_iff)
      (metis fst_conv image_eqI)
  then have some: "map_of ?es k = Some y \<longleftrightarrow> (k, y) \<in> set (map_updates old new)" for y
    by (subst map_of_eq_Some_iff) (simp_all add: rev_map [symmetric])
  have "(k, y) \<in> set (map_updates old new) \<longleftrightarrow> map_of old k \<noteq> map_of new k \<and> y = map_of new k" for y
    by (cases "map_of new k"; cases "map_of old k")
      (auto simp: map_updates_def image_iff map_of_eq_Some_iff [OF ok(1), symmetric] map_of_eq_Some_iff [OF ok(2), symmetric])
  with some show ?thesis by (cases "map_of ?es k") auto
qed

lemma update_map_replays:
  assumes "map_ok old" "map_ok new"
  shows "apply_update_map id old \<lparr>um_entries = map_updates old new, um_replace = False\<rparr> = new"
proof (rule map_ok_eqI)
  show "map_ok (apply_update_map id old \<lparr>um_entries = map_updates old new, um_replace = False\<rparr>)"
    using assms(1) by (rule apply_update_map_ok)
  show "map_of (apply_update_map id old \<lparr>um_entries = map_updates old new, um_replace = False\<rparr>) = map_of new"
    by (rule ext) (simp add: apply_update_map_lookup map_updates_applied [OF assms] option.map_id)
qed (rule assms(2))

lemma map_of_as_strings: "map_of (as_strings m) k = map_option text_of (map_of m k)"
  by (induction m) (auto simp: as_strings_def)

lemma map_ok_as_strings [simp]: "map_ok (as_strings m) = map_ok m"
  by (simp add: map_ok_def as_strings_def comp_def case_prod_unfold)

lemma text_of_inj: "text_of a = text_of b \<Longrightarrow> a = b"
  by (metis bytes_of_text_of)

lemma metadata_update_replays:
  assumes "map_ok old" "map_ok new"
  shows "apply_update_map bytes_of old \<lparr>um_entries = map_updates (as_strings old) (as_strings new), um_replace = False\<rparr> = new"
proof (rule map_ok_eqI)
  let ?u = "\<lparr>um_entries = map_updates (as_strings old) (as_strings new), um_replace = False\<rparr>"
  show "map_ok (apply_update_map bytes_of old ?u)" using assms(1) by (rule apply_update_map_ok)
  show "map_of (apply_update_map bytes_of old ?u) = map_of new"
  proof
    fix k
    have "map_option text_of (map_of old k) = map_option text_of (map_of new k) \<Longrightarrow> map_of old k = map_of new k"
      by (cases "map_of old k"; cases "map_of new k") (auto dest: text_of_inj)
    then show "map_of (apply_update_map bytes_of old ?u) k = map_of new k"
      using assms by (simp add: apply_update_map_lookup map_updates_applied map_of_as_strings option.map_comp comp_def option.map_ident)
  qed
qed (rule assms(2))

lemma no_updates: "map_updates old new = [] \<longleftrightarrow> update_map_bytes old new = []"
proof -
  have "put_bytes 1 b \<noteq> []" for b using length_put_bytes [of b 1] by auto
  then show ?thesis by (cases "map_updates old new") (simp_all add: update_map_bytes_eq)
qed

lemma apply_no_updates: "apply_update_map convert target \<lparr>um_entries = [], um_replace = False\<rparr> = target"
  by (simp add: apply_update_map_def)

definition written_updates :: "(string, string) std_map \<Rightarrow> (string, string) std_map \<Rightarrow> update_map option" where
  "written_updates old new =
     (if update_map_bytes old new = [] then None else Some \<lparr>um_entries = map_updates old new, um_replace = False\<rparr>)"

lemma written_updates_replay:
  assumes "map_ok old" "map_ok new"
  shows "apply_update_opt id old (written_updates old new) = new"
  using update_map_replays [OF assms] no_updates [of old new] by (auto simp: written_updates_def apply_update_opt_def apply_no_updates)

lemma written_metadata_replay:
  assumes "map_ok old" "map_ok new"
  shows "apply_update_opt bytes_of old (written_updates (as_strings old) (as_strings new)) = new"
  using metadata_update_replays [OF assms] no_updates [of "as_strings old" "as_strings new"]
  by (auto simp: written_updates_def apply_update_opt_def apply_no_updates)

lemma fields_put_changes:
  assumes "field < 0x20000000" "length (put_changes field b) < 2 ^ 64"
  shows "wire_fields (put_changes field b @ rest) = apfst ((@) (if b = [] then [] else [bytes_item field b])) (wire_fields rest)"
  using assms length_put_bytes [of b field]
  by (cases "wire_fields rest") (auto simp: put_changes_def fields_put_bytes split: if_splits)

lemma length_put_changes: "length (put_changes field b) < n \<Longrightarrow> length b < n"
  using length_put_bytes [of b field] by (auto simp: put_changes_def split: if_splits)

lemma decode_config_message:
  assumes "length (config_message parent new []) < 2 ^ 64"
  shows "decode_operation c UpdateConfig (config_message parent new []) =
    Inr ((new_operation UpdateConfig)\<lparr>op_config_updates := written_updates (m_config parent) (m_config new),
      op_table_metadata_updates := written_updates (m_table_metadata parent) (m_table_metadata new),
      op_schema_metadata_updates := written_updates (as_strings (m_schema_metadata parent)) (as_strings (m_schema_metadata new))\<rparr>)"
proof (rule decode_operation_from)
  let ?b6 = "update_map_bytes (m_config parent) (m_config new)"
    and ?b7 = "update_map_bytes (m_table_metadata parent) (m_table_metadata new)"
    and ?b8 = "update_map_bytes (as_strings (m_schema_metadata parent)) (as_strings (m_schema_metadata new))"
  let ?items = "(if ?b6 = [] then [] else [bytes_item 6 ?b6]) @ (if ?b7 = [] then [] else [bytes_item 7 ?b7]) @
    (if ?b8 = [] then [] else [bytes_item 8 ?b8])"
  have small: "length (put_changes 6 ?b6) < 2 ^ 64" "length (put_changes 7 ?b7) < 2 ^ 64" "length (put_changes 8 ?b8) < 2 ^ 64"
    using assms by (simp_all add: config_message_def)
  then show "wire_fields (config_message parent new []) = (?items, True)"
    using fields_put_changes [of 8 ?b8 "[]"] by (simp add: config_message_def fields_put_changes wire_fields_simps)
  show "sfold (decode_step c) (new_operation UpdateConfig, []) ?items =
    Inr ((new_operation UpdateConfig)\<lparr>op_config_updates := written_updates (m_config parent) (m_config new),
      op_table_metadata_updates := written_updates (m_table_metadata parent) (m_table_metadata new),
      op_schema_metadata_updates := written_updates (as_strings (m_schema_metadata parent)) (as_strings (m_schema_metadata new))\<rparr>, [])"
    using small [THEN length_put_changes]
    by (simp add: decode_step_def decode_update_config_def update_map_read written_updates_def new_operation_def)
qed (simp_all add: new_operation_def)

lemma finish_metadata [simp]:
  "m_table_metadata (finish_manifest s m) = m_table_metadata m" "m_schema_metadata (finish_manifest s m) = m_schema_metadata m"
  by (simp_all add: finish_manifest_def raise_max_fragment_id_def set_flag_def Let_def)

text \<open>C10: a commit that changes only configuration and metadata derives an
  update of configuration whose entries are the differences of the maps; reading the message back and applying
  it to the version before gives the new configuration, table metadata and schema metadata.\<close>

theorem config_transaction_replays:
  assumes "derived_change c parent new = Some (UpdateConfig, message)" "length message < 2 ^ 64" "m_fields new = m_fields parent"
    and "map_ok (m_config parent)" "map_ok (m_config new)" "map_ok (m_table_metadata parent)" "map_ok (m_table_metadata new)"
    and "map_ok (m_schema_metadata parent)" "map_ok (m_schema_metadata new)"
  shows "\<exists>op m. decode_operation c UpdateConfig message = Inr op \<and>
    apply_operation cs limits (Some parent) op False v = Some (Inr m) \<and>
    m_config m = m_config new \<and> m_table_metadata m = m_table_metadata new \<and> m_schema_metadata m = m_schema_metadata new"
proof -
  have "message = config_message parent new []"
    using assms(1,3) by (auto simp: derived_change_def put_schema_def Let_def split: if_splits)
  moreover define op where "op = (new_operation UpdateConfig)\<lparr>op_config_updates := written_updates (m_config parent) (m_config new),
      op_table_metadata_updates := written_updates (m_table_metadata parent) (m_table_metadata new),
      op_schema_metadata_updates := written_updates (as_strings (m_schema_metadata parent)) (as_strings (m_schema_metadata new))\<rparr>"
  ultimately have decoded: "decode_operation c UpdateConfig message = Inr op"
    using decode_config_message assms(2) by simp
  have "apply_operation cs limits (Some parent) op False v =
      Some (Inr (finish_manifest (stable_row_ids parent) (parent\<lparr>m_config := m_config new, m_table_metadata := m_table_metadata new,
        m_schema_metadata := m_schema_metadata new, m_fields := m_fields parent\<rparr>)))"
    using assms(4-9)
    by (simp add: apply_operation_def check_operation_def start_manifest_def change_manifest_def apply_update_config_def
        op_def new_operation_def written_updates_replay written_metadata_replay)
  with decoded show ?thesis by auto
qed

definition example_config :: "(string, string) std_map \<Rightarrow> manifest" where
  "example_config config = new_manifest\<lparr>m_config := config, m_schema_metadata := [(''origin'', [1, 2])]\<rparr>"

theorem config_transaction_replays_witness:
  "let parent = example_config [(''a'', ''1''), (''b'', ''2'')]; new = example_config [(''b'', ''3''), (''c'', ''4'')]
   in \<exists>op m. decode_operation example_messages UpdateConfig (config_message parent new []) = Inr op \<and>
     apply_operation example_codecs initial_read_limits (Some parent) op False 1 = Some (Inr m) \<and>
     m_config m = [(''b'', ''3''), (''c'', ''4'')]"
proof -
  define parent new where "parent = example_config [(''a'', ''1''), (''b'', ''2'')]"
    and "new = example_config [(''b'', ''3''), (''c'', ''4'')]"
  have "length (config_message parent new []) < 200"
    unfolding parent_def new_def by code_simp
  moreover have "derived_change example_messages parent new = Some (UpdateConfig, config_message parent new [])"
    by (simp add: derived_change_def parent_def new_def example_config_def new_manifest_def change_of_def gone_fragments_def
        put_schema_def created_indices_def dropped_indices_def Let_def)
  moreover have "map_ok (m_config parent)" "map_ok (m_config new)" "map_ok (m_schema_metadata parent)" "map_ok (m_schema_metadata new)"
    by (simp_all add: parent_def new_def example_config_def new_manifest_def map_ok_Cons)
  moreover have "m_fields new = m_fields parent" "m_table_metadata parent = []" "m_table_metadata new = []"
    "m_config new = [(''b'', ''3''), (''c'', ''4'')]"
    by (simp_all add: parent_def new_def example_config_def new_manifest_def)
  ultimately show ?thesis
    using config_transaction_replays [of example_messages parent new "config_message parent new []" example_codecs initial_read_limits 1]
    unfolding parent_def [symmetric] new_def [symmetric] Let_def by auto
qed

end
