(* ===== verification/Manifest_Names.thy ===== *)
theory Manifest_Names
  imports Std_Map
begin

text \<open>
  The names of manifest files (\<open>src/src/table/manifest_reader.cpp\<close>, \<open>src/src/table/manifest_writer.cpp\<close>): a version is
  named by its number, or by the twenty digits of its distance to the largest 64-bit number (the V2
  scheme, in which the newest sorts first); a detached version, numbered from \<open>2 ^ 63\<close>, has a name outside
  both. A directory is the list of its file names.
\<close>

subsection \<open>Naming a version\<close>

definition kManifestV2Digits :: nat where "kManifestV2Digits = 20"

definition manifest_suffix :: string where "manifest_suffix = ''.manifest''"

text \<open>\<open>std::setw\<close> with fill character \<open>0\<close>.\<close>

definition zero_padded :: "nat \<Rightarrow> string \<Rightarrow> string" where
  "zero_padded n s = replicate (n - length s) (CHR ''0'') @ s"

definition detached :: "u64 \<Rightarrow> bool" where
  "detached version = (version AND push_bit 63 1 \<noteq> 0)"

definition manifest_name_v2 :: "u64 \<Rightarrow> string" where
  "manifest_name_v2 v = zero_padded kManifestV2Digits (to_string (unat (- 1 - v))) @ manifest_suffix"

definition manifest_filename :: "u64 \<Rightarrow> bool \<Rightarrow> string" where
  "manifest_filename version v2 =
     (if detached version then ''d'' @ to_string (unat version) @ manifest_suffix
      else if \<not> v2 then to_string (unat version) @ manifest_suffix
      else manifest_name_v2 version)"

text \<open>The names a version may have, in the order they are tried.\<close>

definition manifest_candidates :: "u64 \<Rightarrow> string list" where
  "manifest_candidates v =
     (if detached v then [''d'' @ to_string (unat v) @ manifest_suffix]
      else [to_string (unat v) @ manifest_suffix, manifest_name_v2 v])"

subsection \<open>Reading a name\<close>

definition is_digit :: "char \<Rightarrow> bool" where
  "is_digit c = (48 \<le> (of_char c :: nat) \<and> (of_char c :: nat) \<le> 57)"

definition decimal :: "string \<Rightarrow> nat" where
  "decimal s = foldl (\<lambda>n c. 10 * n + (of_char c - 48)) 0 s"

text \<open>\<open>std::stoull\<close> on digits: an error past 64 bits.\<close>

definition stoull :: "string \<Rightarrow> u64 option" where
  "stoull s = (if decimal s < 2 ^ 64 then Some (of_nat (decimal s)) else None)"

definition name_digits :: "string \<Rightarrow> string" where
  "name_digits name = take (length name - length manifest_suffix) name"

definition parse_manifest_version :: "string \<Rightarrow> u64 option" where
  "parse_manifest_version name =
     (if length name \<le> length manifest_suffix \<or> drop (length name - length manifest_suffix) name \<noteq> manifest_suffix then None
      else let digits = name_digits name in
        if digits = [] \<or> \<not> list_all is_digit digits then None
        else map_option (\<lambda>parsed. if length digits = kManifestV2Digits then - 1 - parsed else parsed) (stoull digits))"

definition highest_manifest_version :: "string list \<Rightarrow> u64" where
  "highest_manifest_version names =
     foldl (\<lambda>max_version name. case parse_manifest_version name of
        None \<Rightarrow> max_version | Some v \<Rightarrow> max max_version v) 0 names"

definition list_manifest_versions :: "string list \<Rightarrow> u64 list" where
  "list_manifest_versions names = remdups_adj (sort (List.map_filter parse_manifest_version names))"

text \<open>The next version, and whether the directory uses the V2 scheme.\<close>

definition next_version :: "string list \<Rightarrow> u64 \<times> bool" where
  "next_version names =
     (highest_manifest_version names + 1,
      list_ex (\<lambda>name. parse_manifest_version name \<noteq> None \<and> length name = 20 + 9) names)"

subsection \<open>Decimal numbers\<close>

lemma digit_char: "d < 10 \<Longrightarrow> (of_char (char_of (48 + d)) :: nat) = 48 + d"
  by (simp add: of_char_of)

lemma decimal_append: "decimal (s @ [c]) = 10 * decimal s + (of_char c - 48)"
  by (simp add: decimal_def)

lemma decimal_to_string: "decimal (to_string n) = n"
proof (induction n rule: to_string.induct)
  case (1 n)
  show ?case
  proof (cases "n < 10")
    case True
    then show ?thesis by (simp add: to_string.simps [of n] decimal_def digit_char)
  next
    case False
    have "decimal (to_string n) = 10 * (n div 10) + n mod 10"
      using 1 [OF False] False by (simp add: to_string.simps [of n] decimal_append digit_char)
    then show ?thesis by simp
  qed
qed

lemma digits_to_string: "list_all is_digit (to_string n) \<and> to_string n \<noteq> []"
proof (induction n rule: to_string.induct)
  case (1 n)
  show ?case
  proof (cases "n < 10")
    case True
    then show ?thesis by (simp add: to_string.simps [of n] is_digit_def digit_char)
  next
    case False
    with 1 [OF False] show ?thesis by (simp add: to_string.simps [of n] is_digit_def digit_char)
  qed
qed

lemma length_to_string: "0 < k \<Longrightarrow> n < 10 ^ k \<Longrightarrow> length (to_string n) \<le> k"
proof (induction k arbitrary: n)
  case (Suc k)
  show ?case
  proof (cases "n < 10")
    case True
    then show ?thesis by (simp add: to_string.simps [of n])
  next
    case False
    then have "0 < k" using Suc.prems(2) by (cases k) auto
    moreover have "n div 10 < 10 ^ k" using Suc.prems(2) by (simp add: less_mult_imp_div_less)
    ultimately show ?thesis using Suc.IH [of "n div 10"] False by (simp add: to_string.simps [of n])
  qed
qed simp

lemma decimal_zeros: "decimal (replicate k (CHR ''0'') @ s) = decimal s"
  by (induction k) (simp_all add: decimal_def)

lemma length_to_string_u64: "length (to_string (unat (v :: u64))) \<le> 20"
proof (rule length_to_string)
  have "unat v < 2 ^ 64" using unsigned_less [of v] by simp
  also have "(2::nat) ^ 64 < 10 ^ 20" by simp
  finally show "unat v < 10 ^ 20" .
qed simp

lemma length_to_string_version: "\<not> detached v \<Longrightarrow> length (to_string (unat v)) \<le> 19"
proof (rule length_to_string)
  assume "\<not> detached v"
  then have "\<not> bit v 63" by (simp add: detached_def bit_iff_and_push_bit_not_eq_0)
  have "take_bit 63 v = v"
  proof (rule bit_word_eqI)
    fix n assume "n < LENGTH(64)"
    with \<open>\<not> bit v 63\<close> show "bit (take_bit 63 v) n = bit v n"
      by (cases "n = 63") (auto simp: bit_simps)
  qed
  then have "unat v < 2 ^ 63" by (metis take_bit_nat_less_exp unsigned_take_bit_eq)
  also have "(2::nat) ^ 63 < 10 ^ 19" by simp
  finally show "unat v < 10 ^ 19" .
qed simp

lemma stoull_digits: "n < 2 ^ 64 \<Longrightarrow> stoull (replicate k (CHR ''0'') @ to_string n) = Some (of_nat n)"
  by (simp add: stoull_def decimal_zeros decimal_to_string)

lemma parse_name:
  "digits \<noteq> [] \<Longrightarrow> list_all is_digit digits \<Longrightarrow> parse_manifest_version (digits @ manifest_suffix) =
     map_option (\<lambda>parsed. if length digits = kManifestV2Digits then - 1 - parsed else parsed) (stoull digits)"
  by (auto simp: parse_manifest_version_def name_digits_def)

lemma zero_padded_digits: "list_all is_digit (zero_padded n (to_string m)) \<and> zero_padded n (to_string m) \<noteq> []"
  using digits_to_string [of m] by (auto simp: zero_padded_def is_digit_def list_all_iff)

text \<open>A name gives its version back, in either scheme.\<close>

lemma parse_filename:
  assumes "\<not> detached v"
  shows "parse_manifest_version (manifest_filename v v2) = Some v"
proof (cases v2)
  case True
  let ?n = "unat (- 1 - v)"
  have "length (zero_padded 20 (to_string ?n)) = 20"
    using length_to_string_u64 [of "- 1 - v"] by (simp add: zero_padded_def)
  moreover have "stoull (zero_padded 20 (to_string ?n)) = Some (- 1 - v)"
    using stoull_digits [of ?n] unsigned_less [of "- 1 - v"] by (simp add: zero_padded_def)
  ultimately show ?thesis
    using assms True zero_padded_digits [of 20 ?n]
    by (simp add: manifest_filename_def manifest_name_v2_def kManifestV2Digits_def parse_name)
next
  case False
  have "length (to_string (unat v)) \<noteq> 20" using length_to_string_version [OF assms] by simp
  moreover have "stoull (to_string (unat v)) = Some v"
    using stoull_digits [of "unat v" 0] unsigned_less [of v] by simp
  ultimately show ?thesis
    using assms False digits_to_string [of "unat v"]
    by (simp add: manifest_filename_def kManifestV2Digits_def parse_name)
qed

lemma filename_length: "\<not> detached v \<Longrightarrow> length (manifest_filename v v2) = 29 \<longleftrightarrow> v2"
  using length_to_string_u64 [of "- 1 - v"] length_to_string_version [of v]
  by (auto simp: manifest_filename_def manifest_name_v2_def zero_padded_def kManifestV2Digits_def manifest_suffix_def)

lemma parse_detached: "detached v \<Longrightarrow> parse_manifest_version (manifest_filename v v2) = None"
  by (auto simp: manifest_filename_def parse_manifest_version_def name_digits_def is_digit_def manifest_suffix_def)

lemma filename_candidate: "manifest_filename v v2 \<in> set (manifest_candidates v)"
  by (simp add: manifest_filename_def manifest_candidates_def)

subsection \<open>Directories\<close>

text \<open>The versions a directory has.\<close>

definition versions_in :: "string list \<Rightarrow> u64 set" where
  "versions_in names = {v. \<exists>name \<in> set names. parse_manifest_version name = Some v}"

lemma versions_in_simps [simp]:
  "versions_in [] = {}"
  "versions_in (name # names) = set_option (parse_manifest_version name) \<union> versions_in names"
  "versions_in (names @ names') = versions_in names \<union> versions_in names'"
  by (auto simp: versions_in_def)

lemma highest_step:
  fixes m :: u64
  defines "step \<equiv> \<lambda>m name. case parse_manifest_version name of None \<Rightarrow> m | Some v \<Rightarrow> max m v"
  shows "foldl step m names = max m (highest_manifest_version names)"
proof -
  have step: "step m name = max m (step 0 name)" for m name
    by (simp add: step_def split: option.split)
  have "foldl step m names = max m (foldl step 0 names)"
  proof (induction names arbitrary: m)
    case (Cons name names)
    have "foldl step m (name # names) = max (step m name) (foldl step 0 names)"
      by (simp only: foldl_Cons Cons.IH [of "step m name"])
    also have "\<dots> = max m (max (step 0 name) (foldl step 0 names))"
      by (simp only: step [of m name] max.assoc)
    also have "max (step 0 name) (foldl step 0 names) = foldl step 0 (name # names)"
      by (simp only: foldl_Cons Cons.IH [of "step 0 name"])
    finally show ?case .
  qed simp
  then show ?thesis by (simp add: highest_manifest_version_def step_def)
qed

lemma highest_append: "highest_manifest_version (names @ names') = max (highest_manifest_version names) (highest_manifest_version names')"
proof -
  have "highest_manifest_version (names @ names') =
      foldl (\<lambda>m name. case parse_manifest_version name of None \<Rightarrow> m | Some v \<Rightarrow> max m v) (highest_manifest_version names) names'"
    by (simp only: highest_manifest_version_def foldl_append)
  then show ?thesis by (simp only: highest_step)
qed

lemma highest_single: "highest_manifest_version [name] = (case parse_manifest_version name of None \<Rightarrow> 0 | Some v \<Rightarrow> v)"
  by (simp add: highest_manifest_version_def split: option.split)

lemma highest_Cons:
  "highest_manifest_version (name # names) =
     max (case parse_manifest_version name of None \<Rightarrow> 0 | Some v \<Rightarrow> v) (highest_manifest_version names)"
  using highest_append [of "[name]" names] by (simp add: highest_single)

lemma highest_bounds: "v \<in> versions_in names \<Longrightarrow> v \<le> highest_manifest_version names"
  by (induction names) (auto simp: highest_Cons le_max_iff_disj)

lemma highest_there: "highest_manifest_version names \<noteq> 0 \<Longrightarrow> highest_manifest_version names \<in> versions_in names"
proof (induction names)
  case (Cons name names)
  then show ?case by (cases "parse_manifest_version name") (auto simp: highest_Cons max_def)
qed (simp add: highest_manifest_version_def)

lemma strict_remdups_adj: "sorted xs \<Longrightarrow> sorted_wrt (<) (remdups_adj xs)" for xs :: "'a::linorder list"
  by (induction xs rule: remdups_adj.induct) (auto simp: order.strict_iff_order dest: order.trans)

text \<open>The versions listed, ascending and each once.\<close>

lemma list_manifest_versions_correct:
  "set (list_manifest_versions names) = versions_in names" "sorted_wrt (<) (list_manifest_versions names)"
proof -
  show "set (list_manifest_versions names) = versions_in names"
    by (force simp: list_manifest_versions_def versions_in_def List.map_filter_def)
  show "sorted_wrt (<) (list_manifest_versions names)"
    by (simp add: list_manifest_versions_def strict_remdups_adj)
qed

text \<open>One naming scheme: every manifest of the directory has it. Lance refuses a directory that mixes them.\<close>

definition scheme :: "bool \<Rightarrow> string list \<Rightarrow> bool" where
  "scheme v2 names \<longleftrightarrow> (\<forall>name \<in> set names. parse_manifest_version name \<noteq> None \<longrightarrow> (length name = 29 \<longleftrightarrow> v2))"

lemma next_version_scheme:
  "versions_in names \<noteq> {} \<Longrightarrow> scheme v2 names \<Longrightarrow> snd (next_version names) = v2"
  by (cases v2) (auto simp: next_version_def scheme_def versions_in_def list_ex_iff)

text \<open>The manifests of a directory have the names their versions have in one scheme, and the versions are in the lineage.\<close>

definition canonical :: "bool \<Rightarrow> string list \<Rightarrow> bool" where
  "canonical v2 names \<longleftrightarrow>
     (\<forall>name \<in> set names. \<forall>v. parse_manifest_version name = Some v \<longrightarrow> name = manifest_filename v v2 \<and> \<not> detached v \<and> v \<noteq> 0)"

lemma canonical_versions:
  assumes "canonical v2 names"
  shows "v \<in> versions_in names \<longleftrightarrow> manifest_filename v v2 \<in> set names \<and> \<not> detached v"
  using assms parse_filename [of v v2] by (auto simp: canonical_def versions_in_def)

lemma canonical_other:
  assumes "canonical v2 names" "\<not> detached v"
  shows "manifest_filename v (\<not> v2) \<notin> set names"
proof
  assume "manifest_filename v (\<not> v2) \<in> set names"
  with assms(1) parse_filename [OF assms(2), of "\<not> v2"] have "manifest_filename v (\<not> v2) = manifest_filename v v2"
    by (auto simp: canonical_def)
  with filename_length [OF assms(2), of v2] filename_length [OF assms(2), of "\<not> v2"] show False by simp
qed

lemma canonical_scheme: "canonical v2 names \<Longrightarrow> scheme v2 names"
  using filename_length by (fastforce simp: canonical_def scheme_def)

lemma canonical_highest:
  assumes "canonical v2 names"
  shows "highest_manifest_version names = 0 \<longleftrightarrow> versions_in names = {}" "\<not> detached (highest_manifest_version names)"
proof -
  have zero: "0 \<notin> versions_in names" using assms by (auto simp: canonical_def versions_in_def)
  then show "highest_manifest_version names = 0 \<longleftrightarrow> versions_in names = {}"
    using highest_there [of names] highest_bounds [of _ names] by (metis all_not_in_conv word_le_0_iff)
  show "\<not> detached (highest_manifest_version names)"
  proof (cases "highest_manifest_version names = 0")
    case True
    then show ?thesis by (simp add: detached_def)
  next
    case False
    then show ?thesis using highest_there canonical_versions [OF assms] by blast
  qed
qed

text \<open>The scheme a new manifest gets: V2 in a directory without one, and the directory's own otherwise.\<close>

definition name_scheme :: "string list \<Rightarrow> bool" where
  "name_scheme names = (let (next, v2) = next_version names in next = 1 \<or> v2)"

lemma name_scheme_canonical:
  assumes "canonical v2 names"
  shows "name_scheme names = (versions_in names = {} \<or> v2)"
proof (cases "versions_in names = {}")
  case True
  then show ?thesis using canonical_highest(1) [OF assms] by (simp add: name_scheme_def next_version_def)
next
  case False
  have "highest_manifest_version names + 1 \<noteq> 1"
    using canonical_highest(1) [OF assms] False by simp
  then show ?thesis
    using next_version_scheme [OF False canonical_scheme [OF assms]] False by (simp add: name_scheme_def next_version_def)
qed

lemma canonical_name_scheme: "canonical v2 names \<Longrightarrow> canonical (name_scheme names) names"
  by (cases "versions_in names = {}") (auto simp: name_scheme_canonical, auto simp: canonical_def versions_in_def)

lemma canonical_add:
  assumes "canonical v2 names" "v \<noteq> 0"
  shows "canonical (name_scheme names) (names @ [manifest_filename v (name_scheme names)])"
  using canonical_name_scheme [OF assms(1)] parse_filename [of v] parse_detached [of v] assms(2)
  by (cases "detached v") (auto simp: canonical_def)

end
