(* ===== verification/Manifest_File.thy ===== *)
theory Manifest_File
  imports Manifest_Names Transaction_File Read_Safety
begin

text \<open>
  Manifest files (\<open>src/src/table/manifest_reader.cpp\<close>, \<open>src/src/table/manifest_writer.cpp\<close>): the layout of a file, the
  checks of feature flags, loading a version, and publishing one. A dataset is its \<open>_versions\<close> and \<open>_transactions\<close>
  directories. The codec of the manifest and the index section is a parameter; so is the create-only write of
  \<open>io::put_if_absent\<close>, whose contract is \<open>create_only\<close>.
\<close>

subsection \<open>Sources\<close>

text \<open>A \<open>ByteSource\<close>: its size, and \<open>n\<close> bytes at an offset, or nothing when they cannot be read.\<close>

record byte_source =
  src_size :: nat
  src_read :: "nat \<Rightarrow> nat \<Rightarrow> byte list option"

definition bytes_source :: "byte list \<Rightarrow> byte_source" where
  "bytes_source b = \<lparr>src_size = length b, src_read = (\<lambda>at n. if at + n \<le> length b then Some (take n (drop at b)) else None)\<rparr>"

record manifest_codecs =
  pb_decode_manifest :: "byte list \<Rightarrow> manifest option"
  pb_decode_index_section :: "byte list \<Rightarrow> index_metadata list result"
  pb_encode_manifest :: "manifest \<Rightarrow> byte list"
  pb_encode_index_section :: "index_metadata list \<Rightarrow> byte list"

definition read_message_body :: "byte_source \<Rightarrow> u64 \<Rightarrow> string \<Rightarrow> byte list result" where
  "read_message_body src position what =
     (let file_size = src_size src; at = unat position in
      if at > file_size \<or> file_size - at < 4 then Inl (''manifest '' @ what @ '' is past the end of the file'')
      else sbind (need (''failed to read the manifest '' @ what) (src_read src at 4)) (\<lambda>len_le.
        let n = unat (le_word len_le :: u32) in
        if n > file_size - at - 4 then Inl (''manifest '' @ what @ '' runs past the end of the file'')
        else if n = 0 then Inr []
        else need (''failed to read the manifest '' @ what) (src_read src (at + 4) n)))"

definition read_index_section :: "manifest_codecs \<Rightarrow> byte_source \<Rightarrow> u64 \<Rightarrow> index_metadata list result" where
  "read_index_section mc src position =
     sbind (read_message_body src position ''index section'') (\<lambda>body.
     case pb_decode_index_section mc body of
       Inl e \<Rightarrow> Inl (''manifest index section: '' @ e)
     | Inr indices \<Rightarrow> Inr indices)"

definition manifest_magic :: "byte list" where
  "manifest_magic = bytes_of ''LANC''"

definition read_manifest_body :: "byte_source \<Rightarrow> byte list result" where
  "read_manifest_body src =
     (let file_size = src_size src in
      if file_size < 8 + 16 then Inl ''manifest file too small''
      else sbind (need ''failed to read manifest trailer'' (src_read src (file_size - 16) 16)) (\<lambda>trailer.
        if take 4 (drop 12 trailer) \<noteq> manifest_magic then Inl ''manifest trailer magic is not LANC''
        else let position = unat (le_word (take 8 trailer) :: u64) in
          if position > file_size - 16 then Inl ''invalid manifest_position in trailer''
          else sbind (need ''failed to read manifest protobuf length'' (src_read src position 4)) (\<lambda>len_le.
            let proto_len = unat (le_word len_le :: u32) in
            if proto_len = 0 \<or> position + 4 + proto_len > file_size - 16 then Inl ''invalid manifest protobuf length''
            else need ''failed to read manifest protobuf'' (src_read src (position + 4) proto_len))))"

subsection \<open>Feature flags\<close>

definition kFlagMixedDataFileVersions :: u64 where "kFlagMixedDataFileVersions = push_bit 8 1"
definition kSupportedFeatureFlags :: u64 where "kSupportedFeatureFlags = push_bit 9 1 - 1"

datatype write_kind = InsertWrite | CommitWrite

definition check_paired_flags :: "manifest \<Rightarrow> unit result" where
  "check_paired_flags m =
     (if (m_reader_flags m AND kFlagMixedDataFileVersions \<noteq> 0) \<noteq> (m_writer_flags m AND kFlagMixedDataFileVersions \<noteq> 0)
      then Inl ''Encountered corrupt file manifest: Manifest has only one of the mixed data-file-version reader and writer feature bits set, so its semantics are undefined''
      else Inr ())"

definition check_manifest_readable :: "manifest \<Rightarrow> unit result" where
  "check_manifest_readable m =
     sbind (check_paired_flags m) (\<lambda>_.
     if m_reader_flags m AND NOT kSupportedFeatureFlags \<noteq> 0 then
       Inl (''Not supported: This dataset cannot be read by this version of Lance. Please upgrade Lance to read this dataset. Flags: '' @
            to_string (unat (m_reader_flags m)))
     else Inr ())"

definition check_manifest_writable :: "manifest \<Rightarrow> write_kind \<Rightarrow> unit result" where
  "check_manifest_writable m k =
     sbind (check_paired_flags m) (\<lambda>_.
     if m_writer_flags m AND NOT kSupportedFeatureFlags \<noteq> 0 then
       Inl (''Not supported: This dataset cannot be written by this version of Lance. Please upgrade Lance '' @
            (case k of InsertWrite \<Rightarrow> ''to write to this dataset.'' @ [char_of (10::nat)] @ '' Flags: '' | CommitWrite \<Rightarrow> ''to write this dataset. Flags: '') @
            to_string (unat (m_writer_flags m)))
     else Inr ())"

subsection \<open>Loading\<close>

definition load_indices :: "manifest_codecs \<Rightarrow> byte_source \<Rightarrow> manifest \<Rightarrow> manifest" where
  "load_indices mc src m =
     (if m_has_index_section m then
        case read_index_section mc src (m_index_section m) of
          Inl e \<Rightarrow> m\<lparr>m_indices := [], m_index_section_error := e\<rparr>
        | Inr indices \<Rightarrow> m\<lparr>m_indices := indices\<rparr>
      else m)"

definition load_manifest_source :: "manifest_codecs \<Rightarrow> read_limits \<Rightarrow> byte_source \<Rightarrow> bool \<Rightarrow> manifest result" where
  "load_manifest_source mc limits src check_flags =
     sbind (read_manifest_body src) (\<lambda>body.
     sbind (need ''failed to decode manifest protobuf'' (pb_decode_manifest mc body)) (\<lambda>m.
     sbind (if check_flags then check_manifest_readable m else Inr ()) (\<lambda>_.
     let m = load_indices mc src m; most = unat (max_manifest_elements limits) in
     if length (m_fields m) > most \<or> length (m_fragments m) > most \<or> length (m_indices m) > most
     then Inl ''manifest element count exceeds safety limit''
     else if list_ex (\<lambda>f. length (fr_files f) > most) (m_fragments m)
     then Inl ''manifest fragment file count exceeds safety limit''
     else Inr m)))"

text \<open>The \<open>_versions\<close> directory as the readers see it: its file names in listing order (\<open>Inl\<close>: the listing failed), and
  opening a file.\<close>

record store =
  st_list :: "string list result"
  st_open :: "string \<Rightarrow> byte_source option"
  st_exists :: "string \<Rightarrow> bool"

definition load_manifest_file :: "manifest_codecs \<Rightarrow> read_limits \<Rightarrow> store \<Rightarrow> string \<Rightarrow> bool \<Rightarrow> manifest result" where
  "load_manifest_file mc limits st name check_flags =
     sbind (need ''failed to open manifest file'' (st_open st name)) (\<lambda>src. load_manifest_source mc limits src check_flags)"

fun open_candidates :: "store \<Rightarrow> string list \<Rightarrow> string \<Rightarrow> byte_source result" where
  "open_candidates st [] missing = Inl missing"
| "open_candidates st (c # cs) missing =
     (case st_open st c of
        Some src \<Rightarrow> Inr src
      | None \<Rightarrow> if st_exists st c then Inl ''failed to open manifest file'' else open_candidates st cs missing)"

definition open_version_manifest :: "store \<Rightarrow> u64 \<Rightarrow> byte_source result" where
  "open_version_manifest st v =
     open_candidates st (manifest_candidates v) (''version '' @ to_string (unat v) @ '' not found'')"

definition load_manifest_version :: "manifest_codecs \<Rightarrow> read_limits \<Rightarrow> store \<Rightarrow> u64 \<Rightarrow> manifest result" where
  "load_manifest_version mc limits st v =
     sbind (open_version_manifest st v) (\<lambda>src. load_manifest_source mc limits src True)"

definition load_latest_manifest :: "manifest_codecs \<Rightarrow> read_limits \<Rightarrow> store \<Rightarrow> (manifest \<times> u64) result" where
  "load_latest_manifest mc limits st =
     sbind (st_list st) (\<lambda>names.
     let v = highest_manifest_version names in
     if v = 0 then Inl ''no manifest found under _versions''
     else sbind (load_manifest_version mc limits st v) (\<lambda>m. Inr (m, v)))"

definition read_inline_transaction :: "store \<Rightarrow> u64 \<Rightarrow> manifest \<Rightarrow> byte list result" where
  "read_inline_transaction st version m =
     (if \<not> m_has_transaction_section m then Inl ''manifest has no transaction section''
      else sbind (open_version_manifest st version) (\<lambda>src.
        read_message_body src (m_transaction_section m) ''transaction section''))"

subsection \<open>Data file versions\<close>

text \<open>A file version as one number: 1 for v1, 20 to 23 for 2.0 to 2.3, 0 when it is none of these.\<close>

definition data_file_version :: "u32 \<Rightarrow> u32 \<Rightarrow> nat" where
  "data_file_version major minor =
     (if major = 0 \<and> minor \<le> 2 then 1
      else if (major = 0 \<and> minor = 3) \<or> (major = 2 \<and> minor \<le> 3) then (if major = 0 then 20 else 20 + unat minor)
      else 0)"

definition storage_version :: "string \<Rightarrow> nat" where
  "storage_version version =
     (if version = ''legacy'' \<or> take 2 version = ''0.'' then 1
      else if length version = 3 \<and> version ! 0 = CHR ''2'' \<and> version ! 1 = CHR ''.'' \<and>
              of_char (version ! 2) \<ge> (48 :: nat) \<and> of_char (version ! 2) \<le> (51 :: nat)
           then 20 + (of_char (version ! 2) - 48)
      else 0)"

definition check_data_file_versions :: "manifest \<Rightarrow> manifest result" where
  "check_data_file_versions m =
     (let default_version = storage_version (m_format_version m) in
      if default_version = 0 then Inr m
      else let versions = map (\<lambda>x. data_file_version (df_major x) (df_minor x)) (concat (map fr_files (m_fragments m)));
               v1 = (default_version = 1 \<or> 1 \<in> set versions);
               v2 = (default_version \<noteq> 1 \<or> list_ex (\<lambda>v. v \<ge> 20) versions);
               other = list_ex (\<lambda>v. v \<noteq> 0 \<and> v \<noteq> default_version) versions
           in if v1 \<and> v2 then Inl ''the dataset is in Lance's v1 (legacy) format, which nanolance does not write''
              else Inr (if other then set_flag True kFlagMixedDataFileVersions m else m))"

subsection \<open>Publishing\<close>

text \<open>A dataset: the files of \<open>_versions\<close> and of \<open>_transactions\<close>.\<close>

record dataset =
  ds_versions :: "(string \<times> byte list) list"
  ds_transactions :: "(string \<times> byte list) list"

definition dataset_store :: "dataset \<Rightarrow> store" where
  "dataset_store d = \<lparr>st_list = Inr (map fst (ds_versions d)),
     st_open = (\<lambda>name. map_option bytes_source (map_of (ds_versions d) name)),
     st_exists = (\<lambda>name. map_of (ds_versions d) name \<noteq> None)\<rparr>"

text \<open>What \<open>io::put_if_absent\<close> reports: stored, the name is taken, or an error.\<close>

datatype put_outcome = Stored | Taken | Failed string

type_synonym put = "(string \<times> byte list) list \<Rightarrow> string \<Rightarrow> byte list \<Rightarrow> (string \<times> byte list) list \<times> put_outcome"

text \<open>A create-only write never replaces a file. Reporting success it stored the bytes. The name being taken means that another
  file was there, or that an earlier try of this very write stored the bytes and its answer was lost; an error leaves it open
  whether the bytes were stored.\<close>

definition create_only :: "put \<Rightarrow> bool" where
  "create_only put \<longleftrightarrow>
     (\<forall>dir name bytes dir' outcome. put dir name bytes = (dir', outcome) \<longrightarrow>
        (case outcome of
           Stored \<Rightarrow> map_of dir name = None \<and> dir' = dir @ [(name, bytes)]
         | Taken \<Rightarrow> (map_of dir name \<noteq> None \<and> dir' = dir) \<or> (map_of dir name = None \<and> dir' = dir @ [(name, bytes)])
         | Failed _ \<Rightarrow> dir' = dir \<or> (map_of dir name = None \<and> dir' = dir @ [(name, bytes)])))"

text \<open>A local file system: a hard link, which exists or not.\<close>

definition link_put :: put where
  "link_put dir name bytes = (if map_of dir name = None then (dir @ [(name, bytes)], Stored) else (dir, Taken))"

text \<open>What a commit uses of its surroundings: the codecs, the limits, the create-only write, the fresh id of the transaction, whether
  writing the transaction file fails, and the dataset's path.\<close>

record publish_env =
  pe_messages :: message_codecs
  pe_manifests :: manifest_codecs
  pe_limits :: read_limits
  pe_put :: put
  pe_uuid :: string
  pe_transaction_error :: "string option"
  pe_object_store :: bool
  pe_path :: string

fun uri_scheme :: "string \<Rightarrow> string option" where
  "uri_scheme [] = None"
| "uri_scheme (c # cs) = (if take 3 (c # cs) = ''://'' then Some [] else map_option (Cons c) (uri_scheme cs))"

text \<open>The bytes of a manifest file: the index section first, then the manifest, then the trailer.\<close>

definition manifest_bytes :: "manifest_codecs \<Rightarrow> manifest \<Rightarrow> byte list" where
  "manifest_bytes mc written =
     (let index_section = (if m_has_index_section written then pb_encode_index_section mc (m_indices written) else []);
          position = (if m_has_index_section written then 4 + 4 + length index_section else 4);
          proto = pb_encode_manifest mc written
      in le_bytes 4 (0 :: u32) @
         (if m_has_index_section written then le_bytes 4 (of_nat (length index_section) :: u32) @ index_section else []) @
         le_bytes 4 (of_nat (length proto) :: u32) @ proto @
         le_bytes 8 (of_nat position :: u64) @ le_bytes 2 (0 :: u16) @ le_bytes 2 (2 :: u16) @ manifest_magic)"

text \<open>The manifest as it is written: it points at its index section and names its transaction.\<close>

definition written_manifest :: "manifest \<Rightarrow> string \<Rightarrow> manifest" where
  "written_manifest m transaction =
     m\<lparr>m_transaction_file := transaction, m_has_index_section := (m_indices m \<noteq> []),
       m_index_section := (if m_indices m \<noteq> [] then 4 else m_index_section m)\<rparr>"

definition published_transaction :: "publish_env \<Rightarrow> dataset \<Rightarrow> string \<Rightarrow> string" where
  "published_transaction e d name =
     (case load_manifest_file (pe_manifests e) (pe_limits e) (dataset_store d) name False of
        Inl _ \<Rightarrow> [] | Inr m \<Rightarrow> m_transaction_file m)"

definition write_transaction_file :: "publish_env \<Rightarrow> dataset \<Rightarrow> manifest \<Rightarrow> (dataset \<times> string result) option" where
  "write_transaction_file e d new =
     map_option (\<lambda>r. case r of
         Inl error \<Rightarrow> (d, Inl error)
       | Inr (name, bytes) \<Rightarrow>
           (case pe_transaction_error e of
              Some error \<Rightarrow> (d, Inl error)
            | None \<Rightarrow> (d\<lparr>ds_transactions := (name, bytes) # ds_transactions d\<rparr>, Inr name)))
       (transaction_file (pe_messages e) (load_manifest_version (pe_manifests e) (pe_limits e) (dataset_store d)) (pe_uuid e) new)"

definition remove_transaction_file :: "string \<Rightarrow> dataset \<Rightarrow> dataset" where
  "remove_transaction_file name d = (if name = [] then d else d\<lparr>ds_transactions := map_erase name (ds_transactions d)\<rparr>)"

text \<open>The checks made before anything is written; the manifest with the flag its data files need.\<close>

definition check_publish :: "publish_env \<Rightarrow> manifest \<Rightarrow> manifest result" where
  "check_publish e m =
     (case (if pe_object_store e then None else uri_scheme (pe_path e)) of
        Some uri \<Rightarrow> Inl (''writes to '' @ uri @ '':// are not supported (nanolance writes local paths and s3:// URIs): '' @ pe_path e)
      | None \<Rightarrow>
          sbind (check_manifest_writable m CommitWrite) (\<lambda>_.
          if m_index_section_error m \<noteq> [] then
            Inl (''the dataset's indices could not be read, and a commit would drop them: '' @ m_index_section_error m)
          else check_data_file_versions m))"

text \<open>Putting the file of the manifest in place. A taken name is this commit's own when the file there names its transaction.\<close>

definition put_manifest :: "publish_env \<Rightarrow> dataset \<Rightarrow> u64 \<Rightarrow> manifest \<Rightarrow> dataset \<times> unit result" where
  "put_manifest e d version written =
     (let name = manifest_filename version (name_scheme (map fst (ds_versions d)));
          (versions, outcome) = pe_put e (ds_versions d) name (manifest_bytes (pe_manifests e) written);
          d' = d\<lparr>ds_versions := versions\<rparr>;
          dropped = remove_transaction_file (m_transaction_file written) d'
      in case outcome of
           Stored \<Rightarrow> (d', Inr ())
         | Failed error \<Rightarrow> (dropped, Inl error)
         | Taken \<Rightarrow>
             if pe_object_store e \<and> published_transaction e d' name = m_transaction_file written then (d', Inr ())
             else (dropped, Inl (''commit conflict: version '' @ to_string (unat version) @ '' was committed concurrently'')))"

text \<open>\<open>publish_manifest\<close>, up to the clean-up of old versions that a success may start. \<open>None\<close>: deriving the transaction does not
  return.\<close>

definition publish_manifest :: "publish_env \<Rightarrow> dataset \<Rightarrow> manifest \<Rightarrow> (dataset \<times> unit result) option" where
  "publish_manifest e d m =
     (case check_publish e m of
        Inl error \<Rightarrow> Some (d, Inl error)
      | Inr checked \<Rightarrow>
          map_option (\<lambda>(d, r). case r of
              Inl error \<Rightarrow> (d, Inl error)
            | Inr transaction \<Rightarrow> put_manifest e d (m_version m) (written_manifest checked transaction))
          (write_transaction_file e d checked))"

text \<open>Renaming V1 manifests to V2.\<close>

definition migrate_manifest_names_v2 :: "string list \<Rightarrow> string list" where
  "migrate_manifest_names_v2 names = map (\<lambda>name.
     case parse_manifest_version name of
       None \<Rightarrow> name
     | Some v \<Rightarrow> if length name - length manifest_suffix = kManifestV2Digits then name else manifest_name_v2 v) names"

subsection \<open>A written manifest is read back\<close>

lemma src_read_part: "at = length a \<Longrightarrow> n = length b \<Longrightarrow> src_read (bytes_source (a @ b @ c)) at n = Some b"
  by (simp add: bytes_source_def)

lemma src_size_bytes [simp]: "src_size (bytes_source b) = length b"
  by (simp add: bytes_source_def)

definition trailer :: "nat \<Rightarrow> byte list" where
  "trailer position = le_bytes 8 (of_nat position :: u64) @ le_bytes 2 (0 :: u16) @ le_bytes 2 (2 :: u16) @ manifest_magic"

lemma trailer_parts:
  "length (trailer position) = 16" "take 4 (drop 12 (trailer position)) = manifest_magic"
  "take 8 (trailer position) = le_bytes 8 (of_nat position :: u64)"
  by (simp_all add: trailer_def manifest_magic_def bytes_of_def)

lemma framed_body:
  assumes "length head < 2 ^ 64" "4 \<le> length head" "0 < length body" "length body < 2 ^ 32"
  shows "read_manifest_body (bytes_source (head @ le_bytes 4 (of_nat (length body) :: u32) @ body @ trailer (length head))) = Inr body"
proof -
  let ?len = "le_bytes 4 (of_nat (length body) :: u32)"
  let ?src = "bytes_source (head @ ?len @ body @ trailer (length head))"
  have sizes: "unat (of_nat (length body) :: u32) = length body" "unat (of_nat (length head) :: u64) = length head"
    using assms by (simp_all add: unat_of_nat_small)
  have size: "src_size ?src = length head + 4 + length body + 16" by (simp add: trailer_parts)
  have "src_read ?src (src_size ?src - 16) 16 = Some (trailer (length head))"
    using src_read_part [of _ "head @ ?len @ body" 16 "trailer (length head)" "[]"] by (simp add: size trailer_parts ac_simps)
  moreover have "src_read ?src (length head) 4 = Some ?len"
    by (rule src_read_part) simp_all
  moreover have "src_read ?src (length head + 4) (length body) = Some body"
    using src_read_part [of _ "head @ ?len" _ body "trailer (length head)"] by simp
  ultimately show ?thesis
    using assms sizes by (simp add: read_manifest_body_def Let_def size trailer_parts del: src_size_bytes)
qed

text \<open>What of a manifest is on the wire, and that the codec keeps it.\<close>

definition on_wire :: "manifest \<Rightarrow> manifest" where
  "on_wire m = m\<lparr>m_index_section := (if m_has_index_section m then m_index_section m else 0), m_indices := [],
     m_has_transaction_section := False, m_transaction_section := 0, m_index_section_error := [], m_operation := DeriveTag,
     m_restored_version := 0, m_first_new_fragment := 0, m_reserved_fragments := 0, m_explicit_operation_field := 0,
     m_explicit_operation := [], m_explicit_read_version := 0, m_transaction_properties := []\<rparr>"

definition manifest_ok :: "manifest_codecs \<Rightarrow> read_limits \<Rightarrow> manifest \<Rightarrow> bool" where
  "manifest_ok mc limits m \<longleftrightarrow>
     pb_decode_manifest mc (pb_encode_manifest mc m) = Some (on_wire m) \<and>
     pb_decode_index_section mc (pb_encode_index_section mc (m_indices m)) = Inr (m_indices m) \<and>
     0 < length (pb_encode_manifest mc m) \<and> length (pb_encode_manifest mc m) < 2 ^ 32 \<and>
     length (pb_encode_index_section mc (m_indices m)) < 2 ^ 32 \<and>
     length (m_fields m) \<le> unat (max_manifest_elements limits) \<and> length (m_fragments m) \<le> unat (max_manifest_elements limits) \<and>
     length (m_indices m) \<le> unat (max_manifest_elements limits) \<and>
     (\<forall>f \<in> set (m_fragments m). length (fr_files f) \<le> unat (max_manifest_elements limits))"

text \<open>The part of a manifest file before the manifest's own length.\<close>

definition file_head :: "manifest_codecs \<Rightarrow> manifest \<Rightarrow> byte list" where
  "file_head mc w = le_bytes 4 (0 :: u32) @
     (if m_has_index_section w then le_bytes 4 (of_nat (length (pb_encode_index_section mc (m_indices w))) :: u32) @
        pb_encode_index_section mc (m_indices w) else [])"

lemma manifest_bytes_eq:
  "manifest_bytes mc w = file_head mc w @ le_bytes 4 (of_nat (length (pb_encode_manifest mc w)) :: u32) @
     pb_encode_manifest mc w @ trailer (length (file_head mc w))"
  by (simp add: manifest_bytes_def file_head_def trailer_def Let_def)

lemma read_index_section_written:
  assumes "m_has_index_section w" "m_index_section w = 4" "manifest_ok mc limits w"
  shows "read_index_section mc (bytes_source (manifest_bytes mc w)) (m_index_section w) = Inr (m_indices w)"
proof -
  let ?ix = "pb_encode_index_section mc (m_indices w)"
  have small: "unat (of_nat (length ?ix) :: u32) = length ?ix"
    using assms(3) by (simp add: manifest_ok_def unat_of_nat_small)
  obtain rest where bytes: "manifest_bytes mc w = le_bytes 4 (0 :: u32) @ le_bytes 4 (of_nat (length ?ix) :: u32) @ ?ix @ rest"
    using assms(1) by (simp add: manifest_bytes_eq file_head_def)
  let ?src = "bytes_source (manifest_bytes mc w)"
  have "src_read ?src 4 4 = Some (le_bytes 4 (of_nat (length ?ix) :: u32))"
    unfolding bytes by (rule src_read_part) simp_all
  moreover have "src_read ?src (4 + 4) (length ?ix) = Some ?ix"
    using src_read_part [of "4 + 4" "le_bytes 4 (0 :: u32) @ le_bytes 4 (of_nat (length ?ix) :: u32)" "length ?ix" ?ix rest]
    by (simp add: bytes)
  moreover have "8 + length ?ix \<le> src_size ?src" by (simp add: bytes)
  ultimately have "read_message_body ?src 4 ''index section'' = Inr ?ix"
    by (auto simp: read_message_body_def Let_def small)
  then show ?thesis
    using assms by (simp add: read_index_section_def manifest_ok_def)
qed

definition loaded_manifest :: "manifest \<Rightarrow> manifest" where
  "loaded_manifest w = (on_wire w)\<lparr>m_indices := m_indices w\<rparr>"

lemma load_written:
  assumes "manifest_ok mc limits w" "m_has_index_section w = (m_indices w \<noteq> [])" "m_indices w \<noteq> [] \<Longrightarrow> m_index_section w = 4"
    and "check \<Longrightarrow> check_manifest_readable w = Inr ()"
  shows "load_manifest_source mc limits (bytes_source (manifest_bytes mc w)) check = Inr (loaded_manifest w)"
proof -
  have "length (file_head mc w) < 2 ^ 64"
    using assms(1) by (simp add: file_head_def manifest_ok_def)
  moreover have "4 \<le> length (file_head mc w)" by (simp add: file_head_def)
  ultimately have body: "read_manifest_body (bytes_source (manifest_bytes mc w)) = Inr (pb_encode_manifest mc w)"
    using framed_body assms(1) unfolding manifest_bytes_eq by (simp add: manifest_ok_def)
  have "load_indices mc (bytes_source (manifest_bytes mc w)) (on_wire w) = loaded_manifest w"
    using read_index_section_written [OF _ _ assms(1)] assms(2,3)
    by (auto simp: load_indices_def on_wire_def loaded_manifest_def)
  moreover have "check_manifest_readable (on_wire w) = check_manifest_readable w"
    by (simp add: check_manifest_readable_def check_paired_flags_def on_wire_def)
  ultimately show ?thesis
    using body assms(1,4)
    by (auto simp: load_manifest_source_def manifest_ok_def Let_def loaded_manifest_def on_wire_def list_ex_iff)
qed

subsection \<open>Versions of a dataset\<close>

abbreviation version_names :: "dataset \<Rightarrow> string list" where
  "version_names d \<equiv> map fst (ds_versions d)"

definition well_named :: "dataset \<Rightarrow> bool" where
  "well_named d \<longleftrightarrow> (\<exists>v2. canonical v2 (version_names d))"

definition load_version :: "publish_env \<Rightarrow> dataset \<Rightarrow> u64 \<Rightarrow> manifest result" where
  "load_version e d v = load_manifest_version (pe_manifests e) (pe_limits e) (dataset_store d) v"

lemma open_version:
  assumes "canonical v2 (version_names d)" "\<not> detached v"
  shows "open_version_manifest (dataset_store d) v =
    (case map_of (ds_versions d) (manifest_filename v v2) of
       None \<Rightarrow> Inl (''version '' @ to_string (unat v) @ '' not found'') | Some b \<Rightarrow> Inr (bytes_source b))"
proof -
  have other: "map_of (ds_versions d) (manifest_filename v (\<not> v2)) = None"
    using canonical_other [OF assms] by (simp add: map_of_eq_None_iff)
  have "manifest_candidates v = [manifest_filename v False, manifest_filename v True]"
    using assms(2) by (simp add: manifest_candidates_def manifest_filename_def)
  then show ?thesis
    using other by (cases v2) (auto simp: open_version_manifest_def dataset_store_def split: option.splits)
qed

lemma load_version_eq:
  assumes "canonical v2 (version_names d)" "\<not> detached v"
  shows "load_version e d v =
    (case map_of (ds_versions d) (manifest_filename v v2) of
       None \<Rightarrow> Inl (''version '' @ to_string (unat v) @ '' not found'')
     | Some b \<Rightarrow> load_manifest_source (pe_manifests e) (pe_limits e) (bytes_source b) True)"
  by (simp add: load_version_def load_manifest_version_def open_version [OF assms] split: option.split)

text \<open>A directory that only gained a file has the versions it had, as they were.\<close>

lemma load_version_kept:
  assumes "canonical v2 (version_names d)" "canonical v2 (version_names d')" "ds_versions d' = ds_versions d @ added"
    and "load_version e d v = Inr m" "\<not> detached v"
  shows "load_version e d' v = Inr m"
  using assms by (auto simp: load_version_eq [OF assms(1,5)] load_version_eq [OF assms(2,5)] split: option.splits)

subsection \<open>What publishing does\<close>

definition good_env :: "publish_env \<Rightarrow> bool" where
  "good_env e \<longleftrightarrow> create_only (pe_put e) \<and> (\<not> pe_object_store e \<longrightarrow> pe_put e = link_put)"

lemma link_put_create_only: "create_only link_put"
  by (auto simp: create_only_def link_put_def split: if_splits)

definition transaction_name :: "publish_env \<Rightarrow> manifest \<Rightarrow> string" where
  "transaction_name e m = to_string (unat (txn_read_version m)) @ ''-'' @ pe_uuid e @ ''.txn''"

text \<open>The manifest that publishing \<open>m\<close> writes.\<close>

definition published_form :: "publish_env \<Rightarrow> manifest \<Rightarrow> manifest" where
  "published_form e m = written_manifest (projr (check_data_file_versions m)) (transaction_name e m)"

lemma check_versions_kept:
  assumes "check_data_file_versions m = Inr m'"
  shows "m_version m' = m_version m" "m_indices m' = m_indices m" "m_fragments m' = m_fragments m"
    "txn_read_version m' = txn_read_version m" "m_explicit_operation_field m' = m_explicit_operation_field m"
  using assms
  by (auto simp: check_data_file_versions_def Let_def set_flag_def txn_read_version_def split: if_splits)

text \<open>The transaction of a commit has a name no published manifest has.\<close>

definition fresh_transaction :: "publish_env \<Rightarrow> dataset \<Rightarrow> manifest \<Rightarrow> bool" where
  "fresh_transaction e d m \<longleftrightarrow> (\<forall>name. published_transaction e d name \<noteq> transaction_name e m)"

text \<open>The published form fits the codec and the limits, and a reader accepts its flags.\<close>

definition fits :: "publish_env \<Rightarrow> manifest \<Rightarrow> bool" where
  "fits e m \<longleftrightarrow> manifest_ok (pe_manifests e) (pe_limits e) (published_form e m) \<and>
     check_manifest_readable (published_form e m) = Inr ()"

lemma transaction_file_name:
  "transaction_file c load uuid m = Some (Inr (name, bytes)) \<Longrightarrow> name = to_string (unat (txn_read_version m)) @ ''-'' @ uuid @ ''.txn''"
  by (auto simp: transaction_file_def Let_def split: option.splits sum.splits if_splits)

lemma write_transaction_file_cases:
  assumes "write_transaction_file e d new = Some (d1, t)"
  shows "(\<exists>error. t = Inl error) \<and> d1 = d \<or> t = Inr (transaction_name e new) \<and> ds_versions d1 = ds_versions d"
proof -
  from assms obtain z where z: "transaction_file (pe_messages e)
      (load_manifest_version (pe_manifests e) (pe_limits e) (dataset_store d)) (pe_uuid e) new = Some z"
    "(case z of Inl error \<Rightarrow> (d, Inl error)
      | Inr (name, bytes) \<Rightarrow> (case pe_transaction_error e of Some error \<Rightarrow> (d, Inl error)
          | None \<Rightarrow> (d\<lparr>ds_transactions := (name, bytes) # ds_transactions d\<rparr>, Inr name))) = (d1, t)"
    unfolding write_transaction_file_def by blast
  show ?thesis
  proof (cases z)
    case (Inl error)
    with z(2) show ?thesis by auto
  next
    case (Inr p)
    with z show ?thesis
      by (cases p; cases "pe_transaction_error e") (auto simp: transaction_name_def dest!: transaction_file_name)
  qed
qed

lemma publish_manifestE:
  assumes "publish_manifest e d m = Some (d', r)"
  obtains (refused) error where "r = Inl error" "d' = d"
  | (put) d1 where "ds_versions d1 = ds_versions d" "put_manifest e d1 (m_version m) (published_form e m) = (d', r)"
proof (cases "check_publish e m")
  case (Inl error)
  with assms refused [of error] show ?thesis by (simp add: publish_manifest_def)
next
  case (Inr checked)
  then have checked: "check_data_file_versions m = Inr checked"
    by (auto simp: check_publish_def sbind_eq_Inr split: option.splits if_splits)
  from assms Inr obtain d1 t where txn: "write_transaction_file e d checked = Some (d1, t)"
    and r: "(case t of Inl error \<Rightarrow> (d1, Inl error)
      | Inr transaction \<Rightarrow> put_manifest e d1 (m_version m) (written_manifest checked transaction)) = (d', r)"
    by (auto simp: publish_manifest_def)
  show ?thesis
  proof (cases t)
    case (Inl error)
    with write_transaction_file_cases [OF txn] have "d1 = d" by auto
    with Inl r refused show ?thesis by auto
  next
    case (Inr transaction)
    with write_transaction_file_cases [OF txn] have "ds_versions d1 = ds_versions d" "transaction = transaction_name e checked"
      by auto
    moreover have "transaction_name e checked = transaction_name e m"
      using check_versions_kept [OF checked] by (simp add: transaction_name_def)
    ultimately show ?thesis
      using put [of d1] Inr r checked by (simp add: published_form_def)
  qed
qed

lemma published_form_parts:
  "m_transaction_file (published_form e m) = transaction_name e m"
  "m_has_index_section (published_form e m) = (m_indices (published_form e m) \<noteq> [])"
  "m_indices (published_form e m) \<noteq> [] \<Longrightarrow> m_index_section (published_form e m) = 4"
  by (auto simp: published_form_def written_manifest_def)

lemma load_published:
  assumes "fits e m"
  shows "load_manifest_source (pe_manifests e) (pe_limits e) (bytes_source (manifest_bytes (pe_manifests e) (published_form e m))) check =
    Inr (loaded_manifest (published_form e m))"
  using assms load_written [OF _ published_form_parts(2,3)] by (simp add: fits_def)

text \<open>Putting a manifest in place adds its file or changes no file, and reports success exactly when it added it, if the answer is
  reliable or the file itself tells.\<close>

lemma put_manifest_outcome:
  assumes "good_env e" "put_manifest e d v (published_form e m) = (d', r)" "fresh_transaction e d m"
  defines "name \<equiv> manifest_filename v (name_scheme (version_names d))"
    and "bytes \<equiv> manifest_bytes (pe_manifests e) (published_form e m)"
  shows "ds_versions d' = ds_versions d \<and> r \<noteq> Inr () \<or>
    map_of (ds_versions d) name = None \<and> ds_versions d' = ds_versions d @ [(name, bytes)]"
proof -
  obtain dir outcome where out: "pe_put e (ds_versions d) name bytes = (dir, outcome)" by (cases "pe_put e (ds_versions d) name bytes")
  have create: "case outcome of
      Stored \<Rightarrow> map_of (ds_versions d) name = None \<and> dir = ds_versions d @ [(name, bytes)]
    | Taken \<Rightarrow> (map_of (ds_versions d) name \<noteq> None \<and> dir = ds_versions d) \<or>
        (map_of (ds_versions d) name = None \<and> dir = ds_versions d @ [(name, bytes)])
    | Failed _ \<Rightarrow> dir = ds_versions d \<or> (map_of (ds_versions d) name = None \<and> dir = ds_versions d @ [(name, bytes)])"
    using assms(1) out unfolding good_env_def create_only_def by blast
  have same: "published_transaction e (d\<lparr>ds_versions := ds_versions d\<rparr>) name \<noteq> transaction_name e m"
    using assms(3) by (simp add: fresh_transaction_def)
  have versions: "ds_versions (remove_transaction_file t x) = ds_versions x" for t x
    by (simp add: remove_transaction_file_def)
  show ?thesis
    using assms(2) create same out
    by (auto simp: put_manifest_def Let_def name_def bytes_def published_form_parts versions split: put_outcome.splits if_splits)
qed

lemma fresh_transaction_cong: "ds_versions d1 = ds_versions d \<Longrightarrow> fresh_transaction e d1 m = fresh_transaction e d m"
  by (simp add: fresh_transaction_def published_transaction_def load_manifest_file_def dataset_store_def)

lemma publish_outcome:
  assumes "good_env e" "fresh_transaction e d m" "publish_manifest e d m = Some (d', r)"
  defines "name \<equiv> manifest_filename (m_version m) (name_scheme (version_names d))"
    and "bytes \<equiv> manifest_bytes (pe_manifests e) (published_form e m)"
  shows "ds_versions d' = ds_versions d \<and> r \<noteq> Inr () \<or>
    map_of (ds_versions d) name = None \<and> ds_versions d' = ds_versions d @ [(name, bytes)]"
  using assms(3)
proof (cases rule: publish_manifestE)
  case (put d1)
  with assms(1,2) fresh_transaction_cong [OF put(1)] show ?thesis
    using put_manifest_outcome [of e d1 "m_version m" m d' r] by (simp add: name_def bytes_def)
qed auto

lemma publish_keeps:
  assumes "good_env e" "fresh_transaction e d m" "publish_manifest e d m = Some (d', r)" "well_named d" "m_version m \<noteq> 0"
  shows "well_named d'" "\<not> detached v \<Longrightarrow> load_version e d v = Inr x \<Longrightarrow> load_version e d' v = Inr x"
proof -
  let ?v2 = "name_scheme (version_names d)"
  have old: "canonical ?v2 (version_names d)" using assms(4) canonical_name_scheme by (auto simp: well_named_def)
  obtain added where added: "ds_versions d' = ds_versions d @ added" "added = [] \<or> (\<exists>b. added = [(manifest_filename (m_version m) ?v2, b)])"
    using publish_outcome [OF assms(1-3)] by auto
  have new: "canonical ?v2 (version_names d')"
    using old canonical_add [OF old assms(5)] added by auto
  then show "well_named d'" by (auto simp: well_named_def)
  show "\<not> detached v \<Longrightarrow> load_version e d v = Inr x \<Longrightarrow> load_version e d' v = Inr x"
    using load_version_kept [OF old new added(1)] .
qed

lemma publish_stores:
  assumes "good_env e" "fresh_transaction e d m" "publish_manifest e d m = Some (d', Inr ())" "well_named d" "m_version m \<noteq> 0"
    and "fits e m" "\<not> detached (m_version m)"
  shows "m_version m \<notin> versions_in (version_names d)" "load_version e d' (m_version m) = Inr (loaded_manifest (published_form e m))"
    "versions_in (version_names d') = insert (m_version m) (versions_in (version_names d))"
proof -
  let ?v2 = "name_scheme (version_names d)"
  have old: "canonical ?v2 (version_names d)" using assms(4) canonical_name_scheme by (auto simp: well_named_def)
  let ?name = "manifest_filename (m_version m) ?v2"
  have added: "map_of (ds_versions d) ?name = None"
    "ds_versions d' = ds_versions d @ [(?name, manifest_bytes (pe_manifests e) (published_form e m))]"
    using publish_outcome [OF assms(1-3)] by auto
  then show "m_version m \<notin> versions_in (version_names d)"
    using canonical_versions [OF old] by (force simp: map_of_eq_None_iff)
  have new: "canonical ?v2 (version_names d')" using canonical_add [OF old assms(5)] added(2) by simp
  show "load_version e d' (m_version m) = Inr (loaded_manifest (published_form e m))"
    using added load_published [OF assms(6)] by (simp add: load_version_eq [OF new assms(7)] map_add_def)
  show "versions_in (version_names d') = insert (m_version m) (versions_in (version_names d))"
    using added(2) parse_filename [OF assms(7)] by auto
qed


text \<open>C39: the name of a version of the lineage gives the version back in either naming
  scheme, and the name of a detached version is not taken for one of the lineage.\<close>

theorem manifest_name_round_trip:
  "parse_manifest_version (manifest_filename v v2) = (if detached v then None else Some v)"
  by (simp add: parse_filename parse_detached)

text \<open>An object store whose answers are always lost: every write is reported as taken, its own included.\<close>

definition lost_put :: put where
  "lost_put dir name bytes = (if map_of dir name = None then dir @ [(name, bytes)] else dir, Taken)"

definition example_manifest_codecs :: manifest_codecs where
  "example_manifest_codecs = \<lparr>
     pb_decode_manifest = (\<lambda>b. Some (new_manifest\<lparr>m_version := 1, m_format_version := ''2.2'', m_transaction_file := text_of (tl b)\<rparr>)),
     pb_decode_index_section = (\<lambda>_. Inr []), pb_encode_manifest = (\<lambda>m. 0 # bytes_of (m_transaction_file m)),
     pb_encode_index_section = (\<lambda>_. [])\<rparr>"

definition example_message_codecs :: message_codecs where
  "example_message_codecs = \<lparr>pb_decode_fragment = (\<lambda>_. None), pb_decode_field = (\<lambda>_. None), pb_decode_index = (\<lambda>_. None),
     pb_decode_file = (\<lambda>_. None), pb_encode_fragment = (\<lambda>_. []), pb_encode_field = (\<lambda>_. []), pb_encode_index = (\<lambda>_. [])\<rparr>"

definition example_publish_env :: publish_env where
  "example_publish_env = \<lparr>pe_messages = example_message_codecs, pe_manifests = example_manifest_codecs, pe_limits = initial_read_limits,
     pe_put = lost_put, pe_uuid = ''u'', pe_transaction_error = None, pe_object_store = True, pe_path = ''s3://b/t''\<rparr>"

definition no_versions :: dataset where
  "no_versions = \<lparr>ds_versions = [], ds_transactions = []\<rparr>"

definition example_first :: manifest where
  "example_first = new_manifest\<lparr>m_version := 1, m_format_version := ''2.2'', m_operation := OverwriteTag\<rparr>"

definition example_published :: dataset where
  "example_published = fst (the (publish_manifest example_publish_env no_versions example_first))"

lemma example_fits: "fits example_publish_env example_first"
proof -
  let ?e = example_publish_env
  have form: "published_form ?e example_first = example_first\<lparr>m_transaction_file := transaction_name ?e example_first\<rparr>"
    by (simp add: published_form_def written_manifest_def check_data_file_versions_def storage_version_def example_first_def
        new_manifest_def)
  have "length (transaction_name ?e example_first) < 100"
    by (simp add: transaction_name_def txn_read_version_def example_first_def example_publish_env_def new_manifest_def to_string.simps)
  then show ?thesis
    unfolding fits_def form
    by (simp add: manifest_ok_def on_wire_def example_publish_env_def example_manifest_codecs_def example_first_def new_manifest_def
        check_manifest_readable_def check_paired_flags_def)
qed

lemma example_publish: "publish_manifest example_publish_env no_versions example_first = Some (example_published, Inr ())"
proof -
  let ?e = example_publish_env
  have check: "check_publish ?e example_first = Inr example_first" "check_data_file_versions example_first = Inr example_first"
    by (simp_all add: check_publish_def check_manifest_writable_def check_paired_flags_def check_data_file_versions_def
        storage_version_def example_publish_env_def example_first_def new_manifest_def)
  obtain bytes where txn: "write_transaction_file ?e no_versions example_first =
      Some (no_versions\<lparr>ds_transactions := [(transaction_name ?e example_first, bytes)]\<rparr>, Inr (transaction_name ?e example_first))"
    by (simp add: write_transaction_file_def transaction_file_def needs_parent_def derive_operation_def txn_read_version_def
        example_publish_env_def example_first_def new_manifest_def no_versions_def transaction_name_def Let_def)
  have form: "written_manifest example_first (transaction_name ?e example_first) = published_form ?e example_first"
    by (simp add: published_form_def check)
  have "put_manifest ?e d 1 (published_form ?e example_first) = (d', r) \<Longrightarrow> r = Inr ()" if "ds_versions d = []" for d d' r
    using that load_published [OF example_fits]
    by (simp add: put_manifest_def lost_put_def published_transaction_def load_manifest_file_def dataset_store_def Let_def
        published_form_parts loaded_manifest_def on_wire_def example_publish_env_def)
  then have "snd (put_manifest ?e (no_versions\<lparr>ds_transactions := [(transaction_name ?e example_first, bytes)]\<rparr>) 1
      (published_form ?e example_first)) = Inr ()"
    by (metis no_versions_def dataset.select_convs(1) dataset.simps(5) prod.collapse)
  then have "\<exists>d'. publish_manifest ?e no_versions example_first = Some (d', Inr ())"
    by (cases "put_manifest ?e (no_versions\<lparr>ds_transactions := [(transaction_name ?e example_first, bytes)]\<rparr>) 1 (published_form ?e example_first)")
      (simp add: publish_manifest_def check txn form, simp add: example_first_def)
  then show ?thesis by (auto simp: example_published_def)
qed


end
