(* ===== verification/Version_Store.thy ===== *)
theory Version_Store
  imports Manifest_File
begin

text \<open>
  The versions of a dataset as its writers see them: a store to which a version is added once and in which it never changes.
  The locale states what committing relies on; it is interpreted on \<open>publish_manifest\<close> over a local file system, where a
  hard link makes the version (\<open>src/src/table/manifest_writer.cpp\<close>, \<open>src/src/io/byte_sink.cpp\<close>).
\<close>

subsection \<open>Writers that publish\<close>

text \<open>Writers publish in any order; \<open>won\<close> are the manifests whose publication succeeded.\<close>

inductive history :: "('d \<Rightarrow> manifest \<Rightarrow> ('d \<times> unit result) option) \<Rightarrow> 'd \<Rightarrow> manifest list \<Rightarrow> 'd \<Rightarrow> bool" for publish where
  start: "history publish d [] d"
| lost: "history publish d won d1 \<Longrightarrow> publish d1 m = Some (d2, Inl error) \<Longrightarrow> m_version m \<noteq> 0 \<Longrightarrow> history publish d won d2"
| won: "history publish d won d1 \<Longrightarrow> publish d1 m = Some (d2, Inr ()) \<Longrightarrow> m_version m \<noteq> 0 \<Longrightarrow> \<not> detached (m_version m) \<Longrightarrow>
    history publish d (won @ [m]) d2"

subsection \<open>The contract\<close>

locale version_store =
  fixes wf :: "'d \<Rightarrow> bool"
    and content :: "'d \<Rightarrow> u64 \<Rightarrow> byte list option"
    and publish :: "'d \<Rightarrow> manifest \<Rightarrow> ('d \<times> unit result) option"
    and written :: "manifest \<Rightarrow> byte list"
  assumes publish_wf: "publish d m = Some (d', r) \<Longrightarrow> wf d \<Longrightarrow> m_version m \<noteq> 0 \<Longrightarrow> wf d'"
    and publish_keeps: "publish d m = Some (d', r) \<Longrightarrow> wf d \<Longrightarrow> m_version m \<noteq> 0 \<Longrightarrow> content d v = Some b \<Longrightarrow> content d' v = Some b"
    and publish_adds: "publish d m = Some (d', Inr ()) \<Longrightarrow> wf d \<Longrightarrow> m_version m \<noteq> 0 \<Longrightarrow> \<not> detached (m_version m) \<Longrightarrow>
      content d (m_version m) = None \<and> content d' (m_version m) = Some (written m)"
begin

lemma history_wf: "history publish d won d' \<Longrightarrow> wf d \<Longrightarrow> wf d'"
  by (induction rule: history.induct) (auto intro: publish_wf)

lemma history_keeps: "history publish d won d' \<Longrightarrow> wf d \<Longrightarrow> content d v = Some b \<Longrightarrow> content d' v = Some b"
proof (induction rule: history.induct)
  case (lost d won d1 m d2 error)
  then show ?case using publish_keeps [OF lost.hyps(2)] history_wf by blast
next
  case (won d ms d1 m d2)
  then show ?case using publish_keeps [OF won.hyps(2)] history_wf by blast
qed simp

text \<open>No two publications of one version succeed, and what each wrote stays.\<close>

lemma history_won:
  assumes "history publish d won d'" "wf d"
  shows "distinct (map m_version won)" "m \<in> set won \<Longrightarrow> content d' (m_version m) = Some (written m)"
    "m \<in> set won \<Longrightarrow> content d (m_version m) = None"
  using assms
proof (induction arbitrary: m rule: history.induct)
  case (lost d won d1 m' d2 error)
  note later = publish_keeps [OF lost.hyps(2) history_wf [OF lost.hyps(1)] lost.hyps(3)]
  { case 1 then show ?case using lost by blast }
  { case 2 then show ?case using lost.IH(2) later by blast }
  { case 3 then show ?case using lost.IH(3) by blast }
next
  case (won d ms d1 m' d2)
  note wf = history_wf [OF won.hyps(1)]
  note later = publish_keeps [OF won.hyps(2) wf won.hyps(3)]
  note added = publish_adds [OF won.hyps(2) wf won.hyps(3,4)]
  have absent: "content d (m_version m') = None" if "wf d"
    using history_keeps [OF won.hyps(1) that, of "m_version m'"] added [OF that] by (cases "content d (m_version m')") auto
  { case 1
    then have "m_version m' \<notin> m_version ` set ms" using won.IH(2) added by force
    with 1 show ?case using won.IH(1) by simp }
  { case 2 then show ?case using won.IH(2) later added by auto }
  { case 3 then show ?case using won.IH(3) absent by auto }
qed auto

end

subsection \<open>A dataset on a local file system\<close>

definition local_env :: "publish_env \<Rightarrow> publish_env" where
  "local_env e = e\<lparr>pe_put := link_put, pe_object_store := False\<rparr>"

definition version_bytes :: "dataset \<Rightarrow> u64 \<Rightarrow> byte list option" where
  "version_bytes d v = (if detached v then None
     else map_of (ds_versions d) (manifest_filename v (name_scheme (version_names d))))"

definition written_bytes :: "publish_env \<Rightarrow> manifest \<Rightarrow> byte list" where
  "written_bytes e m = manifest_bytes (pe_manifests e) (published_form e m)"

lemma local_put:
  assumes "put_manifest (local_env e) d v w = (d', r)"
  defines "name \<equiv> manifest_filename v (name_scheme (version_names d))"
  shows "ds_versions d' = ds_versions d \<and> r = Inl (''commit conflict: version '' @ to_string (unat v) @ '' was committed concurrently'') \<and>
      map_of (ds_versions d) name \<noteq> None \<or>
    ds_versions d' = ds_versions d @ [(name, manifest_bytes (pe_manifests e) w)] \<and> r = Inr () \<and> map_of (ds_versions d) name = None"
  using assms(1)
  by (auto simp: put_manifest_def local_env_def link_put_def remove_transaction_file_def name_def Let_def split: if_splits)

lemma local_publish:
  assumes "publish_manifest (local_env e) d m = Some (d', r)"
  defines "name \<equiv> manifest_filename (m_version m) (name_scheme (version_names d))"
  shows "ds_versions d' = ds_versions d \<and> r \<noteq> Inr () \<or>
    ds_versions d' = ds_versions d @ [(name, written_bytes (local_env e) m)] \<and> r = Inr () \<and> map_of (ds_versions d) name = None"
  using assms(1)
proof (cases rule: publish_manifestE)
  case (put d1)
  have "pe_manifests (local_env e) = pe_manifests e" by (simp add: local_env_def)
  with local_put [OF put(2)] put(1) show ?thesis by (auto simp: name_def written_bytes_def)
qed auto

text \<open>A directory whose names stay well formed while files are added keeps its versions.\<close>

lemma version_bytes_mono:
  assumes "well_named d'" "ds_versions d' = ds_versions d @ added" "version_bytes d v = Some b"
  shows "version_bytes d' v = Some b"
proof -
  obtain v2 where v2: "canonical v2 (version_names d')" using assms(1) by (auto simp: well_named_def)
  then have old: "canonical v2 (version_names d)" using assms(2) by (auto simp: canonical_def)
  have v: "\<not> detached v" "map_of (ds_versions d) (manifest_filename v (name_scheme (version_names d))) = Some b"
    using assms(3) by (auto simp: version_bytes_def split: if_splits)
  then have "manifest_filename v (name_scheme (version_names d)) \<in> set (version_names d)"
    by (metis image_set map_of_eq_None_iff option.distinct(1))
  then have "v \<in> versions_in (version_names d)"
    using parse_filename [OF v(1)] unfolding versions_in_def by blast
  moreover from this have "v \<in> versions_in (version_names d')" using assms(2) by simp
  ultimately have "name_scheme (version_names d) = v2" "name_scheme (version_names d') = v2"
    using name_scheme_canonical [OF old] name_scheme_canonical [OF v2] by auto
  with v assms(2) show ?thesis by (auto simp: version_bytes_def)
qed

lemma local_publish_wf:
  assumes "publish_manifest (local_env e) d m = Some (d', r)" "well_named d" "m_version m \<noteq> 0"
  shows "well_named d'" "\<exists>added. ds_versions d' = ds_versions d @ added"
proof -
  obtain v2 where "canonical v2 (version_names d)" using assms(2) by (auto simp: well_named_def)
  from canonical_add [OF this assms(3)] local_publish [OF assms(1)] assms(2) show "well_named d'"
    by (auto simp: well_named_def)
  show "\<exists>added. ds_versions d' = ds_versions d @ added"
    using local_publish [OF assms(1)] by auto
qed

interpretation vs: version_store well_named version_bytes "publish_manifest (local_env e)" "written_bytes (local_env e)" for e
proof
  fix d m d' r v b
  assume publish: "publish_manifest (local_env e) d m = Some (d', r)" "well_named d" "m_version m \<noteq> 0"
  note wf = local_publish_wf [OF publish]
  then show "well_named d'" by blast
  show "version_bytes d v = Some b \<Longrightarrow> version_bytes d' v = Some b"
    using version_bytes_mono wf by blast
next
  fix d m d'
  assume publish: "publish_manifest (local_env e) d m = Some (d', Inr ())" "well_named d" "m_version m \<noteq> 0" "\<not> detached (m_version m)"
  let ?v2 = "name_scheme (version_names d)"
  have added: "ds_versions d' = ds_versions d @ [(manifest_filename (m_version m) ?v2, written_bytes (local_env e) m)]"
    "map_of (ds_versions d) (manifest_filename (m_version m) ?v2) = None"
    using local_publish [OF publish(1)] by auto
  obtain v2 where "canonical v2 (version_names d)" using publish(2) by (auto simp: well_named_def)
  from canonical_add [OF this publish(3)] have new: "canonical ?v2 (version_names d')" by (simp add: added)
  have "m_version m \<in> versions_in (version_names d')"
    using added(1) parse_filename [OF publish(4)] by simp
  then have "name_scheme (version_names d') = ?v2" using name_scheme_canonical [OF new] by auto
  with added publish(4) show "version_bytes d (m_version m) = None \<and> version_bytes d' (m_version m) = Some (written_bytes (local_env e) m)"
    by (simp add: version_bytes_def map_add_def)
qed

lemma load_version_bytes:
  assumes "well_named d" "\<not> detached v"
  shows "load_version e d v = (case version_bytes d v of
      None \<Rightarrow> Inl (''version '' @ to_string (unat v) @ '' not found'')
    | Some b \<Rightarrow> load_manifest_source (pe_manifests e) (pe_limits e) (bytes_source b) True)"
proof -
  obtain v2 where "canonical v2 (version_names d)" using assms(1) by (auto simp: well_named_def)
  from load_version_eq [OF canonical_name_scheme [OF this] assms(2)] show ?thesis
    using assms(2) by (simp add: version_bytes_def)
qed

subsection \<open>When publishing conflicts\<close>

text \<open>A local file system: the manifest is linked in place, and writing a transaction file fails with an error of the file
  system, which does not read like a conflict.\<close>

definition is_local :: "publish_env \<Rightarrow> bool" where
  "is_local e \<longleftrightarrow> pe_put e = link_put \<and> \<not> pe_object_store e"

lemma is_local_eq: "is_local e \<Longrightarrow> local_env e = e"
  by (simp add: is_local_def local_env_def)

lemma is_local_env: "is_local (local_env e)"
  by (simp add: is_local_def local_env_def)

lemma unat_next: "\<not> detached v \<Longrightarrow> unat (v + 1) = Suc (unat v)"
proof -
  assume "\<not> detached v"
  then have "v \<noteq> - 1" by (auto simp: detached_def)
  then have "1 + v \<noteq> 0" by (metis add.commute add_eq_0_iff)
  from unatSuc [OF this] show ?thesis by (simp add: add.commute)
qed

lemma next_nonzero: "\<not> detached v \<Longrightarrow> v + 1 \<noteq> 0"
  using unat_next [of v] by auto

text \<open>The next version of a directory is not there yet.\<close>

lemma next_version_absent:
  assumes "well_named d" "\<not> detached (highest_manifest_version (version_names d) + 1)"
  shows "version_bytes d (highest_manifest_version (version_names d) + 1) = None"
proof -
  let ?h = "highest_manifest_version (version_names d)"
  obtain v2 where v2: "canonical v2 (version_names d)" using assms(1) by (auto simp: well_named_def)
  have "unat (?h + 1) = Suc (unat ?h)" by (rule unat_next [OF canonical_highest(2) [OF v2]])
  then have "\<not> ?h + 1 \<le> ?h" by (simp add: word_le_nat_alt)
  then have "?h + 1 \<notin> versions_in (version_names d)" using highest_bounds by blast
  then have "manifest_filename (?h + 1) (name_scheme (version_names d)) \<notin> set (version_names d)"
    using canonical_versions [OF canonical_name_scheme [OF v2]] assms(2) by blast
  then show ?thesis by (simp add: version_bytes_def map_of_eq_None_iff)
qed

lemma version_bytes_in:
  assumes "well_named d" "version_bytes d v \<noteq> None"
  shows "v \<in> versions_in (version_names d)"
proof -
  obtain v2 where "canonical v2 (version_names d)" using assms(1) by (auto simp: well_named_def)
  note there = canonical_versions [OF canonical_name_scheme [OF this], of v]
  have "\<not> detached v" "map_of (ds_versions d) (manifest_filename v (name_scheme (version_names d))) \<noteq> None"
    using assms(2) by (simp_all add: version_bytes_def split: if_splits)
  then show ?thesis unfolding there by (simp add: map_of_eq_None_iff)
qed




definition example_local_env :: publish_env where
  "example_local_env = local_env (example_publish_env\<lparr>pe_path := ''t''\<rparr>)"

lemma example_local: "local_env example_local_env = example_local_env"
  by (simp add: example_local_env_def local_env_def)

lemma example_local_publish:
  obtains d1 where "publish_manifest example_local_env d example_first = Some (put_manifest example_local_env d1 1
      (published_form example_local_env example_first))" "ds_versions d1 = ds_versions d"
proof -
  let ?e = example_local_env
  have check: "check_publish ?e example_first = Inr example_first" "check_data_file_versions example_first = Inr example_first"
    by (simp_all add: check_publish_def check_manifest_writable_def check_paired_flags_def check_data_file_versions_def uri_scheme.simps
        storage_version_def example_publish_env_def example_local_env_def local_env_def example_first_def new_manifest_def)
  obtain bytes where txn: "write_transaction_file ?e d example_first =
      Some (d\<lparr>ds_transactions := (transaction_name ?e example_first, bytes) # ds_transactions d\<rparr>, Inr (transaction_name ?e example_first))"
    by (simp add: write_transaction_file_def transaction_file_def needs_parent_def derive_operation_def txn_read_version_def
        example_publish_env_def example_local_env_def local_env_def example_first_def new_manifest_def transaction_name_def Let_def)
  have "written_manifest example_first (transaction_name ?e example_first) = published_form ?e example_first"
    by (simp add: published_form_def check)
  with that [of "d\<lparr>ds_transactions := (transaction_name ?e example_first, bytes) # ds_transactions d\<rparr>"] show ?thesis
    by (simp add: publish_manifest_def check txn, simp add: example_first_def)
qed

lemma example_local_history:
  obtains d where "history (publish_manifest example_local_env) no_versions [example_first] d"
proof -
  obtain d0 where first: "publish_manifest example_local_env no_versions example_first =
      Some (put_manifest example_local_env d0 1 (published_form example_local_env example_first))"
    "ds_versions d0 = ds_versions no_versions" by (rule example_local_publish)
  obtain d1 r1 where put: "put_manifest (local_env example_local_env) d0 1 (published_form example_local_env example_first) = (d1, r1)"
    by fastforce
  from local_put [OF put] first(2) have "r1 = Inr ()" by (auto simp: no_versions_def)
  with first put have "publish_manifest example_local_env no_versions example_first = Some (d1, Inr ())" by (simp add: example_local)
  then show ?thesis using history.won [OF history.start] that by (fastforce simp: example_first_def detached_def)
qed


end
