(* ===== verification/Commit_Protocol.thy ===== *)
theory Commit_Protocol
  imports Version_Store Deletion_Merge
begin

text \<open>
  Committing a change made from a version that may no longer be the latest
  (\<open>commit_next_version\<close> in \<open>src/src/dataset/dataset.cpp\<close>). The change is published as the version after the one it was read
  at; when another writer took that version, it is checked against every version committed since, rebased onto the
  latest and published again, a bounded number of times.

  Other writers act between the steps: \<open>others i\<close> is what they do to the dataset before the commit's step \<open>i\<close>. The
  properties hold for every such function that only adds versions.
\<close>

subsection \<open>The operation of a version\<close>

definition version_transaction_bytes :: "dataset \<Rightarrow> u64 \<Rightarrow> manifest \<Rightarrow> byte list result" where
  "version_transaction_bytes d version m =
     (case (if m_transaction_file m = [] then None else map_of (ds_transactions d) (m_transaction_file m)) of
        Some bytes \<Rightarrow> Inr bytes
      | None \<Rightarrow>
          if m_has_transaction_section m then
            (case read_inline_transaction (dataset_store d) version m of
               Inr bytes \<Rightarrow> Inr bytes | Inl _ \<Rightarrow> Inl ''an unreadable transaction section'')
          else Inl (if m_transaction_file m = [] then ''no transaction file'' else ''an unreadable transaction file''))"

definition concurrent_operation :: "message_codecs \<Rightarrow> dataset \<Rightarrow> u64 \<Rightarrow> manifest \<Rightarrow> operation result" where
  "concurrent_operation c d version m =
     sbind (version_transaction_bytes d version m) (\<lambda>bytes.
     case transaction_file_operation bytes of
       Inl _ \<Rightarrow> Inl ''an unreadable transaction file''
     | Inr (field, message) \<Rightarrow>
         if kind_of field = Clone then Inr (new_operation Clone)
         else (case decode_operation c (kind_of field) message of
                 Inl _ \<Rightarrow> Inl ''an operation nanolance cannot read'' | Inr op \<Rightarrow> Inr op))"

subsection \<open>Checking a change against the versions since\<close>

text \<open>What a commit uses of its surroundings, besides publishing: the clock, the writer's version, the fresh id of each try's
  transaction, and the number of tries.\<close>

record commit_env =
  ce_publish :: publish_env
  ce_codecs :: codecs
  ce_io :: io_env
  ce_clock :: "int \<times> int"
  ce_writer_version :: string
  ce_uuid :: "nat \<Rightarrow> string"
  ce_attempts :: nat

type_synonym affected_rows = "u64 \<rightharpoonup> u32 list"

definition theirs_name :: "operation \<Rightarrow> string" where
  "theirs_name op = (if op_kind op = Clone then ''Clone'' else operation_name (op_kind op))"

definition verdict_on :: "affected_rows option \<Rightarrow> manifest \<Rightarrow> operation \<Rightarrow> operation \<Rightarrow> verdict" where
  "verdict_on affected base mine theirs =
     (if affected = None then check_txn mine theirs else check_txn_with_affected_rows mine theirs base)"

definition check_version ::
  "commit_env \<Rightarrow> dataset \<Rightarrow> manifest \<Rightarrow> affected_rows option \<Rightarrow> operation \<Rightarrow> operation list \<Rightarrow> u64 \<Rightarrow> operation list result" where
  "check_version ce d base affected mine theirs_ops version =
     (let ours_name = operation_name (op_kind mine) in
      sbind (load_version (ce_publish ce) d version) (\<lambda>m.
      case concurrent_operation (pe_messages (ce_publish ce)) d version m of
        Inl reason \<Rightarrow> Inl (retryable_error version ours_name (''an operation ('' @ reason @ '')''))
      | Inr theirs \<Rightarrow>
          (case verdict_on affected base mine theirs of
             Compatible \<Rightarrow> Inr (theirs_ops @ [theirs])
           | Retryable \<Rightarrow> Inl (retryable_error version ours_name (theirs_name theirs))
           | Incompatible \<Rightarrow> Inl (''Incompatible transaction: This '' @ ours_name @ '' transaction is incompatible with concurrent transaction '' @
               theirs_name theirs @ '' at version '' @ to_string (unat version) @ ''.''))))"

text \<open>The versions after one, up to another.\<close>

definition versions_after :: "u64 \<Rightarrow> u64 \<Rightarrow> u64 list" where
  "versions_after read_version latest = map of_nat [unat read_version + 1 ..< unat latest + 1]"

text \<open>The change as an operation, and the operations it was checked against. \<open>None\<close>: deriving the operation does not return.\<close>

definition classify_concurrent ::
  "commit_env \<Rightarrow> dataset \<Rightarrow> manifest \<Rightarrow> manifest \<Rightarrow> u64 \<Rightarrow> u64 \<Rightarrow> affected_rows option \<Rightarrow>
   (operation \<times> operation list) result option" where
  "classify_concurrent ce d base ours read_version latest affected =
     map_option (\<lambda>(k, message).
       case decode_operation (pe_messages (ce_publish ce)) k message of
         Inl _ \<Rightarrow> Inl (retryable_error (read_version + 1) (operation_name k) ''an operation'')
       | Inr mine \<Rightarrow>
           sbind (sfold (check_version ce d base affected mine) [] (versions_after read_version latest)) (\<lambda>theirs_ops.
           Inr (mine, theirs_ops)))
     (derive_operation (pe_messages (ce_publish ce)) (Some base) ours)"

subsection \<open>One try of a rebase\<close>

definition merge_affected ::
  "commit_env \<Rightarrow> manifest \<Rightarrow> manifest \<Rightarrow> u64 \<Rightarrow> affected_rows option \<Rightarrow> operation \<Rightarrow> operation list \<Rightarrow> operation result" where
  "merge_affected ce base latest latest_version affected mine theirs_ops =
     (case affected of
        Some rows \<Rightarrow>
          if op_kind mine = Delete \<or> op_kind mine = Update then
            merge_deletion_vectors (ce_io ce) base latest latest_version rows
              (if theirs_ops = [] then [] else theirs_name (last theirs_ops)) mine
          else Inr mine
      | None \<Rightarrow> Inr mine)"

text \<open>The rebased manifest keeps the change's own stamp and operation tag.\<close>

definition finish_rebase :: "manifest \<Rightarrow> manifest \<Rightarrow> u64 \<Rightarrow> kind \<Rightarrow> manifest \<Rightarrow> manifest" where
  "finish_rebase ours latest version k rebased =
     (let r = (if list_ex (\<lambda>f. del_present (fr_deletion f)) (m_fragments rebased)
               then set_flag True kFlagDeletionFiles rebased else rebased)
      in r\<lparr>m_version := version, m_has_timestamp := m_has_timestamp ours, m_timestamp_seconds := m_timestamp_seconds ours,
           m_timestamp_nanos := m_timestamp_nanos ours, m_writer_library := m_writer_library ours,
           m_writer_version := m_writer_version ours, m_operation := m_operation ours,
           m_restored_version := m_restored_version ours, m_reserved_fragments := m_reserved_fragments ours,
           m_first_new_fragment := (if k = Append then length (m_fragments latest) else m_first_new_fragment ours),
           m_transaction_file := [], m_tag := []\<rparr>)"

definition rebase_attempt ::
  "commit_env \<Rightarrow> dataset \<Rightarrow> manifest \<Rightarrow> manifest \<Rightarrow> u64 \<Rightarrow> affected_rows option \<Rightarrow> manifest result option" where
  "rebase_attempt ce d base ours read_version affected =
     (let e = ce_publish ce in
      case sbind (load_latest_manifest (pe_manifests e) (pe_limits e) (dataset_store d)) (\<lambda>(latest, latest_version).
           sbind (check_manifest_writable latest CommitWrite) (\<lambda>_. Inr (latest, latest_version))) of
        Inl error \<Rightarrow> Some (Inl error)
      | Inr (latest, latest_version) \<Rightarrow>
          Option.bind (classify_concurrent ce d base ours read_version latest_version affected) (\<lambda>r.
          case sbind r (\<lambda>(mine, theirs).
               sbind (merge_affected ce base latest latest_version affected mine theirs) (\<lambda>mine. Inr (mine, theirs))) of
            Inl error \<Rightarrow> Some (Inl error)
          | Inr (mine, theirs) \<Rightarrow>
              map_option (\<lambda>r. sbind r (\<lambda>rebased. Inr (finish_rebase ours latest (latest_version + 1) (op_kind mine) rebased)))
                (rebase_operation (ce_codecs ce) (pe_limits e) latest ours mine theirs (latest_version + 1))))"

subsection \<open>The commit\<close>

definition publish_try :: "commit_env \<Rightarrow> nat \<Rightarrow> dataset \<Rightarrow> manifest \<Rightarrow> (dataset \<times> unit result) option" where
  "publish_try ce i d m = publish_manifest ((ce_publish ce)\<lparr>pe_uuid := ce_uuid ce i\<rparr>) d m"

fun commit_retry ::
  "commit_env \<Rightarrow> (nat \<Rightarrow> dataset \<Rightarrow> dataset) \<Rightarrow> manifest \<Rightarrow> manifest \<Rightarrow> u64 \<Rightarrow> affected_rows option \<Rightarrow> nat \<Rightarrow> nat \<Rightarrow> string \<Rightarrow>
   dataset \<Rightarrow> (dataset \<times> u64 result) option" where
  "commit_retry ce others base ours read_version affected 0 i error d = Some (d, Inl error)"
| "commit_retry ce others base ours read_version affected (Suc n) i error d =
     (let d = others (2 * i + 1) d in
      Option.bind (rebase_attempt ce d base ours read_version affected) (\<lambda>r.
      case r of
        Inl error \<Rightarrow> Some (d, Inl error)
      | Inr rebased \<Rightarrow>
          Option.bind (publish_try ce (i + 1) (others (2 * i + 2) d) rebased) (\<lambda>(d, r).
          case r of
            Inr _ \<Rightarrow> Some (d, Inr (m_version rebased))
          | Inl error \<Rightarrow>
              if is_conflict error then commit_retry ce others base ours read_version affected n (i + 1) error d
              else Some (d, Inl error))))"

text \<open>The version a change was read at: the one it says, or the latest when it says none.\<close>

definition commit_read_version :: "commit_env \<Rightarrow> dataset \<Rightarrow> manifest \<Rightarrow> u64 result" where
  "commit_read_version ce d m =
     (if m_version m \<noteq> 0 then Inr (m_version m)
      else let v = highest_manifest_version (version_names d) in
        if v = 0 then Inl (''Dataset at path '' @ pe_path (ce_publish ce) @ '' was not found'') else Inr v)"

text \<open>The error names the base's flags when the base itself cannot be written.\<close>

definition check_commit :: "commit_env \<Rightarrow> dataset \<Rightarrow> u64 \<Rightarrow> manifest \<Rightarrow> unit result" where
  "check_commit ce d read_version m =
     (case check_manifest_writable m CommitWrite of
        Inr _ \<Rightarrow> Inr ()
      | Inl own_error \<Rightarrow>
          sbind (load_version (ce_publish ce) d read_version) (\<lambda>base.
          sbind (check_manifest_writable base CommitWrite) (\<lambda>_. Inl own_error)))"

definition stamp_commit :: "commit_env \<Rightarrow> u64 \<Rightarrow> manifest \<Rightarrow> manifest" where
  "stamp_commit ce read_version m =
     m\<lparr>m_version := read_version + 1, m_has_timestamp := True, m_timestamp_seconds := fst (ce_clock ce),
       m_timestamp_nanos := snd (ce_clock ce), m_writer_library := ''nanolance'', m_writer_version := ce_writer_version ce,
       m_transaction_file := [], m_tag := []\<rparr>"

definition commit_next_version ::
  "commit_env \<Rightarrow> (nat \<Rightarrow> dataset \<Rightarrow> dataset) \<Rightarrow> dataset \<Rightarrow> manifest \<Rightarrow> affected_rows option \<Rightarrow> (dataset \<times> u64 result) option" where
  "commit_next_version ce others d m affected =
     (case sbind (commit_read_version ce d m) (\<lambda>read_version.
           sbind (check_commit ce d read_version m) (\<lambda>_. Inr read_version)) of
        Inl error \<Rightarrow> Some (d, Inl error)
      | Inr read_version \<Rightarrow>
          let ours = stamp_commit ce read_version m in
          Option.bind (publish_try ce 0 (others 0 d) ours) (\<lambda>(d, r).
          case r of
            Inr _ \<Rightarrow> Some (d, Inr (m_version ours))
          | Inl error \<Rightarrow>
              if \<not> is_conflict error then Some (d, Inl error)
              else case load_version (ce_publish ce) d read_version of
                Inl _ \<Rightarrow> Some (d, Inl error)
              | Inr base \<Rightarrow> commit_retry ce others base ours read_version affected (ce_attempts ce) 0 error d))"

subsection \<open>What a commit stores\<close>

text \<open>Other writers only add versions, and keep the directory in one naming scheme.\<close>

definition extends :: "dataset \<Rightarrow> dataset \<Rightarrow> bool" where
  "extends d d' \<longleftrightarrow> (well_named d \<longrightarrow> well_named d') \<and> (\<exists>added. ds_versions d' = ds_versions d @ added)"

lemma extends_refl [simp]: "extends d d"
  by (simp add: extends_def)

lemma extends_trans [trans]: "extends d d1 \<Longrightarrow> extends d1 d2 \<Longrightarrow> extends d d2"
  unfolding extends_def by (metis append.assoc)

lemma extends_named: "extends d d' \<Longrightarrow> well_named d \<Longrightarrow> well_named d'"
  by (simp add: extends_def)

lemma extends_keeps: "extends d d' \<Longrightarrow> well_named d \<Longrightarrow> version_bytes d v = Some b \<Longrightarrow> version_bytes d' v = Some b"
  using version_bytes_mono by (auto simp: extends_def)

lemma extends_absent: "extends d d' \<Longrightarrow> well_named d \<Longrightarrow> version_bytes d' v = None \<Longrightarrow> version_bytes d v = None"
  using extends_keeps [of d d' v] by (cases "version_bytes d v") auto

lemma extends_highest:
  assumes "extends d d'"
  shows "highest_manifest_version (version_names d) \<le> highest_manifest_version (version_names d')"
  using assms by (auto simp: extends_def highest_append)

abbreviation try_env :: "commit_env \<Rightarrow> nat \<Rightarrow> publish_env" where
  "try_env ce i \<equiv> (ce_publish ce)\<lparr>pe_uuid := ce_uuid ce i\<rparr>"

lemma try_local: "is_local (ce_publish ce) \<Longrightarrow> local_env (try_env ce i) = try_env ce i"
  by (simp add: is_local_def local_env_def)

lemma publish_try_extends:
  assumes "is_local (ce_publish ce)" "publish_try ce i d m = Some (d', r)" "m_version m \<noteq> 0"
  shows "extends d d'"
  using local_publish_wf [of "try_env ce i" d m d' r] local_publish [of "try_env ce i" d m d' r] assms
  by (auto simp: extends_def publish_try_def try_local)

lemma publish_try_stores:
  assumes "is_local (ce_publish ce)" "publish_try ce i d m = Some (d', Inr ())" "well_named d" "m_version m \<noteq> 0"
    and "\<not> detached (m_version m)"
  shows "version_bytes d (m_version m) = None" "version_bytes d' (m_version m) = Some (written_bytes (try_env ce i) m)"
  using vs.publish_adds [of "try_env ce i" d m d'] assms by (simp_all add: publish_try_def try_local)

text \<open>Each version after the one read, up to the latest, was loaded, its operation read, and found compatible.\<close>

definition compatible_with ::
  "commit_env \<Rightarrow> dataset \<Rightarrow> manifest \<Rightarrow> affected_rows option \<Rightarrow> operation \<Rightarrow> u64 \<Rightarrow> operation \<Rightarrow> bool" where
  "compatible_with ce d base affected mine version theirs \<longleftrightarrow>
     (\<exists>m. load_version (ce_publish ce) d version = Inr m \<and>
        concurrent_operation (pe_messages (ce_publish ce)) d version m = Inr theirs) \<and>
     verdict_on affected base mine theirs = Compatible"

lemma check_version_Inr:
  "check_version ce d base affected mine ops version = Inr ops' \<longleftrightarrow>
     (\<exists>theirs. ops' = ops @ [theirs] \<and> compatible_with ce d base affected mine version theirs)"
proof (cases "load_version (ce_publish ce) d version")
  case (Inr m)
  show ?thesis
  proof (cases "concurrent_operation (pe_messages (ce_publish ce)) d version m")
    case theirs: (Inr theirs)
    show ?thesis
      using Inr theirs by (cases "verdict_on affected base mine theirs") (auto simp: check_version_def compatible_with_def Let_def)
  qed (use Inr in \<open>simp add: check_version_def compatible_with_def Let_def\<close>)
qed (simp add: check_version_def compatible_with_def Let_def)

lemma check_versions_Inr:
  "sfold (check_version ce d base affected mine) ops versions = Inr ops' \<longleftrightarrow>
     (\<exists>theirs. ops' = ops @ theirs \<and> list_all2 (compatible_with ce d base affected mine) versions theirs)"
proof (induction versions arbitrary: ops)
  case (Cons v versions)
  show ?case
    by (auto simp: sbind_eq_Inr check_version_Inr Cons.IH list_all2_Cons1)
qed auto

text \<open>The manifest \<open>m\<close> is the change, made from \<open>base\<close> at \<open>read_version\<close>, applied to the latest version of \<open>d\<close>.\<close>

definition rebased_onto ::
  "commit_env \<Rightarrow> dataset \<Rightarrow> manifest \<Rightarrow> manifest \<Rightarrow> u64 \<Rightarrow> affected_rows option \<Rightarrow> u64 \<Rightarrow> manifest \<Rightarrow> bool" where
  "rebased_onto ce d base ours read_version affected version m \<longleftrightarrow>
     (\<exists>k message mine latest theirs merged r.
        derive_operation (pe_messages (ce_publish ce)) (Some base) ours = Some (k, message) \<and>
        decode_operation (pe_messages (ce_publish ce)) k message = Inr mine \<and>
        load_version (ce_publish ce) d version = Inr latest \<and>
        list_all2 (compatible_with ce d base affected mine) (versions_after read_version version) theirs \<and>
        merge_affected ce base latest version affected mine theirs = Inr merged \<and>
        rebase_operation (ce_codecs ce) (pe_limits (ce_publish ce)) latest ours merged theirs (version + 1) = Some (Inr r) \<and>
        m = finish_rebase ours latest (version + 1) (op_kind merged) r)"

lemma rebase_attempt_Inr:
  assumes "rebase_attempt ce d base ours read_version affected = Some (Inr m)"
  defines "version \<equiv> highest_manifest_version (version_names d)"
  shows "version \<noteq> 0" "rebased_onto ce d base ours read_version affected version m" "m_version m = version + 1"
proof -
  let ?e = "ce_publish ce"
  have load: "load_latest_manifest (pe_manifests ?e) (pe_limits ?e) (dataset_store d) =
      (if version = 0 then Inl ''no manifest found under _versions'' else sbind (load_version ?e d version) (\<lambda>m. Inr (m, version)))"
    by (simp add: load_latest_manifest_def load_version_def version_def Let_def, simp add: dataset_store_def)
  from assms(1) obtain latest where latest: "version \<noteq> 0" "load_version ?e d version = Inr latest"
    and rest: "Option.bind (classify_concurrent ce d base ours read_version version affected) (\<lambda>r.
      case sbind r (\<lambda>(mine, theirs).
           sbind (merge_affected ce base latest version affected mine theirs) (\<lambda>mine. Inr (mine, theirs))) of
        Inl error \<Rightarrow> Some (Inl error)
      | Inr (mine, theirs) \<Rightarrow>
          map_option (\<lambda>r. sbind r (\<lambda>rebased. Inr (finish_rebase ours latest (version + 1) (op_kind mine) rebased)))
            (rebase_operation (ce_codecs ce) (pe_limits ?e) latest ours mine theirs (version + 1))) = Some (Inr m)"
    by (cases "load_version ?e d version"; cases "version = 0"; cases "check_manifest_writable (projr (load_version ?e d version)) CommitWrite")
      (simp_all add: rebase_attempt_def Let_def load)
  from rest obtain r where r: "classify_concurrent ce d base ours read_version version affected = Some r"
    by (auto simp: bind_eq_Some_conv)
  from rest r obtain mine theirs where mine: "r = Inr (mine, theirs)" by (cases r) auto
  with rest r obtain merged where
    merged: "merge_affected ce base latest version affected mine theirs = Inr merged"
    and rebase: "map_option (\<lambda>r. sbind r (\<lambda>rebased. Inr (finish_rebase ours latest (version + 1) (op_kind merged) rebased)))
      (rebase_operation (ce_codecs ce) (pe_limits ?e) latest ours merged theirs (version + 1)) = Some (Inr m)"
    by (cases "merge_affected ce base latest version affected mine theirs") auto
  from rebase obtain new where new: "rebase_operation (ce_codecs ce) (pe_limits ?e) latest ours merged theirs (version + 1) = Some (Inr new)"
    "m = finish_rebase ours latest (version + 1) (op_kind merged) new"
    by (auto simp: sbind_eq_Inr)
  from r mine obtain k message where op: "derive_operation (pe_messages ?e) (Some base) ours = Some (k, message)"
    by (auto simp: classify_concurrent_def)
  with r mine have "decode_operation (pe_messages ?e) k message = Inr mine"
    "list_all2 (compatible_with ce d base affected mine) (versions_after read_version version) theirs"
    by (cases "decode_operation (pe_messages ?e) k message", auto simp: classify_concurrent_def sbind_eq_Inr check_versions_Inr)+
  note op = op this
  show "version \<noteq> 0" "rebased_onto ce d base ours read_version affected version m" "m_version m = version + 1"
    using latest merged new op by (auto simp: rebased_onto_def finish_rebase_def Let_def)
qed

lemma extends_load:
  assumes "extends d d'" "well_named d" "\<not> detached v" "load_version e d v = Inr m"
  shows "load_version e d' v = Inr m"
proof -
  obtain b where "version_bytes d v = Some b"
    using assms(4) by (cases "version_bytes d v") (simp_all add: load_version_bytes [OF assms(2,3)])
  with extends_keeps [OF assms(1,2) this] assms(4) show ?thesis
    by (simp add: load_version_bytes [OF assms(2,3)] load_version_bytes [OF extends_named [OF assms(1,2)] assms(3)])
qed

lemma highest_lineage: "well_named d \<Longrightarrow> \<not> detached (highest_manifest_version (version_names d))"
  using canonical_highest(2) by (auto simp: well_named_def)

text \<open>How one try of the loop ends.\<close>

lemma commit_retry_SucE:
  assumes "commit_retry ce others base ours read_version affected (Suc n) i error d = Some (d', r)"
  obtains (refused) err where "rebase_attempt ce (others (2 * i + 1) d) base ours read_version affected = Some (Inl err)"
      "d' = others (2 * i + 1) d" "r = Inl err"
  | (tried) m r1 d1 where "rebase_attempt ce (others (2 * i + 1) d) base ours read_version affected = Some (Inr m)"
      "publish_try ce (i + 1) (others (2 * i + 2) (others (2 * i + 1) d)) m = Some (d1, r1)"
      "r1 = Inr () \<and> d' = d1 \<and> r = Inr (m_version m) \<or>
       (\<exists>err. r1 = Inl err \<and> \<not> is_conflict err \<and> d' = d1 \<and> r = Inl err) \<or>
       (\<exists>err. r1 = Inl err \<and> is_conflict err \<and> commit_retry ce others base ours read_version affected n (i + 1) err d1 = Some (d', r))"
proof -
  define d1 where "d1 = others (2 * i + 1) d"
  define d2 where "d2 = others (2 * i + 2) d1"
  from assms have step: "Option.bind (rebase_attempt ce d1 base ours read_version affected) (\<lambda>a.
      case a of
        Inl error \<Rightarrow> Some (d1, Inl error)
      | Inr m \<Rightarrow> Option.bind (publish_try ce (i + 1) d2 m) (\<lambda>(d, r).
          case r of
            Inr _ \<Rightarrow> Some (d, Inr (m_version m))
          | Inl error \<Rightarrow>
              if is_conflict error then commit_retry ce others base ours read_version affected n (i + 1) error d
              else Some (d, Inl error))) = Some (d', r)"
    by (simp only: commit_retry.simps Let_def d1_def d2_def)
  then obtain a where a: "rebase_attempt ce d1 base ours read_version affected = Some a"
    by (cases "rebase_attempt ce d1 base ours read_version affected") auto
  show ?thesis
  proof (cases a)
    case (Inl err)
    from step have "d' = d1" "r = Inl err" by (simp_all add: a Inl)
    with refused [of err] a Inl show ?thesis unfolding d1_def by blast
  next
    case (Inr m)
    from step obtain d3 r1 where publish: "publish_try ce (i + 1) d2 m = Some (d3, r1)"
      by (cases "publish_try ce (i + 1) d2 m") (auto simp: a Inr)
    have "r1 = Inr () \<and> d' = d3 \<and> r = Inr (m_version m) \<or>
       (\<exists>err. r1 = Inl err \<and> \<not> is_conflict err \<and> d' = d3 \<and> r = Inl err) \<or>
       (\<exists>err. r1 = Inl err \<and> is_conflict err \<and> commit_retry ce others base ours read_version affected n (i + 1) err d3 = Some (d', r))"
      using step publish by (cases r1) (simp_all add: a Inr split: if_splits)
    with tried [of m d3 r1] a publish Inr show ?thesis unfolding d1_def d2_def by blast
  qed
qed

lemma commit_retry_stores:
  assumes "is_local (ce_publish ce)" "\<And>i d. extends d (others i d)"
    and "commit_retry ce others base ours read_version affected n i error d = Some (d', r)" "well_named d"
  shows "extends d d' \<and> (\<forall>v. r = Inr v \<longrightarrow> \<not> detached v \<longrightarrow> (\<exists>j d1 m. extends d d1 \<and> extends d1 d' \<and>
      rebased_onto ce d1 base ours read_version affected (v - 1) m \<and> m_version m = v \<and>
      version_bytes d1 v = None \<and> version_bytes d' v = Some (written_bytes (try_env ce j) m)))"
  using assms(3,4)
proof (induction n arbitrary: i error d)
  case (Suc n)
  define d1 where "d1 = others (2 * i + 1) d"
  define d2 where "d2 = others (2 * i + 2) d1"
  have ext: "extends d d1" "extends d1 d2" by (simp_all add: d1_def d2_def assms(2))
  then have named: "well_named d1" "well_named d2" using Suc.prems(2) extends_named by blast+
  from Suc.prems(1) show ?case
  proof (cases rule: commit_retry_SucE)
    case (refused err)
    with ext show ?thesis by (simp add: d1_def)
  next
    case (tried m r1 d3)
    have m: "rebased_onto ce d1 base ours read_version affected (m_version m - 1) m" "m_version m \<noteq> 0"
      using rebase_attempt_Inr [OF tried(1)] next_nonzero [OF highest_lineage [OF named(1)]] by (simp_all add: d1_def)
    have publish: "publish_try ce (i + 1) d2 m = Some (d3, r1)" using tried(2) by (simp add: d1_def d2_def)
    have ext3: "extends d2 d3" by (rule publish_try_extends [OF assms(1) publish m(2)])
    then have ext1: "extends d1 d3" "extends d d3" using ext extends_trans by blast+
    from tried(3) consider (committed) "r1 = Inr ()" "d' = d3" "r = Inr (m_version m)"
      | (failed) err where "d' = d3" "r = Inl err"
      | (again) err where "commit_retry ce others base ours read_version affected n (i + 1) err d3 = Some (d', r)" by blast
    then show ?thesis
    proof cases
      case committed
      have "version_bytes d1 (m_version m) = None \<and> version_bytes d3 (m_version m) = Some (written_bytes (try_env ce (i + 1)) m)"
        if "\<not> detached (m_version m)"
        using publish_try_stores [OF assms(1) _ named(2) m(2) that, of "i + 1" d3] publish committed(1)
          extends_absent [OF ext(2) named(1)] by simp
      with committed ext ext1 m(1) show ?thesis by blast
    next
      case failed
      with ext1 show ?thesis by simp
    next
      case again
      have mono: "extends d x" if "extends d3 x" for x using ext1(2) that by (rule extends_trans)
      from Suc.IH [OF again extends_named [OF ext1(2) Suc.prems(2)]] mono show ?thesis by blast
    qed
  qed
qed auto


subsection \<open>Commits make progress\<close>

lemma refused_not_conflict:
  assumes "check_publish e m = Inl err"
  shows "\<not> is_conflict err"
proof -
  have "\<not> is_conflict x" if "check_manifest_writable m CommitWrite = Inl x" for x
    using that by (auto simp: check_manifest_writable_def check_paired_flags_def is_conflict_def split: if_splits)
  moreover have "\<not> is_conflict x" if "check_data_file_versions m = Inl x" for x
    using that by (auto simp: check_data_file_versions_def Let_def is_conflict_def split: if_splits)
  ultimately show ?thesis
    using assms
    by (cases "check_manifest_writable m CommitWrite") (auto simp: check_publish_def is_conflict_def split: option.splits if_splits)
qed

lemma transaction_error_not_conflict:
  assumes "write_transaction_file e d m = Some (d1, Inl err)" "\<And>x. pe_transaction_error e = Some x \<Longrightarrow> \<not> is_conflict x"
  shows "\<not> is_conflict err"
proof -
  from assms(1) obtain z where z: "transaction_file (pe_messages e)
      (load_manifest_version (pe_manifests e) (pe_limits e) (dataset_store d)) (pe_uuid e) m = Some z"
    "(case z of Inl error \<Rightarrow> (d, Inl error)
      | Inr (name, bytes) \<Rightarrow> (case pe_transaction_error e of Some error \<Rightarrow> (d, Inl error)
          | None \<Rightarrow> (d\<lparr>ds_transactions := (name, bytes) # ds_transactions d\<rparr>, Inr name))) = (d1, Inl err)"
    unfolding write_transaction_file_def by blast
  show ?thesis
  proof (cases z)
    case (Inl x)
    with z show ?thesis by (auto simp: transaction_file_def Let_def is_conflict_def split: option.splits sum.splits if_splits)
  next
    case (Inr p)
    with z(2) assms(2) show ?thesis by (cases p; cases "pe_transaction_error e") auto
  qed
qed

text \<open>A conflict is reported only when the version is there.\<close>

lemma local_conflict:
  assumes "is_local e" "\<And>x. pe_transaction_error e = Some x \<Longrightarrow> \<not> is_conflict x"
    and "publish_manifest e d m = Some (d', Inl err)" "is_conflict err" "\<not> detached (m_version m)"
  shows "version_bytes d (m_version m) \<noteq> None"
proof -
  obtain checked where checked: "check_publish e m = Inr checked"
    using assms(3,4) refused_not_conflict [of e m] by (cases "check_publish e m") (auto simp: publish_manifest_def)
  with assms(3) obtain d1 t where txn: "write_transaction_file e d checked = Some (d1, t)"
    and r: "(case t of Inl error \<Rightarrow> (d1, Inl error)
      | Inr transaction \<Rightarrow> put_manifest e d1 (m_version m) (written_manifest checked transaction)) = (d', Inl err)"
    by (auto simp: publish_manifest_def)
  obtain name where t: "t = Inr name" "ds_versions d1 = ds_versions d"
    using write_transaction_file_cases [OF txn] transaction_error_not_conflict [of e d checked d1 err] txn r assms(2,4) by (cases t) auto
  with r local_put [of e d1 "m_version m" "written_manifest checked name" d' "Inl err"] assms(5) show ?thesis
    by (simp add: is_local_eq [OF assms(1)] version_bytes_def)
qed

lemma not_detached: "unat v < 2 ^ 63 \<Longrightarrow> \<not> detached v"
proof -
  assume "unat v < 2 ^ 63"
  then have "\<not> bit (unat v) 63" by (simp add: bit_iff_odd)
  then have "\<not> bit v 63" by (simp add: bit_unsigned_iff)
  then show ?thesis by (simp add: detached_def bit_iff_and_push_bit_not_eq_0)
qed

text \<open>So a try that conflicts was overtaken: another writer committed between its look at the latest version and its publication.\<close>

lemma try_overtaken:
  assumes "is_local (ce_publish ce)" "\<And>x. pe_transaction_error (ce_publish ce) = Some x \<Longrightarrow> \<not> is_conflict x"
    and "rebase_attempt ce d base ours read_version affected = Some (Inr m)" "extends d d1" "well_named d"
    and "publish_try ce i d1 m = Some (d', Inl err)" "is_conflict err" "\<not> detached (m_version m)"
  shows "unat (highest_manifest_version (version_names d)) < unat (highest_manifest_version (version_names d1))"
proof -
  let ?h = "highest_manifest_version (version_names d)"
  have v: "m_version m = ?h + 1" using rebase_attempt_Inr [OF assms(3)] by simp
  have "version_bytes d1 (m_version m) \<noteq> None"
    using local_conflict [of "try_env ce i" d1 m d' err] assms(1,2,6,7,8) by (simp add: is_local_def publish_try_def)
  from highest_bounds [OF version_bytes_in [OF extends_named [OF assms(4,5)] this]]
  have "?h + 1 \<le> highest_manifest_version (version_names d1)" by (simp add: v)
  then show ?thesis using unat_next [OF highest_lineage [OF assms(5)]] by (simp add: word_le_nat_alt)
qed

text \<open>C9: a commit that has tried n times gives up on a conflict only when other writers committed at least n
  versions meanwhile. Otherwise it has committed, or the change itself was refused: by the check against the
  versions since or by the rebase, or by an error that is no conflict. Writers cannot block each other.\<close>

theorem commit_gives_up_overtaken:
  assumes "is_local (ce_publish ce)" "\<And>x. pe_transaction_error (ce_publish ce) = Some x \<Longrightarrow> \<not> is_conflict x"
    and "\<And>i d. extends d (others i d)" "well_named d"
    and "commit_retry ce others base ours read_version affected n i error d = Some (d', Inl err)"
    and "unat (highest_manifest_version (version_names d')) + 1 < 2 ^ 63"
  shows "(\<exists>d1. rebase_attempt ce d1 base ours read_version affected = Some (Inl err)) \<or> \<not> is_conflict err \<or>
    unat (highest_manifest_version (version_names d)) + n \<le> unat (highest_manifest_version (version_names d'))"
  using assms(4,5)
proof (induction n arbitrary: i error d)
  case (Suc n)
  define d1 where "d1 = others (2 * i + 1) d"
  define d2 where "d2 = others (2 * i + 2) d1"
  have ext: "extends d d1" "extends d1 d2" by (simp_all add: d1_def d2_def assms(3))
  then have named: "well_named d1" "well_named d2" using Suc.prems(1) extends_named by blast+
  from Suc.prems(2) show ?case
  proof (cases rule: commit_retry_SucE)
    case (tried m r1 d3)
    have attempt: "rebase_attempt ce d1 base ours read_version affected = Some (Inr m)"
      and publish: "publish_try ce (i + 1) d2 m = Some (d3, r1)"
      using tried(1,2) by (simp_all add: d1_def d2_def)
    have m: "m_version m = highest_manifest_version (version_names d1) + 1" using rebase_attempt_Inr [OF attempt] by simp
    have ext3: "extends d2 d3"
      using publish_try_extends [OF assms(1) publish] next_nonzero [OF highest_lineage [OF named(1)]] m by simp
    from tried(3) consider "\<not> is_conflict err"
      | (again) err1 where "r1 = Inl err1" "is_conflict err1"
          "commit_retry ce others base ours read_version affected n (i + 1) err1 d3 = Some (d', Inl err)" by auto
    then show ?thesis
    proof cases
      case again
      have named3: "well_named d3" by (rule extends_named [OF ext3 named(2)])
      have "extends d3 d'" using commit_retry_stores [OF assms(1,3) again(3) named3] by blast
      with ext ext3 have "extends d1 d'" using extends_trans by blast
      then have "unat (m_version m) < 2 ^ 63"
        using extends_highest [of d1 d'] assms(6) unat_next [OF highest_lineage [OF named(1)]] by (simp add: m word_le_nat_alt)
      then have "unat (highest_manifest_version (version_names d1)) < unat (highest_manifest_version (version_names d2))"
        using try_overtaken [OF assms(1,2) attempt ext(2) named(1) _ again(2)] publish again(1) by (simp add: not_detached)
      moreover have "unat (highest_manifest_version (version_names d)) \<le> unat (highest_manifest_version (version_names d1))"
        "unat (highest_manifest_version (version_names d2)) \<le> unat (highest_manifest_version (version_names d3))"
        using extends_highest ext(1) ext3 by (simp_all add: word_le_nat_alt)
      ultimately show ?thesis using Suc.IH [OF named3 again(3)] by auto
    qed simp
  qed blast
qed (auto)


subsection \<open>Examples\<close>

definition example_commit_env :: commit_env where
  "example_commit_env = \<lparr>ce_publish = example_local_env, ce_codecs = example_codecs, ce_io = example_env, ce_clock = (0, 0),
     ce_writer_version = ''1'', ce_uuid = (\<lambda>_. ''u''), ce_attempts = 3\<rparr>"

text \<open>A dataset of one version, and a restore of that version made from it.\<close>

definition example_dataset :: dataset where
  "example_dataset = \<lparr>ds_versions = [(manifest_filename 1 True, manifest_bytes example_manifest_codecs example_first)], ds_transactions = []\<rparr>"

definition example_restore :: manifest where
  "example_restore = example_first\<lparr>m_operation := RestoreTag, m_restored_version := 1\<rparr>"

abbreviation example_ours :: manifest where
  "example_ours \<equiv> stamp_commit example_commit_env 1 example_restore"

definition example_rebased :: manifest where
  "example_rebased = finish_rebase example_ours (loaded_manifest example_first) 2 Restore (rebase_restore (loaded_manifest example_first) example_ours)"

lemma lineage_1: "\<not> detached 1" "\<not> detached 2"
  by (simp_all add: detached_def)

lemma example_named: "well_named example_dataset" "highest_manifest_version (version_names example_dataset) = 1"
  using parse_filename [OF lineage_1(1), of True]
  by (auto simp: well_named_def canonical_def example_dataset_def highest_single lineage_1)

lemma example_local_commit:
  "is_local (ce_publish example_commit_env)" "pe_transaction_error (ce_publish example_commit_env) = None"
  by (simp_all add: example_commit_env_def example_local_env_def is_local_env, simp add: local_env_def example_publish_env_def)

lemma example_load: "load_version (ce_publish example_commit_env) example_dataset 1 = Inr (loaded_manifest example_first)"
proof -
  have "manifest_ok example_manifest_codecs initial_read_limits example_first"
    by (simp add: manifest_ok_def on_wire_def example_manifest_codecs_def example_first_def new_manifest_def initial_read_limits_def)
  then have "load_manifest_source example_manifest_codecs initial_read_limits
      (bytes_source (manifest_bytes example_manifest_codecs example_first)) True = Inr (loaded_manifest example_first)"
    by (rule load_written) (simp_all add: example_first_def new_manifest_def check_manifest_readable_def check_paired_flags_def)
  moreover have "version_bytes example_dataset 1 = Some (manifest_bytes example_manifest_codecs example_first)"
    using example_named(1) name_scheme_canonical [of True "version_names example_dataset"] lineage_1 parse_filename [OF lineage_1(1), of True]
    by (auto simp: version_bytes_def canonical_def example_dataset_def)
  ultimately show ?thesis
    by (simp add: load_version_bytes [OF example_named(1) lineage_1(1)], simp add: example_commit_env_def example_local_env_def local_env_def example_publish_env_def)
qed

lemma example_attempt:
  "rebase_attempt example_commit_env example_dataset base example_ours 1 None = Some (Inr example_rebased)"
proof -
  let ?e = "ce_publish example_commit_env"
  have load: "load_latest_manifest (pe_manifests ?e) (pe_limits ?e) (dataset_store example_dataset) = Inr (loaded_manifest example_first, 1)"
    using example_load by (simp add: load_latest_manifest_def load_version_def Let_def)
      (simp add: dataset_store_def example_named)
  have op: "derive_operation c parent example_ours = Some (Restore, put_uint 1 1)" for c parent
    by (simp add: derive_operation_def stamp_commit_def example_restore_def example_first_def new_manifest_def)
  have decode: "decode_operation (pe_messages ?e) Restore (put_uint 1 1) = Inr ((new_operation Restore)\<lparr>op_restore_version := 1\<rparr>)"
    by code_simp
  have "check_manifest_writable (loaded_manifest example_first) CommitWrite = Inr ()"
    by (simp add: check_manifest_writable_def check_paired_flags_def loaded_manifest_def on_wire_def example_first_def new_manifest_def)
  then show ?thesis
    by (simp add: rebase_attempt_def load classify_concurrent_def op decode versions_after_def merge_affected_def rebase_operation_def
        example_rebased_def new_operation_def Let_def)
qed

lemma example_parts:
  assumes "m \<in> {example_ours, example_rebased}"
  shows "m_version m = 2" "m_operation m = RestoreTag" "m_explicit_operation_field m = 0" "m_format_version m = ''2.2''" "m_fragments m = []"
    "m_reader_flags m = 0" "m_writer_flags m = 0" "m_index_section_error m = []"
  using assms
  by (auto simp: example_rebased_def finish_rebase_def rebase_restore_def stamp_commit_def example_restore_def example_first_def new_manifest_def Let_def)

lemma example_checks:
  assumes "m \<in> {example_ours, example_rebased}"
  shows "check_publish (try_env example_commit_env i) m = Inr m"
    "\<exists>d1. write_transaction_file (try_env example_commit_env i) d m = Some (d1, Inr (transaction_name (try_env example_commit_env i) m))"
proof -
  have "uri_scheme (pe_path (ce_publish example_commit_env)) = None" "\<not> pe_object_store (ce_publish example_commit_env)"
    by (simp_all add: example_commit_env_def example_local_env_def local_env_def)
  then show "check_publish (try_env example_commit_env i) m = Inr m"
    by (simp add: check_publish_def check_manifest_writable_def check_paired_flags_def check_data_file_versions_def storage_version_def
        example_parts [OF assms])
  show "\<exists>d1. write_transaction_file (try_env example_commit_env i) d m = Some (d1, Inr (transaction_name (try_env example_commit_env i) m))"
    by (simp add: write_transaction_file_def transaction_file_def needs_parent_def derive_operation_def txn_read_version_def transaction_name_def
        Let_def example_parts [OF assms] example_local_commit(2))
qed

text \<open>The publication of either manifest, up to the moment its file is put in place.\<close>

lemma example_publish_try:
  assumes "m \<in> {example_ours, example_rebased}"
  obtains d1 w where "ds_versions d1 = ds_versions d"
    "publish_try example_commit_env i d m = Some (put_manifest (try_env example_commit_env i) d1 2 w)"
proof -
  obtain d1 where txn: "write_transaction_file (try_env example_commit_env i) d m = Some (d1, Inr (transaction_name (try_env example_commit_env i) m))"
    using example_checks(2) [OF assms] by blast
  with example_parts(1) [OF assms] example_checks(1) [OF assms] write_transaction_file_cases [OF txn] that show ?thesis
    by (auto simp: publish_try_def publish_manifest_def)
qed



text \<open>A writer that takes version 2 between the look at the latest version and the publication.\<close>

definition example_writer :: "nat \<Rightarrow> dataset \<Rightarrow> dataset" where
  "example_writer i d =
     (if i = 2 then d\<lparr>ds_versions := ds_versions d @ [(manifest_filename 2 (name_scheme (version_names d)), [])]\<rparr> else d)"

lemma example_writer_extends: "extends d (example_writer i d)"
  using canonical_add [of _ "version_names d" 2] by (auto simp: extends_def example_writer_def well_named_def)

theorem commit_gives_up_overtaken_witness:
  "\<exists>d' err. commit_retry example_commit_env example_writer example_first example_ours 1 None 1 0 ''commit conflict'' example_dataset =
      Some (d', Inl err) \<and> is_conflict err \<and>
    ((\<exists>d1. rebase_attempt example_commit_env d1 example_first example_ours 1 None = Some (Inl err)) \<or>
     2 \<le> unat (highest_manifest_version (version_names d')))"
proof -
  let ?d2 = "example_writer 2 example_dataset"
  obtain d1 w where d1: "ds_versions d1 = ds_versions ?d2"
    "publish_try example_commit_env 1 ?d2 example_rebased = Some (put_manifest (try_env example_commit_env 1) d1 2 w)"
    by (rule example_publish_try [of example_rebased]) simp
  obtain d' r where put: "put_manifest (local_env (try_env example_commit_env 1)) d1 2 w = (d', r)" by fastforce
  have named: "well_named ?d2" using extends_named [OF example_writer_extends example_named(1)] .
  have high: "highest_manifest_version (version_names ?d2) = 2"
    using example_named(2) parse_filename [OF lineage_1(2)] by (simp add: example_writer_def highest_append highest_single)
  then have "2 \<in> versions_in (version_names ?d2)" using highest_there [of "version_names ?d2"] by simp
  then have "manifest_filename 2 (name_scheme (version_names ?d2)) \<in> set (version_names ?d2)"
    using canonical_versions canonical_name_scheme named unfolding well_named_def by blast
  then obtain err where r: "r = Inl err" "is_conflict err" "ds_versions d' = ds_versions ?d2"
    using local_put [OF put] by (auto simp: d1 map_of_eq_None_iff is_conflict_def)
  have retry: "commit_retry example_commit_env example_writer example_first example_ours 1 None 1 0 ''commit conflict'' example_dataset = Some (d', Inl err)"
    using example_attempt d1 put r by (simp add: example_writer_def try_local [OF example_local_commit(1)] Let_def numeral_2_eq_2)
  have "unat (highest_manifest_version (version_names d')) + 1 < 2 ^ 63" using high r(3) by simp
  from commit_gives_up_overtaken [OF example_local_commit(1) _ example_writer_extends example_named(1) retry this] retry r(2)
  show ?thesis by (auto simp: example_local_commit(2) example_named(2))
qed

subsection \<open>A delete and a concurrent overlay\<close>

text \<open>A delete is compatible with a concurrent data overlay, but its rebase puts its own copy of a fragment, made before the
  overlay, in the place of the latest one: whatever overlays the latest version has on the fragment, the new version has
  some only if the copy has.\<close>

lemma delete_drops_concurrent_overlay:
  assumes "op_kind mine = Delete" "op_kind theirs = DataOverlay" "rebase_operation c limits latest ours mine ops v = Some (Inr m)"
    and "f \<in> set (op_updated_fragments mine)" "distinct (map fr_id (op_updated_fragments mine))" "fr_id f \<notin> set (op_removed_ids mine)"
    and "g \<in> set (m_fragments m)" "fr_id g = fr_id f"
  shows "check_txn mine theirs = Compatible" "fragment_has_overlays g = fragment_has_overlays f"
proof -
  show "check_txn mine theirs = Compatible" using assms(1,2) by (simp add: check_txn_def delete_check_def may_alter_nullability_def supplies_values_def updates_schema_or_field_metadata_def)
  have "filter (\<lambda>g. fr_id g = fr_id f) fs = [f]" if "f \<in> set fs" "distinct (map fr_id fs)" for fs
    using that by (induction fs) (auto simp: filter_empty_conv image_iff)
  from this [OF assms(4,5)]
  have f: "last_by_id (op_updated_fragments mine) (fr_id f) = Some f" by (simp add: last_by_id_filter)
  let ?put = "\<lambda>x. case last_by_id (op_updated_fragments mine) (fr_id x) of None \<Rightarrow> x | Some y \<Rightarrow> y"
  from assms(7) obtain x where g: "g = drop_files only_tombstones (?put x)"
    unfolding rebased_delete [OF assms(3,1)] replace_fragments_def by auto
  have "fr_id (?put x) = fr_id x" using by_id(1) by (cases "last_by_id (op_updated_fragments mine) (fr_id x)") simp_all
  with g assms(8) have "fr_id x = fr_id f" by (simp add: drop_files_def)
  with g f show "fragment_has_overlays g = fragment_has_overlays f" by (simp add: drop_files_def fragment_has_overlays_def)
qed

end
