(* ===== verification/Spec2Isabelle.thy ===== *)
theory Spec2Isabelle
  imports Row_Id_Index Roaring Base_Paths Commit_Conflicts Index_Maintenance Overlays Read_Safety Deletion_Vector
    Transaction_Checks Transaction_Indices Row_Stamping Data_Replacement Dataset_Transaction Transaction_Invariants
    Deletion_Merge Transaction_Replay Manifest_File Version_Store Commit_Protocol
begin

text \<open>
  Verification of nanolance, a C++ implementation of the Lance columnar table format (\<open>src/src\<close>,
  \<open>src/include/nanolance\<close>).

  \<^bold>\<open>The program.\<close> A dataset is a directory of data files and of numbered \<^emph>\<open>manifests\<close>, one per version. A
  manifest lists \<^emph>\<open>fragments\<close> (groups of rows, each with its data files, a deletion file, row ids and row
  versions), indices, a schema and feature flags. A change is an \<^emph>\<open>operation\<close>: it is applied to the latest
  manifest and published as the next version; when another writer published first, the change is checked
  against the operations committed meanwhile, and rebased, retried or refused. The development models this
  table layer (\<open>src/src/table\<close>, the commit part of \<open>src/src/dataset/dataset.cpp\<close>) and the byte formats it rests on.

  \<^bold>\<open>Theories.\<close>
  \<^item> \<open>Prelude\<close>: the types (\<open>byte\<close>, \<open>u32\<close>, \<open>u64\<close>, \<open>result\<close>: an error message or a value), the error monad \<open>sbind\<close>,
    little-endian numbers, lists, sorting, and the collections \<open>codec_simps\<close> and \<open>width_simps\<close>.
  \<^item> \<open>Proto_Wire\<close> (\<open>base/proto_wire.hpp\<close>): the protobuf wire format, its writers and its field reader. The locales
    \<open>prefix_codec\<close> and \<open>field_reader\<close> are the contract the messages below rely on; both are interpreted on the
    writers and the reader of the code.
  \<^item> \<open>Row_Id_Codec\<close>, \<open>Row_Id_Sequence\<close> (\<open>table/row_ids.cpp\<close>): the five segment encodings, row id sequences and row version
    runs; encoding and decoding are inverse, and the operations on runs agree with the plain list.
  \<^item> \<open>Row_Meta\<close>, \<open>Row_Id_Index\<close> (\<open>table/row_ids.cpp\<close>): a fragment's row metadata, the index from row ids to addresses of live rows, its
    inverse, and the resolution of ids.
  \<^item> \<open>Roaring\<close> (\<open>base/roaring_bitmap.cpp\<close>): 32-bit bitmaps and 64-bit treemaps; the locale \<open>id_set_codec\<close> is what the clients
    use of them.
  \<^item> \<open>Manifest\<close> (\<open>generated/lance_minimal.pb.hpp\<close>, \<open>table/dataset_operation.hpp\<close>): the records of the manifest and of an
    operation, and map updates.
  \<^item> \<open>Base_Paths\<close>, \<open>Overlays\<close>, \<open>Index_Maintenance\<close>, \<open>Commit_Conflicts\<close>, \<open>Read_Safety\<close>: the files of these names under \<open>table\<close> and
    \<open>include/nanolance/read_safety.hpp\<close>.
  \<^item> \<open>Deletion_Vector\<close> (\<open>table/deletion_vector.cpp\<close>): both readers of deletion files, on any bytes, and the writer.
  \<^item> \<open>Transaction_Checks\<close>, \<open>Transaction_Indices\<close>, \<open>Row_Stamping\<close>, \<open>Data_Replacement\<close>, \<open>Dataset_Transaction\<close>
    (\<open>table/dataset_transaction.cpp\<close>): \<open>apply_operation\<close> and \<open>rebase_operation\<close>, with every kind of operation.
  \<^item> \<open>Transaction_Invariants\<close>: what holds along every sequence of committed operations.
  \<^item> \<open>Deletion_Merge\<close> (\<open>dataset/dataset.cpp\<close>): a delete rebased over a concurrent delete.
  \<^item> \<open>Operation_Codec\<close> (\<open>table/dataset_operation.cpp\<close>): decoding an operation message, with the second field reader of the program (\<open>WireReader\<close>),
    on which \<open>field_reader\<close> is interpreted again.
  \<^item> \<open>Transaction_File\<close> (\<open>table/transaction_file.cpp\<close>): the operation of a version, derived from the version and its parent, and its bytes.
    \<open>Transaction_Replay\<close> shows that these bytes, decoded by \<open>Operation_Codec\<close> and applied by \<open>Dataset_Transaction\<close>, give the version back.
  \<^item> \<open>Manifest_Names\<close>, \<open>Manifest_File\<close> (\<open>table/manifest_reader.cpp\<close>, \<open>table/manifest_writer.cpp\<close>): the names of manifests, loading one with its checks, and
    publishing one. \<open>Version_Store\<close> states what committing relies on as the locale \<open>version_store\<close>, interpreted on \<open>publish_manifest\<close> over a
    local file system: versions are added once and never change.
  \<^item> \<open>Commit_Protocol\<close> (\<open>dataset/dataset.cpp\<close>, \<open>commit_next_version\<close>): the whole commit, with other writers acting between its steps. What is stored
    is the change checked against every version since it was made (safety); a try no other writer disturbs commits, and giving
    up means having been overtaken at every try (liveness).
  \<^item> \<open>Std_Map\<close>: \<open>std::map\<close> as a list of pairs sorted by key.

  \<^bold>\<open>Conventions.\<close> A function that fills an error string and returns false gives \<open>Inl\<close> of the message. Out-parameters are
  results. Integers that can wrap are words of the code's width; sizes and positions of buffers are \<open>nat\<close>, field ids (\<open>int32_t\<close>)
  are \<open>int\<close>. A loop over the fields of a message is a fold over \<open>read_fields\<close>. A loop that may not return is a
  \<open>partial_function (option)\<close>, where \<open>None\<close> is not returning: the walk along parent ids in the check of a merge and the walk over the fields below one
  in \<open>Transaction_File\<close> are the only ones. No definition uses fuel; the tries of a commit are bounded by the code's own number of attempts.

  \<^bold>\<open>Parameters.\<close> The protobuf codec of \<open>lance_minimal.pb.cpp\<close> (nanom), zstd, the file system and the random part of file names are
  parameters (\<open>codecs\<close>, \<open>message_codecs\<close>, \<open>manifest_codecs\<close>, \<open>io_env\<close>, \<open>publish_env\<close>, \<open>commit_env\<close> and arguments of the readers). What other writers do
  during a commit is a function of the step and of the dataset. Where a property needs one to behave, it says so: a file written
  is read back.

  \<^bold>\<open>Not modelled.\<close> Reading and writing of data files and their encodings (\<open>src/src/file\<close>, \<open>src/src/encoding\<close>), scans and expressions
  (\<open>src/src/scan\<close>, \<open>src/src/expr\<close>), index structures (\<open>src/src/index\<close>), conversion to and from Arrow (\<open>src/src/arrow\<close>), object stores and files
  (\<open>src/src/io\<close>), the C and language bindings (\<open>src/src/api\<close>, \<open>src/bindings\<close>) and tools: they are outside the table layer, and
  much of them drives third-party libraries, floating point or threads. Of the table layer the garbage collection,
  tags and branches of \<open>dataset_refs.cpp\<close> are file system walks.
\<close>

end
